(* ===== verification/Prelude.thy ===== *)
theory Prelude
  imports Main "HOL-Library.Word" "HOL-Library.Sublist"
begin

text \<open>
  What every component of the development shares: the named collections of rewrite rules,
  Go's machine integers, Go's slice operations, and generic lemmas on lists and maps.

  Go's type \<open>int\<close> has 64 bits on every platform the server is built for. Values that only
  travel (a cell number, a limit) are \<open>int\<close> values inside the range; the arithmetic the
  source performs on counters is written with its wrap-around (\<open>wrap64\<close>).
\<close>

named_theorems error_simps \<open>definitions of the sentinel errors and of error inspection\<close>
named_theorems match_simps \<open>accessors of the match entity\<close>

section \<open>Machine integers\<close>

definition int64 :: "int \<Rightarrow> bool" where
  "int64 i \<longleftrightarrow> - (2 ^ 63) \<le> i \<and> i < 2 ^ 63"

definition wrap64 :: "int \<Rightarrow> int" where
  "wrap64 i = sint (word_of_int i :: 64 word)"

lemma wrap64_id [simp]: "int64 i \<Longrightarrow> wrap64 i = i"
  by (simp add: wrap64_def int64_def sint_sbintrunc' signed_take_bit_int_eq_self)

lemma int64_wrap64 [simp]: "int64 (wrap64 i)"
  using sint_ge [of "word_of_int i :: 64 word"] sint_lt [of "word_of_int i :: 64 word"]
  by (simp add: wrap64_def int64_def)

lemma wrap64_overflow: "wrap64 (2 ^ 63 - 1 + 1) = - (2 ^ 63)"
  by (simp add: wrap64_def sint_sbintrunc' signed_take_bit_eq_take_bit_minus)

section \<open>Slices\<close>

text \<open>
  The functions of Go's \<open>slices\<close> package the queue uses. \<open>slices_Index\<close> is the first
  position of a value, \<open>-1\<close> when it is absent; \<open>slices_Delete s i j\<close> removes the elements
  from \<open>i\<close> up to \<open>j\<close>; both callers pass indices inside the slice.
\<close>

definition slices_Contains :: "'a list \<Rightarrow> 'a \<Rightarrow> bool" where
  "slices_Contains xs v \<longleftrightarrow> v \<in> set xs"

fun slices_Index :: "'a list \<Rightarrow> 'a \<Rightarrow> int" where
  "slices_Index [] v = -1"
| "slices_Index (x # xs) v =
     (if x = v then 0
      else (let i = slices_Index xs v in if i < 0 then -1 else i + 1))"

definition slices_Delete :: "'a list \<Rightarrow> nat \<Rightarrow> nat \<Rightarrow> 'a list" where
  "slices_Delete xs i j = take i xs @ drop j xs"

lemma slices_Index_neg: "slices_Index xs v < 0 \<longleftrightarrow> v \<notin> set xs"
  by (induction xs) (auto simp: Let_def)

lemma slices_Delete_Index:
  "0 \<le> slices_Index xs v \<Longrightarrow>
   slices_Delete xs (nat (slices_Index xs v)) (nat (slices_Index xs v) + 1) = remove1 v xs"
proof (induction xs)
  case Nil
  then show ?case by simp
next
  case (Cons x xs)
  show ?case
  proof (cases "x = v")
    case True
    then show ?thesis by (simp add: slices_Delete_def)
  next
    case False
    with Cons.prems have pos: "0 \<le> slices_Index xs v"
      by (auto simp: Let_def split: if_splits)
    then have "nat (slices_Index xs v + 1) = Suc (nat (slices_Index xs v))" by simp
    with False pos Cons.IH [OF pos] show ?thesis
      by (simp add: slices_Delete_def Let_def)
  qed
qed

section \<open>Lists and maps\<close>

lemma distinct_set_card_upto:
  assumes "distinct xs" and "set xs \<subseteq> {..<n}"
  shows "length xs \<le> n"
  using card_mono [OF _ assms(2)] distinct_card [OF assms(1)] by simp

lemma distinct_full_upto:
  assumes "distinct xs" and "set xs \<subseteq> {..<n}" and "length xs = n"
  shows "set xs = {..<n}"
  using card_subset_eq [OF _ assms(2)] distinct_card [OF assms(1)] assms(3) by simp

end
