(* ===== verification/Go_Strings.thy ===== *)
theory Go_Strings
  imports Prelude
begin

text \<open>
  The functions of Go's \<open>strings\<close> and \<open>strconv\<close> packages the program calls. A Go string is
  a sequence of bytes, here a \<open>char list\<close>; \<open>len\<close> is its number of bytes.

  \<^item> \<open>TrimSpace\<close> strips the UTF-8 encodings of every character \<open>unicode.IsSpace\<close> accepts.
  \<^item> \<open>ToLower\<close> is exact on ASCII strings. On a string with a byte above 127 Go maps its
    runes through the tables of package \<open>unicode\<close>; those tables are the parameter \<open>uni\<close>.
  \<^item> \<open>Itoa\<close> and \<open>Atoi\<close> are decimal printing and parsing with Go's syntax and range errors.
  \<^item> \<open>Quote\<close> is the quoting of \<open>%q\<close>, exact on ASCII strings and printable characters.
  \<^item> \<open>Split\<close>, \<open>Join\<close> and \<open>CutPrefix\<close> are used with the separators of the source.
\<close>

section \<open>Trimming\<close>

definition utf8_spaces :: "string list" where
  "utf8_spaces =
     [[CHR 0x09], [CHR 0x0A], [CHR 0x0B], [CHR 0x0C], [CHR 0x0D], [CHR 0x20],
      [CHR 0xC2, CHR 0x85], [CHR 0xC2, CHR 0xA0], [CHR 0xE1, CHR 0x9A, CHR 0x80]]
     @ map (\<lambda>b. [CHR 0xE2, CHR 0x80, b])
         [CHR 0x80, CHR 0x81, CHR 0x82, CHR 0x83, CHR 0x84, CHR 0x85, CHR 0x86, CHR 0x87,
          CHR 0x88, CHR 0x89, CHR 0x8A, CHR 0xA8, CHR 0xA9, CHR 0xAF]
     @ [[CHR 0xE2, CHR 0x81, CHR 0x9F], [CHR 0xE3, CHR 0x80, CHR 0x80]]"

text \<open>\<open>strip ps s\<close> removes, as long as there is one, a prefix of \<open>s\<close> that is in \<open>ps\<close>.\<close>

function strip :: "string list \<Rightarrow> string \<Rightarrow> string" where
  "strip ps s =
     (case find (\<lambda>p. p \<noteq> [] \<and> take (length p) s = p) ps of
        None \<Rightarrow> s
      | Some p \<Rightarrow> strip ps (drop (length p) s))"
  by pat_completeness auto
termination
proof (relation "measure (\<lambda>(ps, s). length s)", goal_cases)
  case 1
  then show ?case by simp
next
  case (2 ps s p)
  then have "p \<noteq> []" and "take (length p) s = p"
    by (auto simp: find_Some_iff)
  then have "s \<noteq> []" by auto
  with \<open>p \<noteq> []\<close> show ?case by simp
qed

declare strip.simps [simp del]

definition starts_with_any :: "string list \<Rightarrow> string \<Rightarrow> bool" where
  "starts_with_any ps s \<longleftrightarrow> (\<exists>p \<in> set ps. p \<noteq> [] \<and> take (length p) s = p)"

definition TrimSpace :: "string \<Rightarrow> string" where
  "TrimSpace s = rev (strip (map rev utf8_spaces) (rev (strip utf8_spaces s)))"

lemma starts_with_any_find:
  "starts_with_any ps s \<longleftrightarrow> find (\<lambda>p. p \<noteq> [] \<and> take (length p) s = p) ps \<noteq> None"
  by (auto simp: starts_with_any_def find_None_iff)

lemma strip_id: "\<not> starts_with_any ps s \<Longrightarrow> strip ps s = s"
  by (subst strip.simps) (simp add: starts_with_any_find)

lemma strip_step:
  "find (\<lambda>p. p \<noteq> [] \<and> take (length p) s = p) ps = Some p \<Longrightarrow>
   strip ps s = strip ps (drop (length p) s)"
  by (subst strip.simps) simp

lemma strip_induct [case_names Stop Step]:
  assumes "\<And>s. \<not> starts_with_any ps s \<Longrightarrow> P s"
    and "\<And>s p. find (\<lambda>p. p \<noteq> [] \<and> take (length p) s = p) ps = Some p \<Longrightarrow>
           P (drop (length p) s) \<Longrightarrow> P s"
  shows "P s"
  using assms
proof (induction ps s rule: strip.induct)
  case (1 ps s)
  then show ?case by (cases "starts_with_any ps s") (auto simp: starts_with_any_find)
qed

lemma strip_stripped: "\<not> starts_with_any ps (strip ps s)"
  by (induction s rule: strip_induct [where ps = ps]) (simp_all add: strip_id strip_step)

lemma strip_suffix: "\<exists>pre. s = pre @ strip ps s"
proof (induction s rule: strip_induct [where ps = ps])
  case (Stop s)
  then show ?case by (simp add: strip_id)
next
  case (Step s p)
  then obtain pre where "drop (length p) s = pre @ strip ps (drop (length p) s)"
    by blast
  then have "s = (take (length p) s @ pre) @ strip ps s"
    using append_take_drop_id [of "length p" s] strip_step [OF Step.hyps(1)]
    by (metis append.assoc)
  then show ?case by blast
qed

lemma starts_with_any_prefix:
  "starts_with_any ps s \<Longrightarrow> starts_with_any ps (s @ t)"
proof -
  assume "starts_with_any ps s"
  then obtain p where p: "p \<in> set ps" "p \<noteq> []" "take (length p) s = p"
    by (auto simp: starts_with_any_def)
  then have "length p \<le> length s"
    by (metis length_take min.cobounded1)
  with p have "take (length p) (s @ t) = p" by simp
  with p show ?thesis by (auto simp: starts_with_any_def)
qed

lemma TrimSpace_no_leading: "\<not> starts_with_any utf8_spaces (TrimSpace s)"
proof
  assume lead: "starts_with_any utf8_spaces (TrimSpace s)"
  obtain pre where "rev (strip utf8_spaces s) =
      pre @ strip (map rev utf8_spaces) (rev (strip utf8_spaces s))"
    using strip_suffix by blast
  then have "strip utf8_spaces s = TrimSpace s @ rev pre"
    by (metis TrimSpace_def rev_append rev_rev_ident)
  with starts_with_any_prefix [OF lead, of "rev pre"] strip_stripped show False
    by metis
qed

lemma TrimSpace_no_trailing: "\<not> starts_with_any (map rev utf8_spaces) (rev (TrimSpace s))"
  by (simp add: TrimSpace_def strip_stripped)

lemma TrimSpace_fixed:
  "\<not> starts_with_any utf8_spaces s \<Longrightarrow>
   \<not> starts_with_any (map rev utf8_spaces) (rev s) \<Longrightarrow> TrimSpace s = s"
  by (simp add: TrimSpace_def strip_id)

lemma TrimSpace_idem [simp]: "TrimSpace (TrimSpace s) = TrimSpace s"
  by (rule TrimSpace_fixed) (rule TrimSpace_no_leading TrimSpace_no_trailing)+

lemma TrimSpace_infix: "\<exists>pre post. s = pre @ TrimSpace s @ post"
proof -
  obtain pre where pre: "s = pre @ strip utf8_spaces s"
    using strip_suffix by blast
  obtain post where "rev (strip utf8_spaces s) =
      post @ strip (map rev utf8_spaces) (rev (strip utf8_spaces s))"
    using strip_suffix by blast
  then have "strip utf8_spaces s = TrimSpace s @ rev post"
    by (metis TrimSpace_def rev_append rev_rev_ident)
  with pre show ?thesis by metis
qed

section \<open>Case\<close>

definition ascii :: "string \<Rightarrow> bool" where
  "ascii s \<longleftrightarrow> (\<forall>c \<in> set s. (of_char c :: nat) < 128)"

definition ascii_lower :: "char \<Rightarrow> char" where
  "ascii_lower c =
     (if 65 \<le> (of_char c :: nat) \<and> (of_char c :: nat) \<le> 90 then char_of (of_char c + 32 :: nat)
      else c)"

definition ToLower :: "(string \<Rightarrow> string) \<Rightarrow> string \<Rightarrow> string" where
  "ToLower uni s = (if ascii s then map ascii_lower s else uni s)"

section \<open>Decimal numbers\<close>

definition digit_char :: "nat \<Rightarrow> char" where
  "digit_char d = char_of (48 + d)"

definition is_digit :: "char \<Rightarrow> bool" where
  "is_digit c \<longleftrightarrow> 48 \<le> (of_char c :: nat) \<and> (of_char c :: nat) \<le> 57"

definition digit_val :: "char \<Rightarrow> nat" where
  "digit_val c = of_char c - 48"

fun decimal :: "nat \<Rightarrow> string" where
  "decimal n = (if n < 10 then [digit_char n] else decimal (n div 10) @ [digit_char (n mod 10)])"

declare decimal.simps [simp del]

definition Itoa :: "int \<Rightarrow> string" where
  "Itoa i = (if i < 0 then CHR ''-'' # decimal (nat (- i)) else decimal (nat i))"

definition parse_decimal :: "string \<Rightarrow> nat" where
  "parse_decimal s = foldl (\<lambda>n c. 10 * n + digit_val c) 0 s"

datatype num_error = ErrSyntax | ErrRange

definition Atoi :: "string \<Rightarrow> num_error + int" where
  "Atoi s =
     (let neg = (s \<noteq> [] \<and> hd s = CHR ''-'');
          ds = (if s \<noteq> [] \<and> (hd s = CHR ''-'' \<or> hd s = CHR ''+'') then tl s else s)
      in if ds = [] \<or> \<not> list_all is_digit ds then Inl ErrSyntax
         else (let n = int (parse_decimal ds); v = (if neg then - n else n)
               in if int64 v then Inr v else Inl ErrRange))"

lemma of_char_digit_char: "d < 10 \<Longrightarrow> (of_char (digit_char d) :: nat) = 48 + d"
  by (simp add: digit_char_def)

lemma is_digit_digit_char [simp]: "d < 10 \<Longrightarrow> is_digit (digit_char d)"
  by (simp add: is_digit_def of_char_digit_char)

lemma digit_val_digit_char [simp]: "d < 10 \<Longrightarrow> digit_val (digit_char d) = d"
  by (simp add: digit_val_def of_char_digit_char)

lemma decimal_nonempty [simp]: "decimal n \<noteq> []"
  by (subst decimal.simps) simp

lemma decimal_digits: "list_all is_digit (decimal n)"
proof (induction n rule: decimal.induct)
  case (1 n)
  then show ?case by (subst decimal.simps) simp
qed

lemma parse_decimal_snoc: "parse_decimal (s @ [c]) = 10 * parse_decimal s + digit_val c"
  by (simp add: parse_decimal_def)

lemma parse_decimal_decimal [simp]: "parse_decimal (decimal n) = n"
proof (induction n rule: decimal.induct)
  case (1 n)
  show ?case
  proof (cases "n < 10")
    case True
    then show ?thesis by (subst decimal.simps) (simp add: parse_decimal_def)
  next
    case False
    with 1 show ?thesis by (subst decimal.simps) (simp add: parse_decimal_snoc)
  qed
qed

lemma digit_not_sign: "is_digit c \<Longrightarrow> c \<noteq> CHR ''-'' \<and> c \<noteq> CHR ''+'' \<and> c \<noteq> CHR '',''"
  by (auto simp: is_digit_def)

lemma hd_decimal: "hd (decimal n) \<noteq> CHR ''-'' \<and> hd (decimal n) \<noteq> CHR ''+''"
  using decimal_digits [of n] decimal_nonempty [of n]
  by (cases "decimal n") (auto dest: digit_not_sign)

lemma Atoi_Itoa: "int64 i \<Longrightarrow> Atoi (Itoa i) = Inr i"
  using hd_decimal [of "nat i"] by (simp add: Atoi_def Itoa_def Let_def decimal_digits)

lemma Itoa_nonempty [simp]: "Itoa i \<noteq> []"
  by (simp add: Itoa_def)

lemma Itoa_no_comma: "CHR '','' \<notin> set (Itoa i)"
proof -
  have "CHR '','' \<notin> set (decimal n)" for n
    using decimal_digits [of n] by (auto simp: list_all_iff dest!: bspec digit_not_sign)
  then show ?thesis by (simp add: Itoa_def)
qed

section \<open>Quoting\<close>

text \<open>
  \<open>strconv.Quote\<close>, the verb \<open>%q\<close> of \<open>fmt\<close>: quotes and backslashes are escaped, control characters
  written as escapes. Bytes above 127 are kept, which is what Go does with printable characters.
\<close>

definition hex_digit :: "nat \<Rightarrow> char" where
  "hex_digit d = (if d < 10 then digit_char d else char_of (87 + d))"

definition quote_char :: "char \<Rightarrow> string" where
  "quote_char c =
     (let n = (of_char c :: nat) in
      if c = CHR 0x22 \<or> c = CHR 0x5C then [CHR 0x5C, c]
      else if 7 \<le> n \<and> n \<le> 13 then [CHR 0x5C, ''abtnvfr'' ! (n - 7)]
      else if n < 32 \<or> n = 127 then [CHR 0x5C, CHR ''x'', hex_digit (n div 16), hex_digit (n mod 16)]
      else [c])"

definition Quote :: "string \<Rightarrow> string" where
  "Quote s = CHR 0x22 # concat (map quote_char s) @ [CHR 0x22]"

text \<open>The text of the error \<open>Atoi\<close> returns.\<close>

fun Atoi_error :: "num_error \<Rightarrow> string \<Rightarrow> string" where
  "Atoi_error ErrSyntax s = ''strconv.Atoi: parsing '' @ Quote s @ '': invalid syntax''"
| "Atoi_error ErrRange s = ''strconv.Atoi: parsing '' @ Quote s @ '': value out of range''"

section \<open>Splitting and joining\<close>

text \<open>\<open>Split s c\<close> is \<open>strings.Split(s, c)\<close> for a separator of one byte.\<close>

fun Split :: "string \<Rightarrow> char \<Rightarrow> string list" where
  "Split [] sep = [[]]"
| "Split (c # s) sep =
     (if c = sep then [] # Split s sep
      else (case Split s sep of [] \<Rightarrow> [[c]] | w # ws \<Rightarrow> (c # w) # ws))"

fun Join :: "string list \<Rightarrow> string \<Rightarrow> string" where
  "Join [] sep = []"
| "Join [w] sep = w"
| "Join (w # v # ws) sep = w @ sep @ Join (v # ws) sep"

definition CutPrefix :: "string \<Rightarrow> string \<Rightarrow> string \<times> bool" where
  "CutPrefix s pre = (if take (length pre) s = pre then (drop (length pre) s, True) else (s, False))"

lemma Split_nonempty [simp]: "Split s sep \<noteq> []"
  by (induction s sep rule: Split.induct) (auto split: list.splits)

lemma Split_word: "sep \<notin> set w \<Longrightarrow> Split w sep = [w]"
  by (induction w) auto

lemma Split_append: "sep \<notin> set w \<Longrightarrow> Split (w @ sep # s) sep = w # Split s sep"
  by (induction w) auto

lemma Split_Join:
  "ws \<noteq> [] \<Longrightarrow> \<forall>w \<in> set ws. sep \<notin> set w \<Longrightarrow> Split (Join ws [sep]) sep = ws"
  by (induction ws "[sep]" rule: Join.induct) (auto simp: Split_word Split_append)

end
