(* ===== verification/Errors.thy ===== *)
theory Errors
  imports Go_Strings
begin

text \<open>
  Errors: \<open>internal/domain/errors.go\<close>, \<open>internal/usecase/errors.go\<close> and the transport's own
  sentinels in \<open>internal/adapter/transport/errors.go\<close>.

  A Go \<open>error\<close> is one of three things in this program: a \<open>*domain.Error\<close>, an error of the
  standard library or of a driver (\<open>Opaque\<close>, with a text no client ever sees), or an error
  wrapped by \<open>fmt.Errorf\<close> with the verb \<open>%w\<close> (\<open>Wrap\<close>). \<open>errors.Is\<close> and \<open>errors.As\<close> walk
  the chain of wrapped errors. Go compares sentinels by pointer; every \<open>*domain.Error\<close> of
  the program is one of the package variables below and they have distinct codes, so equality
  of values is equality of pointers.

  \<open>MinPasswordLength\<close> and \<open>MaxPasswordLength\<close> of \<open>usecase/auth.go\<close> are declared here because
  two of the messages print them.
\<close>

record DomainError =
  Code :: string
  Message :: string

datatype goerr = Domain DomainError | Opaque string | Wrap string goerr

definition Error_Error :: "DomainError \<Rightarrow> string" where
  "Error_Error e = Message e"

section \<open>Sentinels of the domain\<close>

definition ErrCellOutOfBounds :: DomainError where
  "ErrCellOutOfBounds =
     \<lparr>Code = ''CELL_OUT_OF_BOUNDS'', Message = ''cell must be between 0 and 8''\<rparr>"

definition ErrCellOccupied :: DomainError where
  "ErrCellOccupied = \<lparr>Code = ''CELL_OCCUPIED'', Message = ''cell is already taken''\<rparr>"

definition ErrNotYourTurn :: DomainError where
  "ErrNotYourTurn = \<lparr>Code = ''NOT_YOUR_TURN'', Message = ''it is not your turn''\<rparr>"

definition ErrMatchFinished :: DomainError where
  "ErrMatchFinished = \<lparr>Code = ''MATCH_FINISHED'', Message = ''the match is already over''\<rparr>"

definition ErrNotAParticipant :: DomainError where
  "ErrNotAParticipant =
     \<lparr>Code = ''NOT_A_PARTICIPANT'', Message = ''you are not a player in this match''\<rparr>"

definition ErrEmptyName :: DomainError where
  "ErrEmptyName = \<lparr>Code = ''EMPTY_NAME'', Message = ''player name must not be empty''\<rparr>"

definition ErrNameTooLong :: DomainError where
  "ErrNameTooLong =
     \<lparr>Code = ''NAME_TOO_LONG'', Message = ''player name must be at most 32 characters''\<rparr>"

definition ErrSamePlayer :: DomainError where
  "ErrSamePlayer =
     \<lparr>Code = ''SAME_PLAYER'', Message = ''a player cannot be matched against themselves''\<rparr>"

section \<open>Sentinels of the use cases\<close>

definition MinPasswordLength :: nat where
  "MinPasswordLength = 8"

definition MaxPasswordLength :: nat where
  "MaxPasswordLength = 72"

definition ErrPlayerNotFound :: DomainError where
  "ErrPlayerNotFound = \<lparr>Code = ''PLAYER_NOT_FOUND'', Message = ''player not found''\<rparr>"

definition ErrNameTaken :: DomainError where
  "ErrNameTaken = \<lparr>Code = ''NAME_TAKEN'', Message = ''that name is already registered''\<rparr>"

definition ErrInvalidCredentials :: DomainError where
  "ErrInvalidCredentials =
     \<lparr>Code = ''INVALID_CREDENTIALS'', Message = ''invalid name or password''\<rparr>"

definition ErrPasswordTooShort :: DomainError where
  "ErrPasswordTooShort =
     \<lparr>Code = ''PASSWORD_TOO_SHORT'',
      Message = ''password must be at least '' @ Itoa (int MinPasswordLength) @ '' characters''\<rparr>"

definition ErrPasswordTooLong :: DomainError where
  "ErrPasswordTooLong =
     \<lparr>Code = ''PASSWORD_TOO_LONG'',
      Message = ''password must have a length mo more than ''
        @ Itoa (int MaxPasswordLength) @ '' characters long''\<rparr>"

definition ErrInvalidToken :: DomainError where
  "ErrInvalidToken = \<lparr>Code = ''INVALID_TOKEN'', Message = ''invalid or expired token''\<rparr>"

definition ErrAlreadyQueued :: DomainError where
  "ErrAlreadyQueued =
     \<lparr>Code = ''ALREADY_QUEUED'', Message = ''you are already waiting for an opponent''\<rparr>"

definition ErrAlreadyInMatch :: DomainError where
  "ErrAlreadyInMatch =
     \<lparr>Code = ''ALREADY_IN_MATCH'', Message = ''you are already playing a match''\<rparr>"

definition ErrNoActiveMatch :: DomainError where
  "ErrNoActiveMatch = \<lparr>Code = ''NO_ACTIVE_MATCH'', Message = ''you are not in a match''\<rparr>"

section \<open>Sentinels of the transport\<close>

definition errMalformedBody :: DomainError where
  "errMalformedBody =
     \<lparr>Code = ''MALFORMED_BODY'', Message = ''request body is not valid JSON''\<rparr>"

definition errMissingToken :: DomainError where
  "errMissingToken =
     \<lparr>Code = ''MISSING_TOKEN'', Message = ''authorization header must be a bearer token''\<rparr>"

definition errUnknownCmd :: DomainError where
  "errUnknownCmd = \<lparr>Code = ''UNKNOWN_COMMAND'', Message = ''unknown command''\<rparr>"

lemmas sentinel_defs [error_simps] =
  ErrCellOutOfBounds_def ErrCellOccupied_def ErrNotYourTurn_def ErrMatchFinished_def
  ErrNotAParticipant_def ErrEmptyName_def ErrNameTooLong_def ErrSamePlayer_def
  ErrPlayerNotFound_def ErrNameTaken_def ErrInvalidCredentials_def ErrPasswordTooShort_def
  ErrPasswordTooLong_def ErrInvalidToken_def ErrAlreadyQueued_def ErrAlreadyInMatch_def
  ErrNoActiveMatch_def errMalformedBody_def errMissingToken_def errUnknownCmd_def

definition sentinels :: "DomainError list" where
  "sentinels =
     [ErrCellOutOfBounds, ErrCellOccupied, ErrNotYourTurn, ErrMatchFinished, ErrNotAParticipant,
      ErrEmptyName, ErrNameTooLong, ErrSamePlayer, ErrPlayerNotFound, ErrNameTaken,
      ErrInvalidCredentials, ErrPasswordTooShort, ErrPasswordTooLong, ErrInvalidToken,
      ErrAlreadyQueued, ErrAlreadyInMatch, ErrNoActiveMatch, errMalformedBody, errMissingToken,
      errUnknownCmd]"

lemma sentinel_codes_distinct: "distinct (map Code sentinels)"
  by (simp add: sentinels_def error_simps)

section \<open>Inspecting errors\<close>

fun errors_Is :: "goerr \<Rightarrow> DomainError \<Rightarrow> bool" where
  "errors_Is (Domain d) target = (d = target)"
| "errors_Is (Opaque msg) target = False"
| "errors_Is (Wrap msg e) target = errors_Is e target"

fun errors_As :: "goerr \<Rightarrow> DomainError option" where
  "errors_As (Domain d) = Some d"
| "errors_As (Opaque msg) = None"
| "errors_As (Wrap msg e) = errors_As e"

lemma errors_Is_As: "errors_Is e d \<longleftrightarrow> errors_As e = Some d"
  by (induction e) auto

end
