(* ===== verification/Board.thy ===== *)
theory Board
  imports Errors
begin

text \<open>
  \<open>internal/domain/mark.go\<close> and \<open>internal/domain/board.go\<close>: the marks, the nine cells, and
  the detection of a winning line.

  A \<open>Board\<close> is Go's array of nine marks, here a list of length \<open>BoardSize\<close>. The three scans
  are the loops of the source; \<open>completes\<close> is the specification they are proved against: the
  eight lines of the grid, given by coordinates.
\<close>

section \<open>Marks\<close>

datatype Mark = Empty | X | O

text \<open>The three marks as an enumeration: maps from marks can be compared by evaluation.\<close>

instantiation Mark :: enum
begin

definition enum_Mark :: "Mark list" where
  "enum_Mark = [Empty, X, Mark.O]"

definition enum_all_Mark :: "(Mark \<Rightarrow> bool) \<Rightarrow> bool" where
  "enum_all_Mark P \<longleftrightarrow> P Empty \<and> P X \<and> P Mark.O"

definition enum_ex_Mark :: "(Mark \<Rightarrow> bool) \<Rightarrow> bool" where
  "enum_ex_Mark P \<longleftrightarrow> P Empty \<or> P X \<or> P Mark.O"

instance
proof
  show UNIV: "UNIV = set (enum_class.enum :: Mark list)"
    by (auto simp: enum_Mark_def intro: Mark.exhaust)
  show "distinct (enum_class.enum :: Mark list)"
    by (simp add: enum_Mark_def)
  show "enum_class.enum_all P \<longleftrightarrow> Ball UNIV P" for P :: "Mark \<Rightarrow> bool"
    by (auto simp: enum_all_Mark_def intro: Mark.induct)
  show "enum_class.enum_ex P \<longleftrightarrow> Bex UNIV P" for P :: "Mark \<Rightarrow> bool"
    by (auto simp: enum_ex_Mark_def intro: Mark.induct) (metis Mark.exhaust)
qed

end

fun Mark_String :: "Mark \<Rightarrow> string" where
  "Mark_String X = ''X''"
| "Mark_String Mark.O = ''O''"
| "Mark_String Empty = '' ''"

fun Mark_Opponent :: "Mark \<Rightarrow> Mark" where
  "Mark_Opponent X = Mark.O"
| "Mark_Opponent Mark.O = X"
| "Mark_Opponent Empty = Empty"

lemma Mark_Opponent_involutive [simp]: "Mark_Opponent (Mark_Opponent m) = m"
  by (cases m) auto

section \<open>The board and its operations\<close>

definition Side :: nat where
  "Side = 3"

definition BoardSize :: nat where
  "BoardSize = Side * Side"

type_synonym Board = "Mark list"

definition empty_board :: Board where
  "empty_board = replicate BoardSize Empty"

definition wf_board :: "Board \<Rightarrow> bool" where
  "wf_board b \<longleftrightarrow> length b = BoardSize"

lemma BoardSize_9 [simp]: "BoardSize = 9"
  by (simp add: BoardSize_def Side_def)

lemma Side_3 [simp]: "Side = 3"
  by (simp add: Side_def)

definition Board_Cell :: "Board \<Rightarrow> int \<Rightarrow> Mark" where
  "Board_Cell b i = (if i < 0 \<or> i \<ge> int BoardSize then Empty else b ! nat i)"

text \<open>\<open>for i := range Side\<close>: the recursion is over the indices still to visit.\<close>

fun columns_loop :: "Board \<Rightarrow> nat list \<Rightarrow> Mark" where
  "columns_loop b [] = Empty"
| "columns_loop b (i # is) =
     (let mark = b ! i; mark1 = b ! (i + Side); mark2 = b ! (Side * 2 + i)
      in if mark = Empty then columns_loop b is
         else if mark = mark1 \<and> mark = mark2 then mark
         else columns_loop b is)"

definition Board_winnerInColumns :: "Board \<Rightarrow> Mark" where
  "Board_winnerInColumns b = columns_loop b [0..<Side]"

definition checkMarks :: "Mark \<Rightarrow> Mark \<Rightarrow> Mark \<Rightarrow> Mark" where
  "checkMarks mark mark1 mark2 =
     (if mark = Empty then Empty
      else if mark = mark1 \<and> mark = mark2 then mark
      else Empty)"

definition Board_winnerInDiagonals :: "Board \<Rightarrow> Mark" where
  "Board_winnerInDiagonals b =
     (let m = checkMarks (b ! 0) (b ! (Side + 1)) (b ! (Side * 2 + 2))
      in if m \<noteq> Empty then m
         else checkMarks (b ! (Side - 1)) (b ! (Side + 1)) (b ! (Side * 2)))"

text \<open>\<open>for i := 0; i < len(b); i += Side\<close>.\<close>

function rows_loop :: "Board \<Rightarrow> nat \<Rightarrow> Mark" where
  "rows_loop b i =
     (if i < length b
      then (let mark = b ! i; mark1 = b ! (i + 1); mark2 = b ! (i + 2)
            in if mark = Empty then rows_loop b (i + Side)
               else if mark = mark1 \<and> mark = mark2 then mark
               else rows_loop b (i + Side))
      else Empty)"
  by pat_completeness auto
termination
  by (relation "measure (\<lambda>(b, i). length b - i)") (auto simp: Side_def)

declare rows_loop.simps [simp del]

definition Board_winnerInRows :: "Board \<Rightarrow> Mark" where
  "Board_winnerInRows b = rows_loop b 0"

definition Board_Winner :: "Board \<Rightarrow> Mark" where
  "Board_Winner b =
     (let m = Board_winnerInColumns b
      in if m \<noteq> Empty then m
         else (let m = Board_winnerInRows b
               in if m \<noteq> Empty then m else Board_winnerInDiagonals b))"

text \<open>\<open>Set\<close> has a pointer receiver: it returns its error and the board it leaves.\<close>

definition Board_Set :: "Board \<Rightarrow> int \<Rightarrow> Mark \<Rightarrow> DomainError option \<times> Board" where
  "Board_Set b cell m =
     (if cell < 0 \<or> cell \<ge> int BoardSize then (Some ErrCellOutOfBounds, b)
      else if b ! nat cell \<noteq> Empty then (Some ErrCellOccupied, b)
      else (None, b[nat cell := m]))"

fun Board_IsFull :: "Board \<Rightarrow> bool" where
  "Board_IsFull [] = True"
| "Board_IsFull (m # ms) = (if m = Empty then False else Board_IsFull ms)"

section \<open>Specification: the eight lines\<close>

definition cell_at :: "nat \<Rightarrow> nat \<Rightarrow> nat" where
  "cell_at r c = Side * r + c"

definition winning_lines :: "nat list list" where
  "winning_lines =
     map (\<lambda>r. map (\<lambda>c. cell_at r c) [0..<Side]) [0..<Side]
     @ map (\<lambda>c. map (\<lambda>r. cell_at r c) [0..<Side]) [0..<Side]
     @ [map (\<lambda>i. cell_at i i) [0..<Side], map (\<lambda>i. cell_at i (Side - 1 - i)) [0..<Side]]"

definition completes :: "Board \<Rightarrow> Mark \<Rightarrow> bool" where
  "completes b m \<longleftrightarrow> (\<exists>l \<in> set winning_lines. \<forall>i \<in> set l. b ! i = m)"

definition completed :: "Board \<Rightarrow> bool" where
  "completed b \<longleftrightarrow> completes b X \<or> completes b Mark.O"

lemma winning_lines_eq:
  "winning_lines =
     [[0, 1, 2], [3, 4, 5], [6, 7, 8], [0, 3, 6], [1, 4, 7], [2, 5, 8], [0, 4, 8], [2, 4, 6]]"
  by (simp add: winning_lines_def cell_at_def upt_rec numeral_eq_Suc)

lemma completes_explicit:
  "completes b m \<longleftrightarrow>
     b!0 = m \<and> b!1 = m \<and> b!2 = m \<or> b!3 = m \<and> b!4 = m \<and> b!5 = m \<or>
     b!6 = m \<and> b!7 = m \<and> b!8 = m \<or> b!0 = m \<and> b!3 = m \<and> b!6 = m \<or>
     b!1 = m \<and> b!4 = m \<and> b!7 = m \<or> b!2 = m \<and> b!5 = m \<and> b!8 = m \<or>
     b!0 = m \<and> b!4 = m \<and> b!8 = m \<or> b!2 = m \<and> b!4 = m \<and> b!6 = m"
  by (simp add: completes_def winning_lines_eq)

section \<open>The scans\<close>

text \<open>
  Each scan is the first mark among the lines it visits; \<open>line_mark\<close> is the mark a line
  is filled with. \<open>Winner\<close> visits the columns, then the rows, then the diagonals.
\<close>

definition line_mark :: "Board \<Rightarrow> nat list \<Rightarrow> Mark" where
  "line_mark b l = checkMarks (b ! (l ! 0)) (b ! (l ! 1)) (b ! (l ! 2))"

fun first_mark :: "Mark list \<Rightarrow> Mark" where
  "first_mark [] = Empty"
| "first_mark (m # ms) = (if m \<noteq> Empty then m else first_mark ms)"

lemma first_mark_in: "first_mark ms \<noteq> Empty \<Longrightarrow> first_mark ms \<in> set ms"
  by (induction ms) auto

lemma first_mark_Empty: "first_mark ms = Empty \<longleftrightarrow> set ms \<subseteq> {Empty}"
  by (induction ms) auto

lemma first_mark_append:
  "first_mark (ms @ ns) = (let m = first_mark ms in if m \<noteq> Empty then m else first_mark ns)"
  by (induction ms) (auto simp: Let_def)

lemma checkMarks_eq: "m \<noteq> Empty \<Longrightarrow> checkMarks p q r = m \<longleftrightarrow> p = m \<and> q = m \<and> r = m"
  by (auto simp: checkMarks_def)

lemma scan_step:
  "(if p = Empty then r else if p = q \<and> p = s then p else r) = first_mark [checkMarks p q s, r]"
  by (cases r) (auto simp: checkMarks_def)

lemma columns_loop_first_mark:
  "columns_loop b is = first_mark (map (\<lambda>i. line_mark b [i, i + Side, Side * 2 + i]) is)"
  by (induction "is") (simp_all only: columns_loop.simps Let_def scan_step, simp_all add: line_mark_def)

lemma columns_first_mark:
  "Board_winnerInColumns b = first_mark (map (line_mark b) [[0, 3, 6], [1, 4, 7], [2, 5, 8]])"
proof -
  have "[0..<Side] = [0, 1, 2]" by (simp add: upt_rec)
  then show ?thesis by (simp add: Board_winnerInColumns_def columns_loop_first_mark)
qed

lemma rows_loop_step:
  "i < length b \<Longrightarrow>
   rows_loop b i = first_mark [line_mark b [i, i + 1, i + 2], rows_loop b (i + 3)]"
  by (subst rows_loop.simps) (simp only: if_True Let_def scan_step, simp add: line_mark_def)

lemma rows_first_mark:
  assumes "wf_board b"
  shows "Board_winnerInRows b =
    first_mark (map (line_mark b) [[0, 1, 2], [3, 4, 5], [6, 7, 8]])"
  using assms
  by (simp add: Board_winnerInRows_def wf_board_def rows_loop_step rows_loop.simps [of b 9]
      numeral_2_eq_2)

lemma diagonals_first_mark:
  "Board_winnerInDiagonals b = first_mark (map (line_mark b) [[0, 4, 8], [2, 4, 6]])"
  by (simp add: Board_winnerInDiagonals_def line_mark_def Let_def)

definition scan_order :: "nat list list" where
  "scan_order =
     [[0, 3, 6], [1, 4, 7], [2, 5, 8], [0, 1, 2], [3, 4, 5], [6, 7, 8], [0, 4, 8], [2, 4, 6]]"

lemma Winner_first_mark: "wf_board b \<Longrightarrow> Board_Winner b = first_mark (map (line_mark b) scan_order)"
proof -
  assume wf: "wf_board b"
  have scan: "scan_order = [[0, 3, 6], [1, 4, 7], [2, 5, 8]] @ [[0, 1, 2], [3, 4, 5], [6, 7, 8]]
      @ [[0, 4, 8], [2, 4, 6]]"
    by (simp add: scan_order_def)
  show ?thesis
    unfolding Board_Winner_def columns_first_mark rows_first_mark [OF wf] diagonals_first_mark
    by (simp only: scan map_append first_mark_append Let_def)
qed

lemma completes_scan:
  "m \<noteq> Empty \<Longrightarrow> completes b m \<longleftrightarrow> m \<in> set (map (line_mark b) scan_order)"
proof -
  assume "m \<noteq> Empty"
  then have line: "m = line_mark b [i, j, k] \<longleftrightarrow> b ! i = m \<and> b ! j = m \<and> b ! k = m" for i j k
    by (subst eq_commute) (simp add: line_mark_def checkMarks_eq)
  show ?thesis
    by (simp add: scan_order_def line completes_def winning_lines_eq conj_ac disj_ac)
qed

lemma Winner_completes:
  assumes "wf_board b" and "Board_Winner b \<noteq> Empty"
  shows "completes b (Board_Winner b)"
  using assms(2) first_mark_in completes_scan [OF assms(2)]
  by (simp only: Winner_first_mark [OF assms(1)])

lemma Winner_Empty:
  assumes "wf_board b" and "Board_Winner b = Empty"
  shows "\<not> completed b"
proof -
  have "set (map (line_mark b) scan_order) \<subseteq> {Empty}"
    using assms by (simp only: Winner_first_mark first_mark_Empty)
  then have "\<not> completes b m" if "m \<noteq> Empty" for m
    using that completes_scan [of m b] by blast
  then show ?thesis by (simp add: completed_def)
qed

lemma Winner_Empty_iff: "wf_board b \<Longrightarrow> Board_Winner b = Empty \<longleftrightarrow> \<not> completed b"
  using Winner_completes [of b] Winner_Empty [of b]
  by (cases "Board_Winner b") (auto simp: completed_def)

lemma Winner_iff:
  assumes "wf_board b" and "m \<noteq> Empty" and "\<not> (completes b X \<and> completes b Mark.O)"
  shows "Board_Winner b = m \<longleftrightarrow> completes b m"
proof
  assume "Board_Winner b = m"
  with assms Winner_completes [of b] show "completes b m" by auto
next
  assume compl: "completes b m"
  with assms have "Board_Winner b \<noteq> Empty"
    by (cases m) (auto simp: Winner_Empty_iff completed_def)
  with assms compl Winner_completes [OF assms(1)] show "Board_Winner b = m"
    by (cases m; cases "Board_Winner b") auto
qed

lemma IsFull_iff: "Board_IsFull b \<longleftrightarrow> Empty \<notin> set b"
  by (induction b) auto

section \<open>Setting a cell\<close>

lemma wf_empty_board [simp]: "wf_board empty_board"
  by (simp add: wf_board_def empty_board_def)

lemma nth_empty_board [simp]: "i < 9 \<Longrightarrow> empty_board ! i = Empty"
  by (simp add: empty_board_def)

lemma not_completed_empty [simp]: "m \<noteq> Empty \<Longrightarrow> \<not> completes empty_board m"
  by (simp add: completes_explicit)

text \<open>Placing a mark on a free cell completes no line of the other mark, and breaks none.\<close>

lemma completes_update_other:
  assumes "wf_board b" and "c < 9" and "b ! c = Empty" and "m \<noteq> m'" and "m' \<noteq> Empty"
  shows "completes (b[c := m]) m' \<longleftrightarrow> completes b m'"
proof -
  have "b[c := m] ! i = m' \<longleftrightarrow> b ! i = m'" if "i < 9" for i
    using assms that by (auto simp: nth_list_update wf_board_def)
  then show ?thesis by (simp add: completes_explicit)
qed

end
