(* ===== verification/Match_Model.thy ===== *)
theory Match_Model
  imports Board
begin

text \<open>
  \<open>internal/domain/match.go\<close>: the match entity, the aggregate root of the domain.

  The record \<open>Match\<close> has the fields of the Go struct. A method with a pointer receiver takes
  the match and returns the match it leaves behind next to its result, also when it fails, so
  that "a rejected move changes nothing" is a theorem and not a convention. The map
  \<open>players\<close> is a partial function; reading an absent key gives Go's zero value, the empty
  string (\<open>Match_PlayerOf\<close>).

  Go iterates over a map in an unspecified order, and \<open>MarkOf\<close> does so: \<open>MarkOf_in\<close> takes
  the order as a list of keys, \<open>Match_MarkOf\<close> fixes one, and \<open>MarkOf_any_order\<close> (theory Match_Theorems) shows that
  every order gives the same answer for a match \<open>NewMatch\<close> made.
\<close>

type_synonym MatchID = string
type_synonym PlayerID = string

datatype Status = StatusInProgress | StatusXWon | StatusOWon | StatusDraw

definition Status_IsFinished :: "Status \<Rightarrow> bool" where
  "Status_IsFinished s \<longleftrightarrow> s \<noteq> StatusInProgress"

fun Status_String :: "Status \<Rightarrow> string" where
  "Status_String StatusXWon = ''x_won''"
| "Status_String StatusOWon = ''o_won''"
| "Status_String StatusDraw = ''draw''"
| "Status_String StatusInProgress = ''in_progress''"

datatype Outcome = OutcomeUndecided | OutcomeWin | OutcomeLoss | OutcomeDraw

record Move =
  mv_Mark :: Mark
  mv_Cell :: int

record Match =
  m_id :: MatchID
  m_players :: "Mark \<rightharpoonup> PlayerID"
  m_board :: Board
  m_turn :: Mark
  m_status :: Status
  m_moves :: "Move list"

definition NewMatch :: "MatchID \<Rightarrow> PlayerID \<Rightarrow> PlayerID \<Rightarrow> DomainError + Match" where
  "NewMatch mid px po =
     (if px = po then Inl ErrSamePlayer
      else Inr \<lparr>m_id = mid, m_players = [X \<mapsto> px, Mark.O \<mapsto> po], m_board = empty_board,
                m_turn = X, m_status = StatusInProgress, m_moves = []\<rparr>)"

definition Match_PlayerOf :: "Match \<Rightarrow> Mark \<Rightarrow> PlayerID" where
  "Match_PlayerOf m k = (case m_players m k of None \<Rightarrow> [] | Some p \<Rightarrow> p)"

text \<open>\<open>for mark, id := range m.players\<close>, in the order given by the list of keys.\<close>

fun players_loop :: "(Mark \<rightharpoonup> PlayerID) \<Rightarrow> Mark list \<Rightarrow> PlayerID \<Rightarrow> Mark \<times> bool" where
  "players_loop ps [] p = (Empty, False)"
| "players_loop ps (k # ks) p = (if ps k = Some p then (k, True) else players_loop ps ks p)"

definition MarkOf_in :: "Mark list \<Rightarrow> Match \<Rightarrow> PlayerID \<Rightarrow> Mark \<times> bool" where
  "MarkOf_in order m p = players_loop (m_players m) order p"

definition Match_MarkOf :: "Match \<Rightarrow> PlayerID \<Rightarrow> Mark \<times> bool" where
  "Match_MarkOf m p = MarkOf_in [X, Mark.O] m p"

definition Match_Opponent :: "Match \<Rightarrow> PlayerID \<Rightarrow> PlayerID" where
  "Match_Opponent m p =
     (case Match_MarkOf m p of (mark, ok) \<Rightarrow>
        if \<not> ok then [] else Match_PlayerOf m (Mark_Opponent mark))"

definition Match_settle :: "Match \<Rightarrow> Mark \<Rightarrow> Match" where
  "Match_settle m justPlayed =
     (let winner = Board_Winner (m_board m)
      in if winner = X then m\<lparr>m_status := StatusXWon\<rparr>
         else if winner = Mark.O then m\<lparr>m_status := StatusOWon\<rparr>
         else if Board_IsFull (m_board m) then m\<lparr>m_status := StatusDraw\<rparr>
         else m\<lparr>m_turn := Mark_Opponent justPlayed\<rparr>)"

definition Match_ApplyMove :: "Match \<Rightarrow> PlayerID \<Rightarrow> int \<Rightarrow> DomainError option \<times> Match" where
  "Match_ApplyMove m p cell =
     (if Status_IsFinished (m_status m) then (Some ErrMatchFinished, m)
      else (case Match_MarkOf m p of (mark, ok) \<Rightarrow>
        if \<not> ok then (Some ErrNotAParticipant, m)
        else if mark \<noteq> m_turn m then (Some ErrNotYourTurn, m)
        else (case Board_Set (m_board m) cell mark of
            (Some e, b) \<Rightarrow> (Some e, m\<lparr>m_board := b\<rparr>)
          | (None, b) \<Rightarrow>
              (let m1 = m\<lparr>m_board := b\<rparr>;
                   m2 = m1\<lparr>m_moves := m_moves m1 @ [\<lparr>mv_Mark = mark, mv_Cell = cell\<rparr>]\<rparr>
               in (None, Match_settle m2 mark)))))"

fun restore_loop :: "Match \<Rightarrow> Move list \<Rightarrow> DomainError + Match" where
  "restore_loop m [] = Inr m"
| "restore_loop m (mv # mvs) =
     (case Match_ApplyMove m (Match_PlayerOf m (mv_Mark mv)) (mv_Cell mv) of
        (Some e, m') \<Rightarrow> Inl e
      | (None, m') \<Rightarrow> restore_loop m' mvs)"

definition RestoreMatch ::
  "MatchID \<Rightarrow> PlayerID \<Rightarrow> PlayerID \<Rightarrow> Move list \<Rightarrow> DomainError + Match" where
  "RestoreMatch mid px po mvs =
     (case NewMatch mid px po of Inl e \<Rightarrow> Inl e | Inr m \<Rightarrow> restore_loop m mvs)"

definition Match_OutcomeFor :: "Match \<Rightarrow> PlayerID \<Rightarrow> Outcome" where
  "Match_OutcomeFor m p =
     (if \<not> Status_IsFinished (m_status m) then OutcomeUndecided
      else if m_status m = StatusDraw then OutcomeDraw
      else (case Match_MarkOf m p of (mark, ok) \<Rightarrow>
        if \<not> ok then OutcomeUndecided
        else if m_status m = StatusXWon \<and> mark = X \<or> m_status m = StatusOWon \<and> mark = Mark.O
             then OutcomeWin
        else OutcomeLoss))"

definition Match_Winner :: "Match \<Rightarrow> PlayerID \<times> bool" where
  "Match_Winner m =
     (case m_status m of
        StatusXWon \<Rightarrow> (Match_PlayerOf m X, True)
      | StatusOWon \<Rightarrow> (Match_PlayerOf m Mark.O, True)
      | _ \<Rightarrow> ([], False))"

definition Match_ID :: "Match \<Rightarrow> MatchID" where
  "Match_ID m = m_id m"

definition Match_Board :: "Match \<Rightarrow> Board" where
  "Match_Board m = m_board m"

definition Match_Turn :: "Match \<Rightarrow> Mark" where
  "Match_Turn m = m_turn m"

definition Match_Status :: "Match \<Rightarrow> Status" where
  "Match_Status m = m_status m"

text \<open>\<open>Moves\<close> copies the slice; values do not alias in the model, so the copy is the value.\<close>

definition Match_Moves :: "Match \<Rightarrow> Move list" where
  "Match_Moves m = m_moves m"

lemmas accessor_defs [match_simps] =
  Match_ID_def Match_Board_def Match_Turn_def Match_Status_def Match_Moves_def

section \<open>Participants\<close>

text \<open>Matches whose two players are distinct, as \<open>NewMatch\<close> makes them.\<close>

definition two_players :: "Match \<Rightarrow> PlayerID \<Rightarrow> PlayerID \<Rightarrow> bool" where
  "two_players m px po \<longleftrightarrow> m_players m = [X \<mapsto> px, Mark.O \<mapsto> po] \<and> px \<noteq> po"

lemma MarkOf_two_players:
  "two_players m px po \<Longrightarrow>
   Match_MarkOf m p = (if p = px then (X, True) else if p = po then (Mark.O, True) else (Empty, False))"
  by (auto simp: two_players_def Match_MarkOf_def MarkOf_in_def)

lemma PlayerOf_two_players [match_simps]:
  assumes "two_players m px po"
  shows "Match_PlayerOf m X = px" and "Match_PlayerOf m Mark.O = po" and "Match_PlayerOf m Empty = []"
  using assms by (auto simp: two_players_def Match_PlayerOf_def)

lemma Opponent_two_players:
  "two_players m px po \<Longrightarrow>
   Match_Opponent m p = (if p = px then po else if p = po then px else [])"
  by (simp add: Match_Opponent_def MarkOf_two_players match_simps)

lemma players_loop_found:
  "players_loop ps ks p = (k, True) \<Longrightarrow> k \<in> set ks \<and> ps k = Some p"
  by (induction ks) (auto split: if_splits)

lemma players_loop_missing:
  "players_loop ps ks p = (k, False) \<longleftrightarrow> k = Empty \<and> (\<forall>j \<in> set ks. ps j \<noteq> Some p)"
  by (induction ks) (auto split: if_splits)

lemma players_loop_order:
  assumes "set ks = set ls" and "inj_on ps (set ks)"
  shows "players_loop ps ks p = players_loop ps ls p"
proof (cases "players_loop ps ks p")
  case (Pair k ok)
  show ?thesis
  proof (cases ok)
    case True
    with Pair have k: "k \<in> set ks" "ps k = Some p"
      using players_loop_found by fastforce+
    obtain l lk where l: "players_loop ps ls p = (l, lk)" by fastforce
    with k assms(1) have lk
      using players_loop_missing [of ps ls p l] by (cases lk) auto
    with l have "l \<in> set ls" "ps l = Some p"
      using players_loop_found by fastforce+
    with k assms have "k = l" by (metis inj_onD)
    with l Pair True \<open>lk\<close> show ?thesis by simp
  next
    case False
    with Pair have "k = Empty" "\<forall>j \<in> set ks. ps j \<noteq> Some p"
      using players_loop_missing [of ps ks p k] by auto
    with assms(1) have "players_loop ps ls p = (Empty, False)"
      by (simp add: players_loop_missing)
    with Pair False \<open>k = Empty\<close> show ?thesis by simp
  qed
qed

section \<open>Frame lemmas: what a move leaves alone\<close>

lemma settle_frame [simp]:
  "m_id (Match_settle m k) = m_id m" "m_players (Match_settle m k) = m_players m"
  "m_board (Match_settle m k) = m_board m" "m_moves (Match_settle m k) = m_moves m"
  by (simp_all add: Match_settle_def Let_def)

lemma Board_Set_error: "Board_Set b c k = (Some e, b') \<Longrightarrow> b' = b"
  by (auto simp: Board_Set_def split: if_splits)

lemma ApplyMove_error: "Match_ApplyMove m p c = (Some e, m') \<Longrightarrow> m' = m"
  by (auto simp: Match_ApplyMove_def Let_def dest!: Board_Set_error
      split: if_splits prod.splits option.splits)

lemma ApplyMove_frame:
  "Match_ApplyMove m p c = (e, m') \<Longrightarrow> m_id m' = m_id m \<and> m_players m' = m_players m"
  by (auto simp: Match_ApplyMove_def Let_def split: if_splits prod.splits option.splits)

end
