(* ===== verification/Game_Spec.thy ===== *)
theory Game_Spec
  imports Match_Model
begin

text \<open>
  The abstract game a match implements, and the proof that it does.

  Abstractly a match is the list \<open>hs\<close> of the cells played so far: everything else (whose mark
  is where, who moves, whether the game is over and who won) is a function of that list.
  \<open>legal\<close> says which lists the rules of the game allow, \<open>match_of\<close> is the match a list stands
  for, and \<open>ApplyMove_match_of\<close> shows that \<open>ApplyMove\<close> on the concrete entity is exactly
  "append the cell if the rules allow it, otherwise return the error and change nothing".
\<close>

section \<open>The abstract game\<close>

definition player_at :: "nat \<Rightarrow> Mark" where
  "player_at k = (if even k then X else Mark.O)"

fun board_rev :: "nat list \<Rightarrow> Board" where
  "board_rev [] = empty_board"
| "board_rev (c # cs) = (board_rev cs)[c := player_at (length cs)]"

definition board_of :: "nat list \<Rightarrow> Board" where
  "board_of hs = board_rev (rev hs)"

definition decided :: "nat list \<Rightarrow> bool" where
  "decided hs \<longleftrightarrow> completed (board_of hs) \<or> length hs = BoardSize"

fun legal_rev :: "nat list \<Rightarrow> bool" where
  "legal_rev [] = True"
| "legal_rev (c # cs) \<longleftrightarrow>
     legal_rev cs \<and> \<not> decided (rev cs) \<and> c < BoardSize \<and> c \<notin> set cs"

definition legal :: "nat list \<Rightarrow> bool" where
  "legal hs \<longleftrightarrow> legal_rev (rev hs)"

definition turn_of :: "nat list \<Rightarrow> Mark" where
  "turn_of hs = player_at (if decided hs then length hs - 1 else length hs)"

definition status_of :: "nat list \<Rightarrow> Status" where
  "status_of hs =
     (if completes (board_of hs) X then StatusXWon
      else if completes (board_of hs) Mark.O then StatusOWon
      else if length hs = BoardSize then StatusDraw
      else StatusInProgress)"

fun moves_rev :: "nat list \<Rightarrow> Move list" where
  "moves_rev [] = []"
| "moves_rev (c # cs) = moves_rev cs @ [\<lparr>mv_Mark = player_at (length cs), mv_Cell = int c\<rparr>]"

definition moves_of :: "nat list \<Rightarrow> Move list" where
  "moves_of hs = moves_rev (rev hs)"

definition match_of :: "MatchID \<Rightarrow> PlayerID \<Rightarrow> PlayerID \<Rightarrow> nat list \<Rightarrow> Match" where
  "match_of mid px po hs =
     \<lparr>m_id = mid, m_players = [X \<mapsto> px, Mark.O \<mapsto> po], m_board = board_of hs,
      m_turn = turn_of hs, m_status = status_of hs, m_moves = moves_of hs\<rparr>"

section \<open>Facts of the abstract game\<close>

lemma player_at_neq [simp]: "player_at k \<noteq> Empty"
  by (simp add: player_at_def)

lemma player_at_cases: "player_at k = X \<or> player_at k = Mark.O"
  by (simp add: player_at_def)

lemma player_at_Suc: "player_at (Suc k) = Mark_Opponent (player_at k)"
  by (simp add: player_at_def)

lemma legal_Nil [simp]: "legal []"
  by (simp add: legal_def)

lemma legal_snoc [simp]:
  "legal (hs @ [c]) \<longleftrightarrow> legal hs \<and> \<not> decided hs \<and> c < 9 \<and> c \<notin> set hs"
  by (simp add: legal_def)

lemma board_of_Nil [simp]: "board_of [] = empty_board"
  by (simp add: board_of_def)

lemma board_of_snoc [simp]: "board_of (hs @ [c]) = (board_of hs)[c := player_at (length hs)]"
  by (simp add: board_of_def)

lemma moves_of_Nil [simp]: "moves_of [] = []"
  by (simp add: moves_of_def)

lemma moves_of_snoc [simp]:
  "moves_of (hs @ [c]) = moves_of hs @ [\<lparr>mv_Mark = player_at (length hs), mv_Cell = int c\<rparr>]"
  by (simp add: moves_of_def)

lemma legal_induct [consumes 1, case_names Nil Snoc]:
  assumes "legal hs" and "P []"
    and "\<And>hs c. legal hs \<Longrightarrow> \<not> decided hs \<Longrightarrow> c < 9 \<Longrightarrow> c \<notin> set hs \<Longrightarrow> P hs \<Longrightarrow> P (hs @ [c])"
  shows "P hs"
  using assms(1) by (induction hs rule: rev_induct) (auto intro: assms(2,3))

lemma wf_board_of [simp]: "wf_board (board_of hs)"
  by (induction hs rule: rev_induct) (simp_all add: wf_board_def empty_board_def)

lemma length_board_of [simp]: "length (board_of hs) = 9"
  using wf_board_of [of hs] by (simp add: wf_board_def)

lemma length_moves_of [simp]: "length (moves_of hs) = length hs"
  by (induction hs rule: rev_induct) simp_all

lemma moves_of_nth:
  "k < length hs \<Longrightarrow> moves_of hs ! k = \<lparr>mv_Mark = player_at k, mv_Cell = int (hs ! k)\<rparr>"
  by (induction hs rule: rev_induct) (auto simp: nth_append less_Suc_eq)

lemma cells_moves_of: "mv_Cell ` set (moves_of hs) = int ` set hs"
  by (induction hs rule: rev_induct) auto

lemma legal_distinct: "legal hs \<Longrightarrow> distinct hs"
  by (induction rule: legal_induct) simp_all

lemma legal_range: "legal hs \<Longrightarrow> set hs \<subseteq> {..<9}"
  by (induction rule: legal_induct) simp_all

lemma legal_length: "legal hs \<Longrightarrow> length hs \<le> 9"
  using distinct_set_card_upto legal_distinct legal_range by blast

lemma board_of_free: "i < 9 \<Longrightarrow> board_of hs ! i = Empty \<longleftrightarrow> i \<notin> set hs"
proof (induction hs rule: rev_induct)
  case Nil
  then show ?case by simp
next
  case (snoc c hs)
  then show ?case by (cases "c = i") (auto simp: nth_list_update)
qed

lemma board_of_mark:
  "legal hs \<Longrightarrow> k < length hs \<Longrightarrow> board_of hs ! (hs ! k) = player_at k"
  by (induction arbitrary: k rule: legal_induct)
    (auto simp: nth_append nth_list_update less_Suc_eq dest: nth_mem)

lemma board_of_full: "legal hs \<Longrightarrow> Board_IsFull (board_of hs) \<longleftrightarrow> length hs = 9"
proof -
  assume legal: "legal hs"
  have "Empty \<in> set (board_of hs) \<longleftrightarrow> (\<exists>i<9. i \<notin> set hs)"
    using board_of_free by (force simp: in_set_conv_nth)
  moreover have "(\<forall>i<9. i \<in> set hs) \<longleftrightarrow> length hs = 9"
  proof
    assume "\<forall>i<9. i \<in> set hs"
    then have "set hs = {..<9}" using legal_range [OF legal] by auto
    then show "length hs = 9"
      using distinct_card [OF legal_distinct [OF legal]] by simp
  next
    assume "length hs = 9"
    then have "set hs = {..<9}"
      using distinct_full_upto [OF legal_distinct [OF legal] legal_range [OF legal]] by simp
    then show "\<forall>i<9. i \<in> set hs" by simp
  qed
  ultimately show ?thesis by (auto simp: IsFull_iff)
qed

text \<open>Only the player who has just moved can have completed a line.\<close>

lemma completes_last_mover:
  "legal hs \<Longrightarrow> m \<noteq> Empty \<Longrightarrow> completes (board_of hs) m \<Longrightarrow>
   hs \<noteq> [] \<and> m = player_at (length hs - 1)"
proof (induction arbitrary: m rule: legal_induct)
  case Nil
  then show ?case by simp
next
  case (Snoc hs c)
  have "m = player_at (length hs)"
  proof (rule ccontr)
    assume "m \<noteq> player_at (length hs)"
    with Snoc.hyps Snoc.prems have "completes (board_of hs) m"
      by (simp add: completes_update_other board_of_free)
    with Snoc.hyps(2) \<open>m \<noteq> Empty\<close> show False
      by (cases m) (auto simp: decided_def completed_def)
  qed
  then show ?case by simp
qed

lemma not_both_complete:
  "legal hs \<Longrightarrow> \<not> (completes (board_of hs) X \<and> completes (board_of hs) Mark.O)"
  using completes_last_mover [of hs X] completes_last_mover [of hs Mark.O] by (auto simp del: One_nat_def)

lemma status_of_decided: "Status_IsFinished (status_of hs) \<longleftrightarrow> decided hs"
  by (simp add: Status_IsFinished_def status_of_def decided_def completed_def)

lemma decided_9: "length hs = 9 \<Longrightarrow> decided hs"
  by (simp add: decided_def)

lemma free_cell:
  assumes "legal hs" and "\<not> decided hs"
  obtains i where "i < 9" and "i \<notin> set hs"
proof -
  have "Empty \<in> set (board_of hs)"
    using board_of_full [OF assms(1)] assms(2) decided_9 by (auto simp: IsFull_iff)
  then obtain i where "i < 9" "board_of hs ! i = Empty" by (auto simp: in_set_conv_nth)
  with that board_of_free show thesis by blast
qed

section \<open>The entity refines the abstract game\<close>

lemma match_of_sel [simp]:
  "m_id (match_of mid px po hs) = mid" "m_players (match_of mid px po hs) = [X \<mapsto> px, Mark.O \<mapsto> po]"
  "m_board (match_of mid px po hs) = board_of hs" "m_turn (match_of mid px po hs) = turn_of hs"
  "m_status (match_of mid px po hs) = status_of hs" "m_moves (match_of mid px po hs) = moves_of hs"
  by (simp_all add: match_of_def)

lemma two_players_match_of: "px \<noteq> po \<Longrightarrow> two_players (match_of mid px po hs) px po"
  by (simp add: two_players_def)

lemma decided_Nil [simp]: "\<not> decided []"
  by (simp add: decided_def completed_def)

lemma NewMatch_match_of: "px \<noteq> po \<Longrightarrow> NewMatch mid px po = Inr (match_of mid px po [])"
  by (simp add: NewMatch_def match_of_def turn_of_def status_of_def player_at_def)

lemma Board_Winner_board_of:
  "legal hs \<Longrightarrow> m \<noteq> Empty \<Longrightarrow> Board_Winner (board_of hs) = m \<longleftrightarrow> completes (board_of hs) m"
  by (simp add: Winner_iff not_both_complete)

lemma settle_match_of:
  assumes "legal hs" and "length hs = Suc n"
    and "m_id m = mid" and "m_players m = [X \<mapsto> px, Mark.O \<mapsto> po]"
    and "m_board m = board_of hs" and "m_moves m = moves_of hs"
    and "m_turn m = player_at n" and "m_status m = StatusInProgress"
  shows "Match_settle m (player_at n) = match_of mid px po hs"
proof -
  have winner: "Board_Winner (board_of hs) = k \<longleftrightarrow> completes (board_of hs) k" if "k \<noteq> Empty" for k
    using Board_Winner_board_of [OF assms(1) that] .
  have full: "Board_IsFull (board_of hs) \<longleftrightarrow> length hs = 9"
    by (rule board_of_full [OF assms(1)])
  show ?thesis
    using assms
    by (simp add: Match_settle_def Let_def winner full match_of_def turn_of_def status_of_def
        decided_def completed_def player_at_Suc)
qed

lemma Board_Set_board_of:
  "Board_Set (board_of hs) c k =
     (if c < 0 \<or> 9 \<le> c then (Some ErrCellOutOfBounds, board_of hs)
      else if nat c \<in> set hs then (Some ErrCellOccupied, board_of hs)
      else (None, (board_of hs)[nat c := k]))"
  by (auto simp: Board_Set_def board_of_free)

text \<open>The player whose turn it is, as an identity.\<close>

definition mover_of :: "PlayerID \<Rightarrow> PlayerID \<Rightarrow> nat list \<Rightarrow> PlayerID" where
  "mover_of px po hs = (if turn_of hs = X then px else po)"

definition move_error ::
  "PlayerID \<Rightarrow> PlayerID \<Rightarrow> nat list \<Rightarrow> PlayerID \<Rightarrow> int \<Rightarrow> DomainError option" where
  "move_error px po hs p c =
     (if decided hs then Some ErrMatchFinished
      else if p \<noteq> px \<and> p \<noteq> po then Some ErrNotAParticipant
      else if p \<noteq> mover_of px po hs then Some ErrNotYourTurn
      else if c < 0 \<or> 9 \<le> c then Some ErrCellOutOfBounds
      else if nat c \<in> set hs then Some ErrCellOccupied
      else None)"

lemma move_error_None:
  "move_error px po hs p c = None \<longleftrightarrow>
     \<not> decided hs \<and> p = mover_of px po hs \<and> 0 \<le> c \<and> c < 9 \<and> nat c \<notin> set hs"
  by (auto simp: move_error_def mover_of_def)

lemma turn_of_undecided: "\<not> decided hs \<Longrightarrow> turn_of hs = player_at (length hs)"
  by (simp add: turn_of_def)

lemma ApplyMove_match_of_ok:
  assumes "px \<noteq> po" and "legal hs" and "move_error px po hs p c = None"
  shows "Match_ApplyMove (match_of mid px po hs) p c = (None, match_of mid px po (hs @ [nat c]))"
proof -
  have ok: "\<not> decided hs" "p = mover_of px po hs" "0 \<le> c" "c < 9" "nat c \<notin> set hs"
    using assms(3) by (simp_all add: move_error_None)
  let ?k = "player_at (length hs)"
  have status: "status_of hs = StatusInProgress"
    using ok(1) status_of_decided [of hs] by (simp add: Status_IsFinished_def)
  have mark: "Match_MarkOf (match_of mid px po hs) p = (?k, True)"
    using ok(1,2) assms(1) player_at_cases [of "length hs"]
    by (auto simp: MarkOf_two_players [OF two_players_match_of [OF assms(1)]] mover_of_def
        turn_of_undecided)
  have legal: "legal (hs @ [nat c])" using assms(2) ok by simp
  show ?thesis
    using ok(1,3-5) status settle_match_of [OF legal, of "length hs"]
    by (simp add: Match_ApplyMove_def mark Board_Set_board_of turn_of_undecided
        Status_IsFinished_def Let_def)
qed

lemma ApplyMove_match_of_error:
  assumes "px \<noteq> po" and "move_error px po hs p c = Some e"
  shows "Match_ApplyMove (match_of mid px po hs) p c = (Some e, match_of mid px po hs)"
proof -
  have same: "(match_of mid px po hs)\<lparr>m_board := board_of hs\<rparr> = match_of mid px po hs"
    by (simp add: match_of_def)
  show ?thesis
    using assms player_at_cases [of "length hs"]
    by (auto simp: Match_ApplyMove_def move_error_def mover_of_def Board_Set_board_of same
        MarkOf_two_players [OF two_players_match_of] status_of_decided turn_of_undecided
        split: if_splits)
qed

lemma ApplyMove_match_of:
  assumes "px \<noteq> po" and "legal hs"
  shows "Match_ApplyMove (match_of mid px po hs) p c =
     (case move_error px po hs p c of
        Some e \<Rightarrow> (Some e, match_of mid px po hs)
      | None \<Rightarrow> (None, match_of mid px po (hs @ [nat c])))"
  using assms ApplyMove_match_of_ok ApplyMove_match_of_error by (simp split: option.split)

end
