(* ===== verification/Encoding.thy ===== *)
theory Encoding
  imports Match_Props
begin

text \<open>
  \<open>internal/adapter/sqlite/encoding.go\<close>: the text a move list and a status are stored as.
\<close>

definition encodeMove :: "Move \<Rightarrow> string" where
  "encodeMove mv = Mark_String (mv_Mark mv) @ Itoa (mv_Cell mv)"

definition encodeMoves :: "Move list \<Rightarrow> string" where
  "encodeMoves moves = Join (map encodeMove moves) '',''"

definition parseMark :: "string \<Rightarrow> goerr + Mark" where
  "parseMark s =
     (if s = ''X'' then Inr X
      else if s = ''O'' then Inr Mark.O
      else Inl (Opaque (''unknown mark '' @ Quote s)))"

fun decode_loop :: "string list \<Rightarrow> goerr + Move list" where
  "decode_loop [] = Inr []"
| "decode_loop (part # parts) =
     (if length part < 2 then Inl (Opaque (''decode move '' @ Quote part @ '': too short''))
      else (case parseMark (take 1 part) of
          Inl e \<Rightarrow> Inl e
        | Inr mark \<Rightarrow>
            (case Atoi (drop 1 part) of
               Inl e \<Rightarrow>
                 Inl (Wrap (''decode move '' @ Quote part) (Opaque (Atoi_error e (drop 1 part))))
             | Inr cell \<Rightarrow>
                 (case decode_loop parts of
                    Inl e \<Rightarrow> Inl e
                  | Inr moves \<Rightarrow> Inr (\<lparr>mv_Mark = mark, mv_Cell = cell\<rparr> # moves)))))"

definition decodeMoves :: "string \<Rightarrow> goerr + Move list" where
  "decodeMoves s = (if s = [] then Inr [] else decode_loop (Split s CHR '',''))"

definition parseStatus :: "string \<Rightarrow> goerr + Status" where
  "parseStatus s =
     (if s = ''in_progress'' then Inr StatusInProgress
      else if s = ''x_won'' then Inr StatusXWon
      else if s = ''o_won'' then Inr StatusOWon
      else if s = ''draw'' then Inr StatusDraw
      else Inl (Opaque (''unknown status '' @ Quote s)))"

section \<open>Round trips\<close>

definition storable :: "Move \<Rightarrow> bool" where
  "storable mv \<longleftrightarrow> mv_Mark mv \<noteq> Empty \<and> int64 (mv_Cell mv)"

lemma parseMark_String: "k \<noteq> Empty \<Longrightarrow> parseMark (Mark_String k) = Inr k"
  by (cases k) (simp_all add: parseMark_def)

lemma parseMark_Inr: "parseMark s = Inr k \<Longrightarrow> s = Mark_String k \<and> k \<noteq> Empty"
  by (auto simp: parseMark_def split: if_splits)

lemma length_Mark_String [simp]: "length (Mark_String k) = 1"
  by (cases k) simp_all

lemma encodeMove_parts:
  "take 1 (encodeMove mv) = Mark_String (mv_Mark mv)" "drop 1 (encodeMove mv) = Itoa (mv_Cell mv)"
  "2 \<le> length (encodeMove mv)" "CHR '','' \<notin> set (encodeMove mv)"
proof -
  have "1 \<le> length (Itoa (mv_Cell mv))" by (cases "Itoa (mv_Cell mv)") simp_all
  then show "take 1 (encodeMove mv) = Mark_String (mv_Mark mv)"
    "drop 1 (encodeMove mv) = Itoa (mv_Cell mv)" "2 \<le> length (encodeMove mv)"
    by (simp_all add: encodeMove_def)
  show "CHR '','' \<notin> set (encodeMove mv)"
    using Itoa_no_comma by (cases "mv_Mark mv") (simp_all add: encodeMove_def)
qed

lemma decode_loop_encode:
  "\<forall>mv \<in> set mvs. storable mv \<Longrightarrow> decode_loop (map encodeMove mvs) = Inr mvs"
proof (induction mvs)
  case Nil
  then show ?case by simp
next
  case (Cons mv mvs)
  then show ?case
    using encodeMove_parts [of mv]
    by (simp add: storable_def parseMark_String Atoi_Itoa del: One_nat_def)
qed

lemma decode_encode: "\<forall>mv \<in> set mvs. storable mv \<Longrightarrow> decodeMoves (encodeMoves mvs) = Inr mvs"
proof (cases mvs)
  case Nil
  then show ?thesis by (simp add: decodeMoves_def encodeMoves_def)
next
  case (Cons mv rest)
  assume ok: "\<forall>mv \<in> set mvs. storable mv"
  have split: "Split (encodeMoves mvs) CHR '','' = map encodeMove mvs"
    unfolding encodeMoves_def using Cons by (intro Split_Join) (auto simp: encodeMove_parts)
  have "encodeMoves mvs \<noteq> []"
    using split Cons encodeMove_parts(3) [of mv] by (cases "encodeMoves mvs") auto
  then show ?thesis by (simp add: decodeMoves_def split decode_loop_encode [OF ok])
qed

lemma Atoi_int64: "Atoi s = Inr i \<Longrightarrow> int64 i"
  by (auto simp: Atoi_def Let_def split: if_splits)

lemma decode_loop_storable: "decode_loop parts = Inr mvs \<Longrightarrow> \<forall>mv \<in> set mvs. storable mv"
  by (induction parts arbitrary: mvs)
    (auto simp: storable_def split: if_splits sum.splits dest!: parseMark_Inr Atoi_int64)

lemma decode_storable: "decodeMoves s = Inr mvs \<Longrightarrow> \<forall>mv \<in> set mvs. storable mv"
  using decode_loop_storable by (auto simp: decodeMoves_def split: if_splits)

lemma storable_moves_of: "legal hs \<Longrightarrow> \<forall>mv \<in> set (moves_of hs). storable mv"
  by (induction rule: legal_induct) (auto simp: storable_def int64_def)

lemma parseStatus_String [simp]: "parseStatus (Status_String s) = Inr s"
  by (cases s) (simp_all add: parseStatus_def)

lemma parseStatus_Inr: "parseStatus t = Inr s \<longleftrightarrow> t = Status_String s"
  by (cases s) (auto simp: parseStatus_def split: if_splits)

end
