(* ===== verification/Player_Model.thy ===== *)
theory Player_Model
  imports Match_Model
begin

text \<open>
  \<open>internal/domain/player.go\<close>: players, their names and their statistics.

  Lengths of names are lengths of Go strings, that is, bytes. The counters are Go \<open>int\<close>s and
  wrap around (\<open>wrap64\<close>).
\<close>

definition MaxNameLength :: nat where
  "MaxNameLength = 32"

record Stats =
  Wins :: int
  Losses :: int
  Draws :: int

definition Stats_Played :: "Stats \<Rightarrow> int" where
  "Stats_Played s = wrap64 (wrap64 (Wins s + Losses s) + Draws s)"

record Player =
  p_ID :: PlayerID
  p_Name :: string
  p_PasswordHash :: string
  p_Stats :: Stats

definition zero_stats :: Stats where
  "zero_stats = \<lparr>Wins = 0, Losses = 0, Draws = 0\<rparr>"

definition NormalizeName :: "string \<Rightarrow> DomainError + string" where
  "NormalizeName name =
     (let name = TrimSpace name
      in if name = [] then Inl ErrEmptyName
         else if length name > MaxNameLength then Inl ErrNameTooLong
         else Inr name)"

definition NewPlayer :: "PlayerID \<Rightarrow> string \<Rightarrow> string \<Rightarrow> DomainError + Player" where
  "NewPlayer pid name passwordHash =
     (case NormalizeName name of
        Inl e \<Rightarrow> Inl e
      | Inr name \<Rightarrow>
          Inr \<lparr>p_ID = pid, p_Name = name, p_PasswordHash = passwordHash, p_Stats = zero_stats\<rparr>)"

fun Stats_Record :: "Stats \<Rightarrow> Outcome \<Rightarrow> Stats" where
  "Stats_Record s OutcomeWin = s\<lparr>Wins := wrap64 (Wins s + 1)\<rparr>"
| "Stats_Record s OutcomeLoss = s\<lparr>Losses := wrap64 (Losses s + 1)\<rparr>"
| "Stats_Record s OutcomeDraw = s\<lparr>Draws := wrap64 (Draws s + 1)\<rparr>"
| "Stats_Record s OutcomeUndecided = s"

definition Player_Record :: "Player \<Rightarrow> Outcome \<Rightarrow> Player" where
  "Player_Record p out = p\<lparr>p_Stats := Stats_Record (p_Stats p) out\<rparr>"

section \<open>Facts\<close>

lemma NormalizeName_Inr:
  "NormalizeName s = Inr n \<longleftrightarrow> n = TrimSpace s \<and> n \<noteq> [] \<and> length n \<le> MaxNameLength"
  by (auto simp: NormalizeName_def Let_def)

lemma NormalizeName_idem: "NormalizeName s = Inr n \<Longrightarrow> NormalizeName n = Inr n"
  by (auto simp: NormalizeName_Inr)

lemma NewPlayer_normalized:
  "NormalizeName s = Inr n \<Longrightarrow>
   NewPlayer pid n h = Inr \<lparr>p_ID = pid, p_Name = n, p_PasswordHash = h, p_Stats = zero_stats\<rparr>"
  by (simp add: NewPlayer_def NormalizeName_idem)

lemma Player_Record_frame [simp]:
  "p_ID (Player_Record p out) = p_ID p" "p_Name (Player_Record p out) = p_Name p"
  "p_PasswordHash (Player_Record p out) = p_PasswordHash p"
  "p_Stats (Player_Record p out) = Stats_Record (p_Stats p) out"
  by (simp_all add: Player_Record_def)

text \<open>Statistics whose counters are \<open>int\<close> values not yet at the largest one.\<close>

definition stats_room :: "Stats \<Rightarrow> bool" where
  "stats_room s \<longleftrightarrow>
     0 \<le> Wins s \<and> Wins s + 1 < 2 ^ 63 \<and> 0 \<le> Losses s \<and> Losses s + 1 < 2 ^ 63
     \<and> 0 \<le> Draws s \<and> Draws s + 1 < 2 ^ 63"

text \<open>The counter an outcome is counted in; an undecided match is counted in none.\<close>

fun stat_of :: "Outcome \<Rightarrow> Stats \<Rightarrow> int" where
  "stat_of OutcomeWin s = Wins s"
| "stat_of OutcomeLoss s = Losses s"
| "stat_of OutcomeDraw s = Draws s"
| "stat_of OutcomeUndecided s = 0"

lemma word_of_wrap64 [simp]: "word_of_int (wrap64 i) = (word_of_int i :: 64 word)"
  by (simp add: wrap64_def)

lemma stat_of_Record_word:
  "(word_of_int (stat_of k (Stats_Record s out)) :: 64 word) =
     word_of_int (stat_of k s) + of_bool (out = k \<and> out \<noteq> OutcomeUndecided)"
  by (cases k; cases out) simp_all

lemma stat_of_Record:
  "stats_room s \<Longrightarrow> stat_of k (Stats_Record s out) =
     stat_of k s + of_bool (out = k \<and> out \<noteq> OutcomeUndecided)"
  by (cases k; cases out) (simp_all add: stats_room_def int64_def)

lemma Stats_Played_Record:
  "(word_of_int (Stats_Played (Stats_Record s out)) :: 64 word) =
     word_of_int (Stats_Played s) + of_bool (out \<noteq> OutcomeUndecided)"
  by (cases out) (simp_all add: Stats_Played_def wi_hom_syms)

end
