(* ===== verification/Match_Theorems.thy ===== *)
theory Match_Theorems
  imports Encoding Player_Model
begin

text \<open>
  The properties of the domain: board, match, player, and the stored form of a match. Each is
  stated over the operations of the source and proved from the lemmas of the component.
\<close>

section \<open>A game used by the witnesses\<close>

text \<open>\<open>x\<close> and \<open>o\<close> play; the first wins the top row, or the game is still open after three moves.\<close>

abbreviation mvX :: "int \<Rightarrow> Move" where
  "mvX c \<equiv> \<lparr>mv_Mark = X, mv_Cell = c\<rparr>"

abbreviation mvO :: "int \<Rightarrow> Move" where
  "mvO c \<equiv> \<lparr>mv_Mark = Mark.O, mv_Cell = c\<rparr>"

definition open_game :: Match where
  "open_game =
     \<lparr>m_id = ''g1'', m_players = [X \<mapsto> ''x'', Mark.O \<mapsto> ''o''],
      m_board = [X, X, Empty, Empty, Mark.O, Empty, Empty, Empty, Empty],
      m_turn = Mark.O, m_status = StatusInProgress, m_moves = [mvX 0, mvO 4, mvX 1]\<rparr>"

definition won_game :: Match where
  "won_game =
     \<lparr>m_id = ''g1'', m_players = [X \<mapsto> ''x'', Mark.O \<mapsto> ''o''],
      m_board = [X, X, X, Empty, Mark.O, Empty, Empty, Empty, Mark.O],
      m_turn = X, m_status = StatusXWon, m_moves = [mvX 0, mvO 4, mvX 1, mvO 8, mvX 2]\<rparr>"

lemma open_game_restored: "RestoreMatch ''g1'' ''x'' ''o'' (m_moves open_game) = Inr open_game"
  by code_simp

lemma won_game_restored: "RestoreMatch ''g1'' ''x'' ''o'' (m_moves won_game) = Inr won_game"
  by code_simp

lemmas sample_games =
  restore_reachable [OF open_game_restored] restore_reachable [OF won_game_restored]

section \<open>The board\<close>

text \<open>C23. \<open>Winner\<close> agrees with the eight lines of the grid: it is \<open>Empty\<close> exactly when no
  line holds three marks of one player, and a mark it returns fills a whole line. When only one
  player can have a line (as in every reachable match), it is that player.\<close>

theorem Winner_lines:
  assumes "wf_board b"
  shows "(Board_Winner b = Empty \<longleftrightarrow>
      \<not> (\<exists>l \<in> set winning_lines. \<exists>m \<in> {X, Mark.O}. \<forall>i \<in> set l. b ! i = m))
    \<and> (Board_Winner b = Empty \<or> (\<exists>l \<in> set winning_lines. \<forall>i \<in> set l. b ! i = Board_Winner b))
    \<and> (completes b X \<and> completes b Mark.O \<or>
       (\<forall>m \<in> {X, Mark.O}. Board_Winner b = m \<longleftrightarrow> (\<exists>l \<in> set winning_lines. \<forall>i \<in> set l. b ! i = m)))"
proof (intro conjI)
  show "Board_Winner b = Empty \<longleftrightarrow>
      \<not> (\<exists>l \<in> set winning_lines. \<exists>m \<in> {X, Mark.O}. \<forall>i \<in> set l. b ! i = m)"
    unfolding Winner_Empty_iff [OF assms] completed_def completes_def by blast
  show "Board_Winner b = Empty \<or> (\<exists>l \<in> set winning_lines. \<forall>i \<in> set l. b ! i = Board_Winner b)"
    using Winner_completes [OF assms] unfolding completes_def by blast
  show "completes b X \<and> completes b Mark.O \<or>
      (\<forall>m \<in> {X, Mark.O}. Board_Winner b = m \<longleftrightarrow> (\<exists>l \<in> set winning_lines. \<forall>i \<in> set l. b ! i = m))"
    using Winner_iff [OF assms, of X] Winner_iff [OF assms, of Mark.O]
    unfolding completes_def [symmetric] by simp blast
qed

theorem Winner_lines_witness:
  "Board_Winner (m_board won_game) = X \<and> Board_Winner (m_board open_game) = Empty
   \<and> \<not> (\<exists>l \<in> set winning_lines. \<exists>m \<in> {X, Mark.O}. \<forall>i \<in> set l. m_board open_game ! i = m)"
proof -
  have "Board_Winner (m_board won_game) = X" "Board_Winner (m_board open_game) = Empty"
    by code_simp+
  moreover have "wf_board (m_board open_game)" by code_simp
  ultimately show ?thesis using Winner_lines [of "m_board open_game"] by blast
qed

section \<open>The match\<close>

text \<open>C4. The match entity implements the game of noughts and crosses: every match \<open>NewMatch\<close>
  and any sequence of \<open>ApplyMove\<close> calls can produce stands for a legal list of cells, and the
  next \<open>ApplyMove\<close> appends its cell to that list exactly when the rules allow it; otherwise it
  returns the error of the first rule that is broken and leaves the match as it was.\<close>

theorem ApplyMove_refines_game:
  assumes "reachable_match mid px po m"
  shows "\<exists>hs. legal hs \<and> m = match_of mid px po hs
    \<and> (\<forall>p c. Match_ApplyMove m p c =
          (case move_error px po hs p c of
             Some e \<Rightarrow> (Some e, m)
           | None \<Rightarrow> (None, match_of mid px po (hs @ [nat c]))))"
  using assms by (rule reachable_legal) (auto simp: ApplyMove_match_of)

theorem ApplyMove_refines_game_witness:
  "\<exists>hs. legal hs \<and> open_game = match_of ''g1'' ''x'' ''o'' hs
    \<and> (\<forall>p c. Match_ApplyMove open_game p c =
          (case move_error ''x'' ''o'' hs p c of
             Some e \<Rightarrow> (Some e, open_game)
           | None \<Rightarrow> (None, match_of ''g1'' ''x'' ''o'' (hs @ [nat c]))))"
  using ApplyMove_refines_game [OF sample_games(1)] .

text \<open>C19. Status, board and history of a reachable match agree: a player's mark fills a line
  exactly when the status says that player won, never both marks do, the match is a draw exactly
  when the board is full without a line, the marks on the board are the moves made, X and O
  alternate from X on, and there are at most nine moves.\<close>

theorem match_consistent:
  assumes "reachable_match mid px po m"
  shows "(m_status m = StatusXWon \<longleftrightarrow> completes (m_board m) X)
    \<and> (m_status m = StatusOWon \<longleftrightarrow> completes (m_board m) Mark.O)
    \<and> (m_status m = StatusDraw \<longleftrightarrow> \<not> completed (m_board m) \<and> Board_IsFull (m_board m))
    \<and> \<not> (completes (m_board m) X \<and> completes (m_board m) Mark.O)
    \<and> length (m_moves m) \<le> 9
    \<and> (\<forall>k < length (m_moves m). mv_Mark (m_moves m ! k) = (if even k then X else Mark.O)
         \<and> m_board m ! nat (mv_Cell (m_moves m ! k)) = mv_Mark (m_moves m ! k))
    \<and> (\<forall>i < 9. m_board m ! i = Empty \<longleftrightarrow> int i \<notin> mv_Cell ` set (m_moves m))"
  using assms
proof (rule reachable_legal)
  fix hs
  assume hs: "legal hs" and m: "m = match_of mid px po hs"
  have nth: "moves_of hs ! k = \<lparr>mv_Mark = player_at k, mv_Cell = int (hs ! k)\<rparr>" if "k < length hs" for k
    using that by (rule moves_of_nth)
  show ?thesis
    using not_both_complete [OF hs] board_of_full [OF hs] legal_length [OF hs]
    by (auto simp: m status_of_def completed_def nth board_of_mark [OF hs] player_at_def
        board_of_free cells_moves_of)
qed

theorem match_consistent_witness:
  "completes (m_board won_game) X \<and> \<not> completes (m_board won_game) Mark.O
   \<and> m_board open_game ! 8 = Empty"
proof -
  have "m_status won_game = StatusXWon" by (simp add: won_game_def)
  moreover have "int 8 \<notin> mv_Cell ` set (m_moves open_game)" by code_simp
  moreover have "(8 :: nat) < 9" by simp
  ultimately show ?thesis
    using match_consistent [OF sample_games(2)] match_consistent [OF sample_games(1)] by blast
qed

text \<open>A match in progress accepts a move from exactly one player, the one whose mark has the
  turn, on exactly the free cells, and there is a free cell: no reachable match is stuck.\<close>

lemma move_accepted_iff:
  assumes "reachable_match mid px po m" and "\<not> Status_IsFinished (m_status m)"
  shows "(fst (Match_ApplyMove m p c) = None \<longleftrightarrow>
      p = Match_PlayerOf m (m_turn m) \<and> 0 \<le> c \<and> c < 9 \<and> Board_Cell (m_board m) c = Empty)
    \<and> (\<exists>c. 0 \<le> c \<and> c < 9 \<and> Board_Cell (m_board m) c = Empty)"
  using assms(1)
proof (rule reachable_legal)
  fix hs
  assume hs: "px \<noteq> po" "legal hs" and m: "m = match_of mid px po hs"
  with assms(2) have und: "\<not> decided hs" by (simp add: status_of_decided)
  have player: "Match_PlayerOf m (m_turn m) = mover_of px po hs"
    using PlayerOf_mover [OF und] by (simp add: m turn_of_undecided [OF und])
  have free: "Board_Cell (m_board m) c = Empty \<longleftrightarrow> nat c \<notin> set hs" if "0 \<le> c" "c < 9" for c
    using that board_of_free [of "nat c" hs] by (simp add: m Board_Cell_def)
  have "fst (Match_ApplyMove m p c) = None \<longleftrightarrow> move_error px po hs p c = None"
    using hs by (simp add: m ApplyMove_match_of split: option.split)
  then have "fst (Match_ApplyMove m p c) = None \<longleftrightarrow>
      p = Match_PlayerOf m (m_turn m) \<and> 0 \<le> c \<and> c < 9 \<and> Board_Cell (m_board m) c = Empty"
    using free [of c] und by (auto simp: player move_error_None)
  moreover obtain i where "i < 9" "i \<notin> set hs" using free_cell [OF hs(2) und] .
  then have "0 \<le> int i \<and> int i < 9 \<and> Board_Cell (m_board m) (int i) = Empty"
    using free [of "int i"] by simp
  ultimately show ?thesis by blast
qed

text \<open>A finished match is frozen: whoever asks for whatever cell gets
  \<open>ErrMatchFinished\<close>, and board, turn, status and history stay as they are, whatever is tried
  afterwards.\<close>

lemma finished_match_frozen:
  assumes "Status_IsFinished (m_status m)"
  shows "fold (\<lambda>(p, c) m. snd (Match_ApplyMove m p c)) calls m = m
    \<and> Match_ApplyMove m p c = (Some ErrMatchFinished, m)"
proof -
  have move: "Match_ApplyMove m p c = (Some ErrMatchFinished, m)" for p c
    using assms by (simp add: Match_ApplyMove_def)
  have "fold (\<lambda>(p, c) m. snd (Match_ApplyMove m p c)) calls m = m"
    by (induction calls) (simp_all add: move split: prod.split)
  with move show ?thesis by simp
qed

text \<open>The outcomes of the two players fit together: undecided for both while the match runs,
  then a draw for both, or a win for the player \<open>Winner\<close> names and a loss for the opponent.
  Nobody else has an outcome but that of a draw.\<close>

lemma outcomes_fit:
  assumes "reachable_match mid px po m"
  shows "Match_OutcomeFor m po = opposite (Match_OutcomeFor m px)
    \<and> (Match_OutcomeFor m px = OutcomeUndecided \<longleftrightarrow> \<not> Status_IsFinished (m_status m))
    \<and> (Match_OutcomeFor m px = OutcomeDraw \<longleftrightarrow> m_status m = StatusDraw)
    \<and> (Match_OutcomeFor m px = OutcomeWin \<longleftrightarrow> Match_Winner m = (px, True))
    \<and> (Match_OutcomeFor m po = OutcomeWin \<longleftrightarrow> Match_Winner m = (po, True))
    \<and> (q = px \<or> q = po \<or> Match_OutcomeFor m q \<in> {OutcomeUndecided, OutcomeDraw})"
  using assms
proof (rule reachable_legal)
  fix hs
  assume "px \<noteq> po" "legal hs" "m = match_of mid px po hs"
  then show ?thesis
    using status_of_decided [of hs]
    by (cases "status_of hs") (simp_all add: OutcomeFor_match_of Match_Winner_def Status_IsFinished_def)
qed

text \<open>\<open>MarkOf\<close> ranges over a Go map, whose order is unspecified; for a match \<open>NewMatch\<close> made
  every order gives the same mark: X for the first player, O for the second, none for others.\<close>

lemma MarkOf_any_order:
  assumes "reachable_match mid px po m" and "set order = dom (m_players m)"
  shows "MarkOf_in order m p = Match_MarkOf m p
    \<and> MarkOf_in order m p =
        (if p = px then (X, True) else if p = po then (Mark.O, True) else (Empty, False))"
proof -
  have two: "two_players m px po" by (rule reachable_two_players [OF assms(1)])
  then have "set order = set [X, Mark.O]" "inj_on (m_players m) (set order)"
    using assms(2) by (auto simp: two_players_def inj_on_def)
  then show ?thesis
    using players_loop_order [of order "[X, Mark.O]" "m_players m" p] MarkOf_two_players [OF two]
    by (simp add: MarkOf_in_def Match_MarkOf_def)
qed

section \<open>Restoring\<close>

text \<open>C20. Restoring is sound and complete: a list of moves with real marks restores to a match
  exactly when some reachable match has that history, and then to that match. A history that
  breaks a rule of the game is rejected.\<close>

theorem restore_iff:
  assumes "\<forall>mv \<in> set mvs. mv_Mark mv \<noteq> Empty"
  shows "RestoreMatch mid px po mvs = Inr m \<longleftrightarrow> reachable_match mid px po m \<and> m_moves m = mvs"
  using assms restore_legal [of mid px po mvs m] restore_reachable restore_complete by blast

theorem restore_iff_witness:
  "RestoreMatch ''g1'' ''x'' ''o'' [mvX 0, mvO 4, mvX 1] = Inr open_game"
proof -
  have "m_moves open_game = [mvX 0, mvO 4, mvX 1]" by (simp add: open_game_def)
  then show ?thesis
    using restore_iff [of "[mvX 0, mvO 4, mvX 1]" "''g1''" "''x''" "''o''" open_game] sample_games(1)
    by simp
qed

text \<open>A match survives storage: encoding its history as text, decoding the text and replaying
  the moves gives the match back, board, turn and status included, and the status column parses
  to the status of the match.\<close>

lemma stored_match_restores:
  assumes "reachable_match mid px po m"
  shows "\<exists>mvs. decodeMoves (encodeMoves (m_moves m)) = Inr mvs
    \<and> RestoreMatch mid px po mvs = Inr m
    \<and> parseStatus (Status_String (m_status m)) = Inr (m_status m)"
proof -
  obtain hs where "legal hs" "m_moves m = moves_of hs"
    using assms by (rule reachable_legal) simp
  with decode_encode [OF storable_moves_of] restore_complete [OF assms] show ?thesis by simp
qed

text \<open>The decoder inverts the encoder on every list of moves with real marks and cells that
  fit a Go int; and whatever text it accepts, the moves it returns are such moves, so encoding
  them again and decoding gives the same moves.\<close>

lemma decode_encode_moves:
  "((\<forall>mv \<in> set mvs. storable mv) \<longrightarrow> decodeMoves (encodeMoves mvs) = Inr mvs)
   \<and> (decodeMoves s = Inr mvs \<longrightarrow>
        (\<forall>mv \<in> set mvs. storable mv) \<and> decodeMoves (encodeMoves mvs) = Inr mvs)"
  using decode_encode decode_storable by blast

section \<open>Players\<close>

text \<open>Names are cleaned, not rewritten: an accepted name is a piece of what was typed, not
  empty, of at most 32 bytes, without a space at either end, and accepted again unchanged; what
  is rejected is blank or too long.\<close>

lemma normalized_names:
  "case NormalizeName s of
     Inr n \<Rightarrow> n \<noteq> [] \<and> length n \<le> 32 \<and> (\<exists>pre post. s = pre @ n @ post)
       \<and> \<not> starts_with_any utf8_spaces n \<and> \<not> starts_with_any (map rev utf8_spaces) (rev n)
       \<and> NormalizeName n = Inr n
   | Inl e \<Rightarrow> e = ErrEmptyName \<and> TrimSpace s = [] \<or> e = ErrNameTooLong \<and> 32 < length (TrimSpace s)"
proof (cases "NormalizeName s")
  case (Inl e)
  then show ?thesis by (auto simp: NormalizeName_def Let_def MaxNameLength_def split: if_splits)
next
  case (Inr n)
  then have "n = TrimSpace s" "n \<noteq> []" "length n \<le> 32"
    by (auto simp: NormalizeName_Inr MaxNameLength_def)
  with Inr NormalizeName_idem [OF Inr] TrimSpace_infix [of s] TrimSpace_no_leading [of s]
    TrimSpace_no_trailing [of s] show ?thesis by simp
qed

text \<open>Recording an outcome adds one to its counter and leaves the others, as 64-bit integers:
  modulo $2^{64}$ always, and exactly while the counter is below the largest int. The number of
  games played grows by one, except for an undecided match, which counts nothing.\<close>

lemma record_counts:
  "(\<forall>k. (word_of_int (stat_of k (Stats_Record s out)) :: 64 word) =
       word_of_int (stat_of k s) + of_bool (out = k \<and> out \<noteq> OutcomeUndecided))
   \<and> (stats_room s \<longrightarrow>
       (\<forall>k. stat_of k (Stats_Record s out) = stat_of k s + of_bool (out = k \<and> out \<noteq> OutcomeUndecided)))
   \<and> (word_of_int (Stats_Played (Stats_Record s out)) :: 64 word) =
       word_of_int (Stats_Played s) + of_bool (out \<noteq> OutcomeUndecided)"
  by (intro conjI allI impI)
    (simp_all add: stat_of_Record_word stat_of_Record Stats_Played_Record)

end
