(* ===== verification/Ports.thy ===== *)
theory Ports
  imports Match_Props Player_Model
begin

text \<open>
  \<open>internal/usecase/ports.go\<close> and \<open>internal/usecase/events.go\<close>: the interfaces the use cases
  are written against, and the values that cross them.

  A Go interface value is a table of methods, so each interface is a record of functions over
  a state \<open>'w\<close> that stands for everything behind the interface (a store, sockets, a clock).
  A method that changes that state returns the new one. The contexts Go passes along only
  carry cancellation and are left out; a cancelled call is a call that returns an error.

  The locales say what each consumer relies on. They are interpreted where the model
  provides an implementation.
\<close>

section \<open>Values\<close>

record MatchRecord =
  r_ID :: MatchID
  r_X :: PlayerID
  r_O :: PlayerID
  r_Status :: Status
  r_Moves :: "Move list"

datatype EventType =
  EventMatchStarted | EventStateChanged | EventMatchEnded | EventOpponentLeft

fun EventType_String :: "EventType \<Rightarrow> string" where
  "EventType_String EventMatchStarted = ''match_started''"
| "EventType_String EventStateChanged = ''state_changed''"
| "EventType_String EventMatchEnded = ''match_ended''"
| "EventType_String EventOpponentLeft = ''opponent_left''"

record MatchState =
  s_MatchID :: MatchID
  s_Cells :: Board
  s_YourMark :: Mark
  s_Turn :: Mark
  s_Status :: Status
  s_Outcome :: Outcome
  s_Opponent :: string

record Event =
  ev_Type :: EventType
  ev_MatchID :: MatchID
  ev_State :: MatchState

section \<open>Interfaces\<close>

record 'w PlayerRegistry =
  reg_Create :: "Player \<Rightarrow> 'w \<Rightarrow> goerr option \<times> 'w"
  reg_ByName :: "string \<Rightarrow> 'w \<Rightarrow> goerr + Player"

record 'w PlayerRecorder =
  rec_ByID :: "PlayerID \<Rightarrow> 'w \<Rightarrow> goerr + Player"
  rec_Save :: "Player \<Rightarrow> 'w \<Rightarrow> goerr option \<times> 'w"

record 'w StandingsReader =
  std_Top :: "int \<Rightarrow> 'w \<Rightarrow> goerr + Player list"

record 'w MatchStore =
  ms_Save :: "MatchRecord \<Rightarrow> 'w \<Rightarrow> goerr option \<times> 'w"

record 'w Hasher =
  h_Hash :: "string \<Rightarrow> 'w \<Rightarrow> (goerr + string) \<times> 'w"
  h_Compare :: "string \<Rightarrow> string \<Rightarrow> goerr option"

record 'w TokenIssuer =
  t_Issue :: "PlayerID \<Rightarrow> 'w \<Rightarrow> goerr + string"
  t_Verify :: "string \<Rightarrow> 'w \<Rightarrow> goerr + PlayerID"

record 'w IDGenerator =
  g_NewID :: "'w \<Rightarrow> string \<times> 'w"

record 'w Notifier =
  n_Notify :: "PlayerID \<Rightarrow> Event \<Rightarrow> 'w \<Rightarrow> 'w"

record 'w Matches =
  mm_Start :: "PlayerID \<Rightarrow> PlayerID \<Rightarrow> 'w \<Rightarrow> goerr option \<times> 'w"
  mm_InMatch :: "PlayerID \<Rightarrow> 'w \<Rightarrow> bool"

text \<open>The one level of \<open>slog.Logger\<close> the use cases write at: a message, an id, an error.\<close>

record 'w Logger =
  log_Error :: "string \<Rightarrow> string \<Rightarrow> goerr \<Rightarrow> 'w \<Rightarrow> 'w"

section \<open>What the consumers rely on\<close>

text \<open>
  The players a store holds, as a map from identities, and the calls that must leave that map
  alone. \<open>good\<close> is the store's own invariant.
\<close>

locale player_lookup =
  fixes ByID :: "PlayerID \<Rightarrow> 'w \<Rightarrow> goerr + Player"
    and view :: "'w \<Rightarrow> PlayerID \<Rightarrow> Player option"
    and good :: "'w \<Rightarrow> bool"
  assumes ByID_view: "good w \<Longrightarrow>
      ByID i w = (case view w i of None \<Rightarrow> Inl (Domain ErrPlayerNotFound) | Some p \<Rightarrow> Inr p)"
    and view_ID: "good w \<Longrightarrow> view w i = Some p \<Longrightarrow> p_ID p = i"

locale player_recorder = player_lookup +
  fixes Save :: "Player \<Rightarrow> 'w \<Rightarrow> goerr option \<times> 'w"
  assumes Save_known: "good w \<Longrightarrow> view w (p_ID p) = Some q \<Longrightarrow> p_Name p = p_Name q \<Longrightarrow>
      \<exists>w'. Save p w = (None, w') \<and> view w' = (view w)(p_ID p \<mapsto> p) \<and> good w'"
    and Save_unknown: "good w \<Longrightarrow> view w (p_ID p) = None \<Longrightarrow>
      \<exists>w'. Save p w = (Some (Domain ErrPlayerNotFound), w') \<and> view w' = view w \<and> good w'"
begin

text \<open>Read, record an outcome, write back: the sequence \<open>Games.record\<close> runs.\<close>

lemma read_record_save:
  assumes "good w" and "view w i = Some p"
  shows "\<exists>w'. Save (Player_Record p out) w = (None, w')
           \<and> view w' = (view w)(i \<mapsto> Player_Record p out) \<and> good w'"
  using Save_known [OF assms(1), of "Player_Record p out" p] view_ID [OF assms] assms(2) by simp

end

locale player_registry = player_lookup +
  fixes Create :: "Player \<Rightarrow> 'w \<Rightarrow> goerr option \<times> 'w"
    and ByName :: "string \<Rightarrow> 'w \<Rightarrow> goerr + Player"
    and key :: "string \<Rightarrow> string"
  assumes ByName_found: "good w \<Longrightarrow> view w i = Some p \<Longrightarrow> key (p_Name p) = key n \<Longrightarrow>
      ByName n w = Inr p"
    and ByName_missing: "good w \<Longrightarrow> (\<And>i p. view w i = Some p \<Longrightarrow> key (p_Name p) \<noteq> key n) \<Longrightarrow>
      ByName n w = Inl (Domain ErrPlayerNotFound)"
    and Create_taken: "good w \<Longrightarrow> view w i = Some q \<Longrightarrow> key (p_Name q) = key (p_Name p) \<Longrightarrow>
      \<exists>w'. Create p w = (Some (Domain ErrNameTaken), w') \<and> view w' = view w \<and> good w'"
    and Create_free: "good w \<Longrightarrow> (\<And>i q. view w i = Some q \<Longrightarrow> key (p_Name q) \<noteq> key (p_Name p)) \<Longrightarrow>
      view w (p_ID p) = None \<Longrightarrow>
      \<exists>w'. Create p w = (None, w') \<and> view w' = (view w)(p_ID p \<mapsto> p) \<and> good w'"
begin

text \<open>A name is looked up to the one player that has it, or to nobody.\<close>

lemma ByName_cases:
  assumes "good w"
  obtains (found) i p where "view w i = Some p" and "key (p_Name p) = key n" and "ByName n w = Inr p"
  | (missing) "\<And>i p. view w i = Some p \<Longrightarrow> key (p_Name p) \<noteq> key n"
      and "ByName n w = Inl (Domain ErrPlayerNotFound)"
  using assms ByName_found ByName_missing by metis

lemma names_unique:
  assumes "good w" and "view w i = Some p" and "view w j = Some q"
    and "key (p_Name p) = key (p_Name q)"
  shows "i = j"
proof -
  have "ByName (p_Name q) w = Inr p" "ByName (p_Name q) w = Inr q"
    using ByName_found [OF assms(1,2,4)] ByName_found [OF assms(1,3)] by simp_all
  then have "p = q" by simp
  with view_ID [OF assms(1,2)] view_ID [OF assms(1,3)] show ?thesis by simp
qed

lemma Create_then_ByName:
  assumes "good w" and "Create p w = (None, w')" and "view w (p_ID p) = None"
  shows "good w' \<and> view w' = (view w)(p_ID p \<mapsto> p) \<and> ByName (p_Name p) w' = Inr p"
proof -
  have free: "key (p_Name q) \<noteq> key (p_Name p)" if "view w i = Some q" for i q
    using Create_taken [OF assms(1) that, of p] assms(2) by auto
  obtain w2 where "Create p w = (None, w2)" "view w2 = (view w)(p_ID p \<mapsto> p)" "good w2"
    using Create_free [of w p] free assms(1,3) by blast
  with assms(2) ByName_found [of w2 "p_ID p" p "p_Name p"] show ?thesis by simp
qed

end

text \<open>
  Saving a record makes it the one that is found under its id. \<open>storable_record\<close> says which
  records the store can represent (every record of a match of this program is one). A record saved again is one of
  the same match: \<open>same_match\<close> says that the ids of the players do not change.
\<close>

definition same_match :: "(MatchID \<Rightarrow> MatchRecord option) \<Rightarrow> MatchRecord \<Rightarrow> bool" where
  "same_match recs r \<longleftrightarrow>
     (case recs (r_ID r) of None \<Rightarrow> True | Some q \<Rightarrow> r_X q = r_X r \<and> r_O q = r_O r)"

locale match_store =
  fixes Save :: "MatchRecord \<Rightarrow> 'w \<Rightarrow> goerr option \<times> 'w"
    and ByID :: "MatchID \<Rightarrow> 'w \<Rightarrow> goerr + MatchRecord option"
    and stored :: "'w \<Rightarrow> MatchID \<Rightarrow> MatchRecord option"
    and good :: "'w \<Rightarrow> bool"
    and storable_record :: "MatchRecord \<Rightarrow> bool"
  assumes Save_stores: "good w \<Longrightarrow> storable_record r \<Longrightarrow> same_match (stored w) r \<Longrightarrow>
      \<exists>w'. Save r w = (None, w') \<and> stored w' = (stored w)(r_ID r \<mapsto> r) \<and> good w'"
    and ByID_stored: "good w \<Longrightarrow> ByID i w = Inr (stored w i)"
begin

lemma Save_then_ByID:
  assumes "good w" and "storable_record r" and "same_match (stored w) r" and "Save r w = (e, w')"
  shows "e = None \<and> ByID (r_ID r) w' = Inr (Some r) \<and> (\<forall>i. i \<noteq> r_ID r \<longrightarrow> ByID i w' = ByID i w)"
proof -
  have "e = None" and "stored w' = (stored w)(r_ID r \<mapsto> r)" and "good w'"
    using Save_stores [OF assms(1-3)] assms(4) by auto
  with assms(1) show ?thesis by (simp add: ByID_stored)
qed

text \<open>The later of two saves of a match wins; \<open>Games\<close> saves after every move.\<close>

lemma Save_twice:
  assumes "good w" and "storable_record r" and "storable_record r'" and "r_ID r = r_ID r'"
    and "same_match (stored w) r" and "r_X r = r_X r'" and "r_O r = r_O r'"
  shows "stored (snd (Save r' (snd (Save r w)))) = (stored w)(r_ID r \<mapsto> r')"
proof -
  obtain w1 where w1: "Save r w = (None, w1)" "stored w1 = (stored w)(r_ID r \<mapsto> r)" "good w1"
    using Save_stores [OF assms(1,2,5)] by blast
  then have "same_match (stored w1) r'" using assms by (simp add: same_match_def)
  then obtain w2 where "Save r' w1 = (None, w2)" "stored w2 = (stored w1)(r_ID r' \<mapsto> r')"
    using Save_stores [OF w1(3) assms(3)] by blast
  with w1 assms(4) show ?thesis by simp
qed

end

end
