(* ===== verification/Ranking.thy ===== *)
theory Ranking
  imports Ports "HOL-Library.Char_ord" "HOL-Library.List_Lexorder" "HOL-Library.Product_Lexorder"
    "HOL-Library.Multiset"
begin

text \<open>
  The order of the leaderboard. \<open>StandingsReader\<close> promises wins descending, then losses
  ascending; both stores add the name, compared byte by byte, so that the order of players
  with different names is total. \<open>rank_key\<close> is that order as a linear order of its own, so
  that the sorting theory of the library applies to it.
\<close>

datatype rank_key = RankKey (rk_wins: int) (rk_losses: int) (rk_name: string)

definition rank_tuple :: "rank_key \<Rightarrow> int \<times> int \<times> string" where
  "rank_tuple k = (- rk_wins k, rk_losses k, rk_name k)"

lemma rank_tuple_inj: "rank_tuple k = rank_tuple l \<Longrightarrow> k = l"
  by (cases k; cases l) (simp add: rank_tuple_def)

instantiation rank_key :: linorder
begin

definition less_eq_rank_key :: "rank_key \<Rightarrow> rank_key \<Rightarrow> bool" where
  "less_eq_rank_key k l \<longleftrightarrow> rank_tuple k \<le> rank_tuple l"

definition less_rank_key :: "rank_key \<Rightarrow> rank_key \<Rightarrow> bool" where
  "less_rank_key k l \<longleftrightarrow> rank_tuple k < rank_tuple l"

instance
proof
  fix k l m :: rank_key
  show "(k < l) = (k \<le> l \<and> \<not> l \<le> k)"
    by (simp add: less_eq_rank_key_def less_rank_key_def less_le_not_le)
  show "k \<le> k"
    by (simp add: less_eq_rank_key_def)
  show "k \<le> l \<Longrightarrow> l \<le> m \<Longrightarrow> k \<le> m"
    unfolding less_eq_rank_key_def by (rule order_trans)
  show "k \<le> l \<Longrightarrow> l \<le> k \<Longrightarrow> k = l"
    unfolding less_eq_rank_key_def by (rule rank_tuple_inj) (rule antisym)
  show "k \<le> l \<or> l \<le> k"
    unfolding less_eq_rank_key_def by (rule linear)
qed

end

definition rank_of :: "Player \<Rightarrow> rank_key" where
  "rank_of p = RankKey (Wins (p_Stats p)) (Losses (p_Stats p)) (p_Name p)"

lemma rank_of_le:
  "rank_of a \<le> rank_of b \<longleftrightarrow>
     Wins (p_Stats a) > Wins (p_Stats b) \<or>
     Wins (p_Stats a) = Wins (p_Stats b) \<and>
       (Losses (p_Stats a) < Losses (p_Stats b) \<or>
        Losses (p_Stats a) = Losses (p_Stats b) \<and> p_Name a \<le> p_Name b)"
  by (auto simp: less_eq_rank_key_def rank_tuple_def rank_of_def less_eq_prod_def)

section \<open>Sorting with a comparison function\<close>

text \<open>
  \<open>sort.Slice(all, less)\<close>: the library sorts in place and does not promise stability. The
  model is an insertion sort by the same \<open>less\<close>. For a comparison that agrees with a key no
  two elements share, every sorted rearrangement is this one (\<open>sorted_rearrangement_unique\<close>),
  so neither the library's algorithm nor the order in which Go's map hands out the elements
  matters.
\<close>

fun insert_by :: "('a \<Rightarrow> 'a \<Rightarrow> bool) \<Rightarrow> 'a \<Rightarrow> 'a list \<Rightarrow> 'a list" where
  "insert_by lt x [] = [x]"
| "insert_by lt x (y # ys) = (if lt y x then y # insert_by lt x ys else x # y # ys)"

definition sort_Slice :: "('a \<Rightarrow> 'a \<Rightarrow> bool) \<Rightarrow> 'a list \<Rightarrow> 'a list" where
  "sort_Slice lt xs = foldr (insert_by lt) xs []"

lemma insert_by_insort_key:
  "(\<And>a b. lt a b \<longleftrightarrow> f a < f b) \<Longrightarrow> insert_by lt x ys = insort_key f x ys"
  by (induction ys) (auto simp: not_less)

lemma sort_Slice_sort_key:
  assumes "\<And>a b. lt a b \<longleftrightarrow> f a < f b"
  shows "sort_Slice lt xs = sort_key f xs"
proof -
  have "insert_by lt = insort_key f"
    using insert_by_insort_key [of lt f, OF assms] by (intro ext)
  then show ?thesis by (simp add: sort_Slice_def sort_key_def)
qed

lemma sorted_rearrangement_unique:
  fixes f :: "'a \<Rightarrow> 'b :: linorder"
  assumes "mset ys = mset xs" and "sorted (map f ys)" and "inj_on f (set xs)"
  shows "ys = sort_key f xs"
  using sort_key_inj_key_eq [of xs ys f] assms by simp

section \<open>The port\<close>

locale standings_reader =
  fixes Top :: "int \<Rightarrow> 'w \<Rightarrow> goerr + Player list"
    and players_in :: "'w \<Rightarrow> Player list"
    and good :: "'w \<Rightarrow> bool"
  assumes Top_ranked: "good w \<Longrightarrow> 0 < limit \<Longrightarrow>
      Top limit w = Inr (take (nat limit) (sort_key rank_of (players_in w)))"
begin

lemma Top_length: "good w \<Longrightarrow> 0 < limit \<Longrightarrow> Top limit w = Inr ps \<Longrightarrow>
    length ps = min (nat limit) (length (players_in w))"
  by (auto simp: Top_ranked)

lemma Top_sorted: "good w \<Longrightarrow> 0 < limit \<Longrightarrow> Top limit w = Inr ps \<Longrightarrow> sorted (map rank_of ps)"
  by (auto simp: Top_ranked take_map [symmetric])

lemma Top_members: "good w \<Longrightarrow> 0 < limit \<Longrightarrow> Top limit w = Inr ps \<Longrightarrow> set ps \<subseteq> set (players_in w)"
  by (auto simp: Top_ranked dest: in_set_takeD)

text \<open>Nobody who is left out ranks before somebody who is listed.\<close>

lemma Top_best:
  assumes "good w" and "0 < limit" and "Top limit w = Inr ps" and "p \<in> set ps"
    and "q \<in> set (drop (nat limit) (sort_key rank_of (players_in w)))"
  shows "rank_of p \<le> rank_of q"
proof -
  let ?all = "sort_key rank_of (players_in w)"
  have "sorted (map rank_of (take (nat limit) ?all @ drop (nat limit) ?all))"
    by (simp del: map_append)
  moreover have "p \<in> set (take (nat limit) ?all)"
    using assms(1-4) by (simp add: Top_ranked)
  ultimately show ?thesis using assms(5) by (auto simp: sorted_append simp del: append_take_drop_id)
qed

end

end
