(* ===== verification/Leaderboard.thy ===== *)
theory Leaderboard
  imports Ranking
begin

text \<open>\<open>internal/usecase/leaderboard.go\<close>: clamping the limit and numbering the ranking.\<close>

definition DefaultLeaderboardLimit :: int where
  "DefaultLeaderboardLimit = 10"

definition MaxLeaderboardLimit :: int where
  "MaxLeaderboardLimit = 100"

record Standing =
  st_Rank :: int
  st_Name :: string
  st_Wins :: int
  st_Losses :: int
  st_Draws :: int

definition clamp_limit :: "int \<Rightarrow> int" where
  "clamp_limit limit =
     (let limit = (if limit \<le> 0 then DefaultLeaderboardLimit else limit)
      in if limit > MaxLeaderboardLimit then MaxLeaderboardLimit else limit)"

text \<open>\<open>for i, p := range players\<close>, counting from the index given.\<close>

fun standings_loop :: "nat \<Rightarrow> Player list \<Rightarrow> Standing list" where
  "standings_loop i [] = []"
| "standings_loop i (p # ps) =
     \<lparr>st_Rank = int i + 1, st_Name = p_Name p, st_Wins = Wins (p_Stats p),
      st_Losses = Losses (p_Stats p), st_Draws = Draws (p_Stats p)\<rparr> # standings_loop (Suc i) ps"

definition Leaderboard_Top :: "'w StandingsReader \<Rightarrow> int \<Rightarrow> 'w \<Rightarrow> goerr + Standing list" where
  "Leaderboard_Top players limit w =
     (case std_Top players (clamp_limit limit) w of
        Inl e \<Rightarrow> Inl e
      | Inr ps \<Rightarrow> Inr (standings_loop 0 ps))"

lemma clamp_limit_range: "1 \<le> clamp_limit n \<and> clamp_limit n \<le> 100"
  by (simp add: clamp_limit_def Let_def DefaultLeaderboardLimit_def MaxLeaderboardLimit_def)

lemma clamp_limit_id: "1 \<le> n \<Longrightarrow> n \<le> 100 \<Longrightarrow> clamp_limit n = n"
  by (simp add: clamp_limit_def Let_def DefaultLeaderboardLimit_def MaxLeaderboardLimit_def)

lemma length_standings_loop [simp]: "length (standings_loop i ps) = length ps"
  by (induction ps arbitrary: i) simp_all

lemma standings_loop_nth:
  "k < length ps \<Longrightarrow> standings_loop i ps ! k =
     \<lparr>st_Rank = int (i + k) + 1, st_Name = p_Name (ps ! k), st_Wins = Wins (p_Stats (ps ! k)),
      st_Losses = Losses (p_Stats (ps ! k)), st_Draws = Draws (p_Stats (ps ! k))\<rparr>"
  by (induction ps arbitrary: i k) (auto simp: nth_Cons split: nat.split)

text \<open>What a board shows: numbered from 1, the better record first.\<close>

definition ranked_board :: "Standing list \<Rightarrow> bool" where
  "ranked_board ss \<longleftrightarrow>
     map st_Rank ss = map (\<lambda>k. int k + 1) [0..<length ss]
     \<and> sorted_wrt (\<lambda>a b. st_Wins a > st_Wins b
          \<or> st_Wins a = st_Wins b \<and> st_Losses a \<le> st_Losses b) ss"

lemma rank_of_record:
  "rank_of a \<le> rank_of b \<Longrightarrow>
   Wins (p_Stats a) > Wins (p_Stats b) \<or>
   Wins (p_Stats a) = Wins (p_Stats b) \<and> Losses (p_Stats a) \<le> Losses (p_Stats b)"
  by (auto simp: rank_of_le)

lemma standings_loop_ranked:
  assumes "sorted (map rank_of ps)"
  shows "ranked_board (standings_loop 0 ps)"
proof -
  have "st_Rank (standings_loop 0 ps ! k) = int k + 1" if "k < length ps" for k
    using that by (simp add: standings_loop_nth)
  then have "map st_Rank (standings_loop 0 ps) = map (\<lambda>k. int k + 1) [0..<length ps]"
    by (intro nth_equalityI) simp_all
  moreover have "rank_of (ps ! i) \<le> rank_of (ps ! j)" if "i < j" "j < length ps" for i j
    using that assms by (simp add: sorted_iff_nth_mono)
  note this [THEN rank_of_record]
  ultimately show ?thesis
    by (simp add: ranked_board_def sorted_wrt_iff_nth_less standings_loop_nth)
qed

context standings_reader
begin

lemma leaderboard_ranked:
  assumes "good w" and "Leaderboard_Top \<lparr>std_Top = Top\<rparr> limit w = Inr ss"
  shows "ranked_board ss \<and> length ss = min (nat (clamp_limit limit)) (length (players_in w))"
proof -
  have pos: "0 < clamp_limit limit" using clamp_limit_range [of limit] by simp
  obtain ps where ps: "Top (clamp_limit limit) w = Inr ps" "ss = standings_loop 0 ps"
    using assms(2) by (auto simp: Leaderboard_Top_def split: sum.splits)
  show ?thesis
    using standings_loop_ranked [OF Top_sorted [OF assms(1) pos ps(1)]] Top_length [OF assms(1) pos ps(1)] ps(2)
    by simp
qed

end

end
