(* ===== verification/Backend.thy ===== *)
theory Backend
  imports Leaderboard Encoding
begin

text \<open>
  What a store has to do for the server. The conformance suite
  (\<open>internal/adapter/storetest/storetest.go\<close>) joins the ports of the player store in one
  interface and adds the reading of a match; \<open>Backend\<close> is that interface as a record of
  functions over the state \<open>'s\<close> of the store. \<open>memory\<close> and \<open>sqlite\<close> both provide one.

  The locale \<open>backend\<close> is the contract: each port's own, and that players and matches do not
  get in each other's way. The maps the contract talks about are what the reads return
  (\<open>bk_view\<close>, \<open>bk_stored\<close>). \<open>good\<close> is the invariant of the store, which for a database
  includes that its driver works.
\<close>

record 's Backend =
  bk_Create :: "Player \<Rightarrow> 's \<Rightarrow> goerr option \<times> 's"
  bk_ByName :: "string \<Rightarrow> 's \<Rightarrow> goerr + Player"
  bk_ByID :: "PlayerID \<Rightarrow> 's \<Rightarrow> goerr + Player"
  bk_Save :: "Player \<Rightarrow> 's \<Rightarrow> goerr option \<times> 's"
  bk_Top :: "int \<Rightarrow> 's \<Rightarrow> goerr + Player list"
  bk_SaveMatch :: "MatchRecord \<Rightarrow> 's \<Rightarrow> goerr option \<times> 's"
  bk_MatchByID :: "MatchID \<Rightarrow> 's \<Rightarrow> goerr + MatchRecord option"

definition bk_view :: "'s Backend \<Rightarrow> 's \<Rightarrow> PlayerID \<Rightarrow> Player option" where
  "bk_view b s i = (case bk_ByID b i s of Inl e \<Rightarrow> None | Inr p \<Rightarrow> Some p)"

definition bk_stored :: "'s Backend \<Rightarrow> 's \<Rightarrow> MatchID \<Rightarrow> MatchRecord option" where
  "bk_stored b s i = (case bk_MatchByID b i s of Inl e \<Rightarrow> None | Inr r \<Rightarrow> r)"

text \<open>The records a store has to represent: moves of a player, with a cell that is an \<open>int\<close>.\<close>

definition storable_record :: "MatchRecord \<Rightarrow> bool" where
  "storable_record r \<longleftrightarrow> (\<forall>mv \<in> set (r_Moves r). storable mv)"

lemma storable_reachable:
  assumes "reachable_match mid px po m"
  shows "\<forall>mv \<in> set (m_moves m). storable mv"
proof -
  obtain hs where "legal hs" "m = match_of mid px po hs"
    using reachable_legal [OF assms] by blast
  then show ?thesis using storable_moves_of by simp
qed

locale backend =
  rec: player_recorder "bk_ByID b" "bk_view b" good "bk_Save b" +
  reg: player_registry "bk_ByID b" "bk_view b" good "bk_Create b" "bk_ByName b" key +
  mst: match_store "bk_SaveMatch b" "bk_MatchByID b" "bk_stored b" good storable_record +
  brd: standings_reader "bk_Top b" listing good
  for b :: "'s Backend" and key :: "string \<Rightarrow> string" and good :: "'s \<Rightarrow> bool"
    and listing :: "'s \<Rightarrow> Player list" +
  assumes SaveMatch_view: "good s \<Longrightarrow> storable_record r \<Longrightarrow>
      bk_view b (snd (bk_SaveMatch b r s)) = bk_view b s"
    and SaveMatch_good: "good s \<Longrightarrow> storable_record r \<Longrightarrow> good (snd (bk_SaveMatch b r s))"
    and SavePlayer_stored: "good s \<Longrightarrow> bk_stored b (snd (bk_Save b p s)) = bk_stored b s"
    and Create_stored: "good s \<Longrightarrow> bk_stored b (snd (bk_Create b p s)) = bk_stored b s"
    and listing: "good s \<Longrightarrow> distinct (listing s) \<and> set (listing s) = ran (bk_view b s)"
begin

text \<open>No two of the players listed share a name, so the ranking is a strict order on them.\<close>

lemma listing_rank_inj:
  assumes "good s"
  shows "inj_on rank_of (set (listing s))"
proof (rule inj_onI)
  fix p q
  assume "p \<in> set (listing s)" "q \<in> set (listing s)" and key: "rank_of p = rank_of q"
  then obtain i j where ij: "bk_view b s i = Some p" "bk_view b s j = Some q"
    using listing [OF assms] by (auto simp: ran_def)
  from key have "p_Name p = p_Name q" by (simp add: rank_of_def)
  then have "i = j" using reg.names_unique [OF assms ij] by simp
  with ij show "p = q" by simp
qed

lemma listed:
  assumes "good s"
  shows "p \<in> set (listing s) \<longleftrightarrow> bk_view b s (p_ID p) = Some p"
proof
  assume "p \<in> set (listing s)"
  then obtain i where i: "bk_view b s i = Some p"
    using listing [OF assms] by (auto simp: ran_def)
  with rec.view_ID [OF assms i] show "bk_view b s (p_ID p) = Some p" by simp
next
  assume "bk_view b s (p_ID p) = Some p"
  then show "p \<in> set (listing s)" using listing [OF assms] by (auto simp: ran_def)
qed

lemma listing_length:
  assumes "good s"
  shows "length (listing s) = card (dom (bk_view b s))"
proof -
  have "inj_on p_ID (set (listing s))"
  proof (rule inj_onI)
    fix p q
    assume "p \<in> set (listing s)" "q \<in> set (listing s)" and same: "p_ID p = p_ID q"
    then have q: "bk_view b s (p_ID q) = Some q" and "bk_view b s (p_ID p) = Some p"
      by (simp_all only: listed [OF assms])
    from this(2) have "bk_view b s (p_ID q) = Some p" by (simp only: same)
    with q show "p = q" by (simp only: option.inject)
  qed
  then have "card (p_ID ` set (listing s)) = length (listing s)"
    using distinct_card [OF conjunct1 [OF listing [OF assms]]] by (simp only: card_image)
  moreover have "p_ID ` set (listing s) = dom (bk_view b s)"
  proof
    show "p_ID ` set (listing s) \<subseteq> dom (bk_view b s)"
      by (auto simp: listed [OF assms])
    show "dom (bk_view b s) \<subseteq> p_ID ` set (listing s)"
    proof
      fix i
      assume "i \<in> dom (bk_view b s)"
      then obtain p where p: "bk_view b s i = Some p" by blast
      have "p_ID p = i" by (rule rec.view_ID [OF assms p])
      with p listed [OF assms, of p] show "i \<in> p_ID ` set (listing s)" by blast
    qed
  qed
  ultimately show ?thesis by simp
qed

text \<open>The leaderboard is determined by the players alone: any sorted arrangement of them is it.\<close>

lemma Top_determined:
  assumes "good s" and "0 < limit" and "distinct ps" and "set ps = ran (bk_view b s)"
    and "sorted (map rank_of ps)"
  shows "bk_Top b limit s = Inr (take (nat limit) ps)"
proof -
  have "mset ps = mset (listing s)"
    using assms(3,4) listing [OF assms(1)] by (metis set_eq_iff_mset_eq_distinct)
  then have "ps = sort_key rank_of (listing s)"
    by (rule sorted_rearrangement_unique [OF _ assms(5) listing_rank_inj [OF assms(1)]])
  with brd.Top_ranked [OF assms(1,2)] show ?thesis by simp
qed

end

end
