(* ===== verification/Memory_Stores.thy ===== *)
theory Memory_Stores
  imports Backend "HOL-Library.AList"
begin

text \<open>
  \<open>internal/adapter/memory\<close>: the in-memory stores. A Go map is an association list with
  distinct keys, so that \<open>Top\<close> can range over it; the order of the list is the order in which
  the map hands out its entries, and the contract of \<open>Ranking\<close> (its list of players is one up to order) shows that it does not matter.

  The stores satisfy the contracts of \<open>Ports\<close> and \<open>Ranking\<close>: the interpretations at the end.
\<close>

section \<open>player_store.go\<close>

record PlayerStore =
  byID :: "(PlayerID \<times> Player) list"
  byName :: "(string \<times> PlayerID) list"

definition NewPlayerStore :: PlayerStore where
  "NewPlayerStore = \<lparr>byID = [], byName = []\<rparr>"

definition nameKey :: "(string \<Rightarrow> string) \<Rightarrow> string \<Rightarrow> string" where
  "nameKey uni name = ToLower uni (TrimSpace name)"

definition mem_copyOf :: "PlayerID \<Rightarrow> PlayerStore \<Rightarrow> goerr + Player" where
  "mem_copyOf i s =
     (case map_of (byID s) i of None \<Rightarrow> Inl (Domain ErrPlayerNotFound) | Some p \<Rightarrow> Inr p)"

definition mem_Create ::
  "(string \<Rightarrow> string) \<Rightarrow> Player \<Rightarrow> PlayerStore \<Rightarrow> goerr option \<times> PlayerStore" where
  "mem_Create uni p s =
     (let key = nameKey uni (p_Name p)
      in case map_of (byName s) key of
           Some taken \<Rightarrow> (Some (Domain ErrNameTaken), s)
         | None \<Rightarrow> (None, s\<lparr>byID := AList.update (p_ID p) p (byID s),
                           byName := AList.update key (p_ID p) (byName s)\<rparr>))"

definition mem_ByName :: "(string \<Rightarrow> string) \<Rightarrow> string \<Rightarrow> PlayerStore \<Rightarrow> goerr + Player" where
  "mem_ByName uni name s =
     (case map_of (byName s) (nameKey uni name) of
        None \<Rightarrow> Inl (Domain ErrPlayerNotFound)
      | Some i \<Rightarrow> mem_copyOf i s)"

definition mem_ByID :: "PlayerID \<Rightarrow> PlayerStore \<Rightarrow> goerr + Player" where
  "mem_ByID i s = mem_copyOf i s"

definition mem_Save :: "Player \<Rightarrow> PlayerStore \<Rightarrow> goerr option \<times> PlayerStore" where
  "mem_Save p s =
     (case map_of (byID s) (p_ID p) of
        None \<Rightarrow> (Some (Domain ErrPlayerNotFound), s)
      | Some old \<Rightarrow> (None, s\<lparr>byID := AList.update (p_ID p) p (byID s)\<rparr>))"

definition mem_less :: "Player \<Rightarrow> Player \<Rightarrow> bool" where
  "mem_less a b =
     (if Wins (p_Stats a) \<noteq> Wins (p_Stats b) then Wins (p_Stats a) > Wins (p_Stats b)
      else if Losses (p_Stats a) \<noteq> Losses (p_Stats b)
           then Losses (p_Stats a) < Losses (p_Stats b)
      else p_Name a < p_Name b)"

text \<open>Slicing \<open>all[:limit]\<close> with a negative limit panics; the panic is an error value here.\<close>

definition mem_Top :: "int \<Rightarrow> PlayerStore \<Rightarrow> goerr + Player list" where
  "mem_Top limit s =
     (let all = sort_Slice mem_less (map snd (byID s))
      in if int (length all) > limit
         then (if limit < 0 then Inl (Opaque ''panic: slice bounds out of range'')
               else Inr (take (nat limit) all))
         else Inr all)"

section \<open>Facts of the player store\<close>

definition mem_view :: "PlayerStore \<Rightarrow> PlayerID \<Rightarrow> Player option" where
  "mem_view s = map_of (byID s)"

text \<open>The two maps agree: the second is the index of the first by folded name.\<close>

definition name_index ::
  "(string \<Rightarrow> string) \<Rightarrow> (PlayerID \<rightharpoonup> Player) \<Rightarrow> (string \<rightharpoonup> PlayerID) \<Rightarrow> bool" where
  "name_index uni v n \<longleftrightarrow>
     (\<forall>i p. v i = Some p \<longrightarrow> p_ID p = i \<and> n (nameKey uni (p_Name p)) = Some i)
     \<and> (\<forall>k i. n k = Some i \<longrightarrow> (\<exists>p. v i = Some p \<and> nameKey uni (p_Name p) = k))"

lemma name_indexD:
  assumes "name_index uni v n" and "v i = Some p"
  shows "p_ID p = i" and "n (nameKey uni (p_Name p)) = Some i"
  using assms by (simp_all add: name_index_def)

lemma name_index_find:
  assumes "name_index uni v n" and "n k = Some i"
  obtains p where "v i = Some p" and "nameKey uni (p_Name p) = k"
  using assms unfolding name_index_def by blast

lemma name_index_missing:
  assumes "name_index uni v n" and "\<And>i p. v i = Some p \<Longrightarrow> nameKey uni (p_Name p) \<noteq> k"
  shows "n k = None"
  using assms(2) name_index_find [OF assms(1)] by (cases "n k") blast+

lemma name_indexI:
  assumes "\<And>i p. v i = Some p \<Longrightarrow> p_ID p = i \<and> n (nameKey uni (p_Name p)) = Some i"
    and "\<And>k i. n k = Some i \<Longrightarrow> \<exists>p. v i = Some p \<and> nameKey uni (p_Name p) = k"
  shows "name_index uni v n"
  unfolding name_index_def using assms by blast

lemma name_index_insert:
  assumes "name_index uni v n" and "v (p_ID p) = None" and "n (nameKey uni (p_Name p)) = None"
  shows "name_index uni (v(p_ID p \<mapsto> p)) (n(nameKey uni (p_Name p) \<mapsto> p_ID p))"
proof (rule name_indexI)
  fix i q
  assume new: "(v(p_ID p \<mapsto> p)) i = Some q"
  show "p_ID q = i \<and> (n(nameKey uni (p_Name p) \<mapsto> p_ID p)) (nameKey uni (p_Name q)) = Some i"
  proof (cases "i = p_ID p")
    case True
    with new show ?thesis by simp
  next
    case False
    with new have "v i = Some q" by simp
    from name_indexD [OF assms(1) this] assms(3) show ?thesis by fastforce
  qed
next
  fix k i
  assume new: "(n(nameKey uni (p_Name p) \<mapsto> p_ID p)) k = Some i"
  show "\<exists>q. (v(p_ID p \<mapsto> p)) i = Some q \<and> nameKey uni (p_Name q) = k"
  proof (cases "k = nameKey uni (p_Name p)")
    case True
    with new show ?thesis by simp
  next
    case False
    with new have "n k = Some i" by simp
    then obtain q where "v i = Some q" "nameKey uni (p_Name q) = k"
      by (rule name_index_find [OF assms(1)])
    with assms(2) show ?thesis by (intro exI [of _ q]) auto
  qed
qed

lemma name_index_replace:
  assumes "name_index uni v n" and "v (p_ID p) = Some q" and "p_Name p = p_Name q"
  shows "name_index uni (v(p_ID p \<mapsto> p)) n"
proof (rule name_indexI)
  fix i r
  assume "(v(p_ID p \<mapsto> p)) i = Some r"
  then show "p_ID r = i \<and> n (nameKey uni (p_Name r)) = Some i"
    using name_indexD [OF assms(1)] assms(2,3) by (cases "i = p_ID p") auto
next
  fix k i
  assume "n k = Some i"
  then obtain r where "v i = Some r" "nameKey uni (p_Name r) = k"
    by (rule name_index_find [OF assms(1)])
  then show "\<exists>r. (v(p_ID p \<mapsto> p)) i = Some r \<and> nameKey uni (p_Name r) = k"
    using assms(2,3) by (cases "i = p_ID p") auto
qed

definition mem_good :: "(string \<Rightarrow> string) \<Rightarrow> PlayerStore \<Rightarrow> bool" where
  "mem_good uni s \<longleftrightarrow>
     distinct (map fst (byID s)) \<and> name_index uni (mem_view s) (map_of (byName s))"

lemma mem_good_index: "mem_good uni s \<Longrightarrow> name_index uni (mem_view s) (map_of (byName s))"
  by (simp add: mem_good_def)

lemma map_of_update: "map_of (AList.update k v al) = (map_of al)(k \<mapsto> v)"
  by (rule update_conv')

lemma mem_Create_eq:
  "mem_Create uni p s =
     (if map_of (byName s) (nameKey uni (p_Name p)) = None
      then (None, s\<lparr>byID := AList.update (p_ID p) p (byID s),
                    byName := AList.update (nameKey uni (p_Name p)) (p_ID p) (byName s)\<rparr>)
      else (Some (Domain ErrNameTaken), s))"
  by (simp add: mem_Create_def Let_def split: option.split)

lemma mem_Create_good:
  assumes "mem_good uni s" and "mem_view s (p_ID p) = None"
  shows "mem_good uni (snd (mem_Create uni p s))"
  using assms name_index_insert [OF mem_good_index [OF assms(1)] assms(2)]
  by (simp add: mem_Create_eq mem_good_def mem_view_def map_of_update distinct_update)

lemma mem_Save_good:
  assumes "mem_good uni s" and "mem_view s (p_ID p) = Some q" and "p_Name p = p_Name q"
  shows "mem_good uni (snd (mem_Save p s))"
  using assms name_index_replace [OF mem_good_index [OF assms(1)] assms(2,3)]
  by (simp add: mem_Save_def mem_good_def mem_view_def map_of_update distinct_update)

lemma mem_less_rank: "mem_less a b \<longleftrightarrow> rank_of a < rank_of b"
  by (auto simp: mem_less_def less_rank_key_def rank_tuple_def rank_of_def less_prod_def)

lemma mem_Top_sort_key:
  "0 \<le> limit \<Longrightarrow> mem_Top limit s = Inr (take (nat limit) (sort_key rank_of (map snd (byID s))))"
  by (simp add: mem_Top_def Let_def sort_Slice_sort_key [OF mem_less_rank])

lemma byID_view:
  "mem_good uni s \<Longrightarrow> p \<in> set (map snd (byID s)) \<longleftrightarrow> (\<exists>i. mem_view s i = Some p)"
  by (force simp: mem_good_def mem_view_def)

lemma byID_distinct:
  assumes "mem_good uni s"
  shows "distinct (map snd (byID s))"
proof -
  have names: "p_ID p = i" if "(i, p) \<in> set (byID s)" for i p
    using that assms name_indexD(1) [OF mem_good_index [OF assms], of i p]
    by (simp add: mem_good_def mem_view_def)
  then have "map p_ID (map snd (byID s)) = map fst (byID s)" by auto
  moreover have "distinct (map fst (byID s))" using assms by (simp add: mem_good_def)
  ultimately have "distinct (map p_ID (map snd (byID s)))" by (simp only:)
  then show ?thesis unfolding distinct_map [of p_ID] by blast
qed

section \<open>match_store.go\<close>

record MemMatchStore =
  records :: "(MatchID \<times> MatchRecord) list"

definition NewMatchStore :: MemMatchStore where
  "NewMatchStore = \<lparr>records = []\<rparr>"

definition mem_SaveMatch :: "MatchRecord \<Rightarrow> MemMatchStore \<Rightarrow> goerr option \<times> MemMatchStore" where
  "mem_SaveMatch r s = (None, s\<lparr>records := AList.update (r_ID r) r (records s)\<rparr>)"

definition mem_MatchByID :: "MatchID \<Rightarrow> MemMatchStore \<Rightarrow> goerr + MatchRecord option" where
  "mem_MatchByID i s = Inr (map_of (records s) i)"

definition mem_stored :: "MemMatchStore \<Rightarrow> MatchID \<Rightarrow> MatchRecord option" where
  "mem_stored s = map_of (records s)"

section \<open>The stores keep their contracts\<close>

text \<open>Both stores together, as the tests of the transport wire them.\<close>

record MemStores =
  st_players :: PlayerStore
  st_matches :: MemMatchStore

definition NewStores :: MemStores where
  "NewStores = \<lparr>st_players = NewPlayerStore, st_matches = NewMatchStore\<rparr>"

definition mem_backend :: "(string \<Rightarrow> string) \<Rightarrow> MemStores Backend" where
  "mem_backend uni =
     \<lparr>bk_Create = (\<lambda>p s. case mem_Create uni p (st_players s) of (e, t) \<Rightarrow> (e, s\<lparr>st_players := t\<rparr>)),
      bk_ByName = (\<lambda>n s. mem_ByName uni n (st_players s)),
      bk_ByID = (\<lambda>i s. mem_ByID i (st_players s)),
      bk_Save = (\<lambda>p s. case mem_Save p (st_players s) of (e, t) \<Rightarrow> (e, s\<lparr>st_players := t\<rparr>)),
      bk_Top = (\<lambda>limit s. mem_Top limit (st_players s)),
      bk_SaveMatch = (\<lambda>r s. case mem_SaveMatch r (st_matches s) of (e, t) \<Rightarrow> (e, s\<lparr>st_matches := t\<rparr>)),
      bk_MatchByID = (\<lambda>i s. mem_MatchByID i (st_matches s))\<rparr>"

definition mem_ok :: "(string \<Rightarrow> string) \<Rightarrow> MemStores \<Rightarrow> bool" where
  "mem_ok uni s \<longleftrightarrow> mem_good uni (st_players s)"

definition mem_listing :: "MemStores \<Rightarrow> Player list" where
  "mem_listing s = map snd (byID (st_players s))"

lemma mem_backend_view [simp]:
  "bk_view (mem_backend uni) s = mem_view (st_players s)"
  "bk_stored (mem_backend uni) s = mem_stored (st_matches s)"
  by (auto simp: bk_view_def bk_stored_def mem_backend_def mem_ByID_def mem_copyOf_def mem_view_def
      mem_MatchByID_def mem_stored_def fun_eq_iff split: option.split)

lemma mem_ByName_found:
  assumes "mem_good uni s" and "mem_view s i = Some p" and "nameKey uni (p_Name p) = nameKey uni n"
  shows "mem_ByName uni n s = Inr p"
proof -
  have "map_of (byName s) (nameKey uni n) = Some i"
    using name_indexD(2) [OF mem_good_index [OF assms(1)] assms(2)] assms(3) by simp
  with assms(2) show ?thesis by (simp add: mem_ByName_def mem_copyOf_def mem_view_def)
qed

lemma mem_ByName_missing:
  assumes "mem_good uni s" and "\<And>i p. mem_view s i = Some p \<Longrightarrow> nameKey uni (p_Name p) \<noteq> nameKey uni n"
  shows "mem_ByName uni n s = Inl (Domain ErrPlayerNotFound)"
proof -
  have "map_of (byName s) (nameKey uni n) = None"
    using assms(2) by (rule name_index_missing [OF mem_good_index [OF assms(1)]])
  then show ?thesis by (simp add: mem_ByName_def)
qed

lemma mem_Create_taken:
  assumes "mem_good uni s" and "mem_view s i = Some q"
    and "nameKey uni (p_Name q) = nameKey uni (p_Name p)"
  shows "mem_Create uni p s = (Some (Domain ErrNameTaken), s)"
  using name_indexD(2) [OF mem_good_index [OF assms(1)] assms(2)] assms(3) by (simp add: mem_Create_eq)

lemma mem_Create_free:
  assumes "mem_good uni s" and "mem_view s (p_ID p) = None"
    and "\<And>i q. mem_view s i = Some q \<Longrightarrow> nameKey uni (p_Name q) \<noteq> nameKey uni (p_Name p)"
  shows "fst (mem_Create uni p s) = None"
    and "mem_view (snd (mem_Create uni p s)) = (mem_view s)(p_ID p \<mapsto> p)"
proof -
  have "map_of (byName s) (nameKey uni (p_Name p)) = None"
    using assms(3) by (rule name_index_missing [OF mem_good_index [OF assms(1)]])
  then show "fst (mem_Create uni p s) = None"
    "mem_view (snd (mem_Create uni p s)) = (mem_view s)(p_ID p \<mapsto> p)"
    by (simp_all add: mem_Create_eq mem_view_def map_of_update)
qed

lemma mem_backend_sel:
  "bk_Create (mem_backend uni) p s =
     (case mem_Create uni p (st_players s) of (e, t) \<Rightarrow> (e, s\<lparr>st_players := t\<rparr>))"
  "bk_ByName (mem_backend uni) n s = mem_ByName uni n (st_players s)"
  "bk_ByID (mem_backend uni) i s =
     (case mem_view (st_players s) i of None \<Rightarrow> Inl (Domain ErrPlayerNotFound) | Some p \<Rightarrow> Inr p)"
  "bk_Save (mem_backend uni) p s =
     (case mem_Save p (st_players s) of (e, t) \<Rightarrow> (e, s\<lparr>st_players := t\<rparr>))"
  "bk_Top (mem_backend uni) limit s = mem_Top limit (st_players s)"
  "bk_SaveMatch (mem_backend uni) r s = (None, s\<lparr>st_matches := snd (mem_SaveMatch r (st_matches s))\<rparr>)"
  "bk_MatchByID (mem_backend uni) i s = Inr (mem_stored (st_matches s) i)"
  by (simp_all add: mem_backend_def mem_ByID_def mem_copyOf_def mem_view_def mem_SaveMatch_def
      mem_MatchByID_def mem_stored_def)

interpretation mem_stores: backend "mem_backend uni" "nameKey uni" "mem_ok uni" mem_listing for uni
proof (unfold_locales, goal_cases)
  case (1 w i)
  show ?case by (simp add: mem_backend_sel mem_ok_def)
next
  case (2 w i p)
  then show ?case using name_indexD(1) [OF mem_good_index] by (simp add: mem_ok_def)
next
  case (3 w p q)
  then show ?case
    using mem_Save_good [of uni "st_players w" p q]
    by (simp add: mem_backend_sel mem_ok_def mem_Save_def mem_view_def map_of_update)
next
  case (4 w p)
  then show ?case by (simp add: mem_backend_sel mem_ok_def mem_Save_def mem_view_def)
next
  case (5 w i p n)
  then show ?case using mem_ByName_found by (simp add: mem_backend_sel mem_ok_def)
next
  case (6 w n)
  then show ?case using mem_ByName_missing [of uni "st_players w" n] by (simp add: mem_backend_sel mem_ok_def)
next
  case (7 w i q p)
  then show ?case using mem_Create_taken [of uni "st_players w" i q p] by (simp add: mem_backend_sel mem_ok_def)
next
  case (8 w p)
  then show ?case
    using mem_Create_free [of uni "st_players w" p] mem_Create_good [of uni "st_players w" p]
    by (auto simp: mem_backend_sel mem_ok_def split: prod.split)
next
  case (9 w r)
  then show ?case by (simp add: mem_backend_sel mem_ok_def mem_SaveMatch_def mem_stored_def map_of_update)
next
  case (10 w i)
  show ?case by (simp add: mem_backend_sel mem_ok_def)
next
  case (11 w limit)
  then show ?case by (simp add: mem_backend_sel mem_ok_def mem_listing_def mem_Top_sort_key)
next
  case (16 s)
  then show ?case
    using byID_distinct [of uni "st_players s"] byID_view [of uni "st_players s"]
    by (auto simp: mem_ok_def mem_listing_def ran_def)
qed (simp_all add: mem_backend_sel mem_ok_def split: prod.split)

end
