(* ===== verification/Auth_Model.thy ===== *)
theory Auth_Model
  imports Memory_Stores
begin

text \<open>
  \<open>internal/usecase/auth.go\<close>: registration, login and the authentication of a token, over the
  interfaces \<open>PlayerRegistry\<close>, \<open>Hasher\<close>, \<open>TokenIssuer\<close> and \<open>IDGenerator\<close>.
\<close>

record 'w AuthDeps =
  au_players :: "'w PlayerRegistry"
  au_hasher :: "'w Hasher"
  au_tokens :: "'w TokenIssuer"
  au_ids :: "'w IDGenerator"

definition Auth_Register ::
  "'w AuthDeps \<Rightarrow> string \<Rightarrow> string \<Rightarrow> 'w \<Rightarrow> (goerr + string) \<times> 'w" where
  "Auth_Register a name password w =
     (case NormalizeName name of
        Inl e \<Rightarrow> (Inl (Domain e), w)
      | Inr name \<Rightarrow>
      if length password < MinPasswordLength then (Inl (Domain ErrPasswordTooShort), w)
      else if length password > MaxPasswordLength then (Inl (Domain ErrPasswordTooLong), w)
      else
      case reg_ByName (au_players a) name w of
        Inr taken \<Rightarrow> (Inl (Domain ErrNameTaken), w)
      | Inl err \<Rightarrow>
      if \<not> errors_Is err ErrPlayerNotFound then (Inl err, w)
      else
      case h_Hash (au_hasher a) password w of
        (Inl e, w1) \<Rightarrow> (Inl e, w1)
      | (Inr hash, w1) \<Rightarrow>
      case g_NewID (au_ids a) w1 of (pid, w2) \<Rightarrow>
      case NewPlayer pid name hash of
        Inl e \<Rightarrow> (Inl (Domain e), w2)
      | Inr p \<Rightarrow>
      case reg_Create (au_players a) p w2 of
        (Some e, w3) \<Rightarrow> (Inl e, w3)
      | (None, w3) \<Rightarrow> (t_Issue (au_tokens a) (p_ID p) w3, w3))"

definition Auth_Login :: "'w AuthDeps \<Rightarrow> string \<Rightarrow> string \<Rightarrow> 'w \<Rightarrow> goerr + string" where
  "Auth_Login a name password w =
     (case NormalizeName name of
        Inl e \<Rightarrow> Inl (Domain ErrInvalidCredentials)
      | Inr name \<Rightarrow>
      case reg_ByName (au_players a) name w of
        Inl err \<Rightarrow>
          if errors_Is err ErrPlayerNotFound then Inl (Domain ErrInvalidCredentials) else Inl err
      | Inr p \<Rightarrow>
      case h_Compare (au_hasher a) (p_PasswordHash p) password of
        Some err \<Rightarrow> Inl (Domain ErrInvalidCredentials)
      | None \<Rightarrow> t_Issue (au_tokens a) (p_ID p) w)"

definition Auth_Authenticate :: "'w AuthDeps \<Rightarrow> string \<Rightarrow> 'w \<Rightarrow> goerr + PlayerID" where
  "Auth_Authenticate a token w =
     (case t_Verify (au_tokens a) token w of
        Inl err \<Rightarrow> Inl (Domain ErrInvalidToken)
      | Inr i \<Rightarrow> Inr i)"

text \<open>The rule for passwords.\<close>

definition password_ok :: "string \<Rightarrow> bool" where
  "password_ok pw \<longleftrightarrow> MinPasswordLength \<le> length pw \<and> length pw \<le> MaxPasswordLength"

end
