(* ===== verification/Games_Model.thy ===== *)
theory Games_Model
  imports Ports
begin

text \<open>
  \<open>internal/usecase/games.go\<close>: the service that owns every match in progress.

  The Go struct \<open>Games\<close> is split into its mutable maps (the record \<open>Games\<close>) and its
  collaborators (\<open>GamesDeps\<close>), which act on a state \<open>'w\<close> of their own. Every operation is one
  function from the pair of both states to the pair it leaves; the order of the calls is the
  order of the source. \<open>active\<close> maps to pointers in Go: \<open>ApplyMove\<close> mutates the match the map
  points at, so the model stores the match \<open>ApplyMove\<close> leaves back under its key.

  The file holds the definitions, the invariant of the two maps (\<open>games_inv\<close>) and its
  preservation by every operation.
\<close>

record activeMatch =
  am_match :: Match
  am_names :: "PlayerID \<rightharpoonup> string"

record Games =
  active :: "MatchID \<rightharpoonup> activeMatch"
  byPlayer :: "PlayerID \<rightharpoonup> MatchID"

record 'w GamesDeps =
  d_matches :: "'w MatchStore"
  d_players :: "'w PlayerRecorder"
  d_notifier :: "'w Notifier"
  d_ids :: "'w IDGenerator"
  d_log :: "'w Logger"

record addressed =
  a_to :: PlayerID
  a_ev :: Event

record result =
  res_player :: PlayerID
  res_outcome :: Outcome

definition NewGames :: Games where
  "NewGames = \<lparr>active = Map.empty, byPlayer = Map.empty\<rparr>"

section \<open>Snapshots\<close>

definition am_name :: "activeMatch \<Rightarrow> PlayerID \<Rightarrow> string" where
  "am_name am p = (case am_names am p of None \<Rightarrow> [] | Some n \<Rightarrow> n)"

definition am_stateFor :: "activeMatch \<Rightarrow> PlayerID \<Rightarrow> MatchState" where
  "am_stateFor am p =
     (let m = am_match am; mark = fst (Match_MarkOf m p)
      in \<lparr>s_MatchID = Match_ID m, s_Cells = Match_Board m, s_YourMark = mark,
          s_Turn = Match_Turn m, s_Status = Match_Status m, s_Outcome = Match_OutcomeFor m p,
          s_Opponent = am_name am (Match_Opponent m p)\<rparr>)"

definition am_events :: "activeMatch \<Rightarrow> EventType \<Rightarrow> addressed list" where
  "am_events am t =
     (let m = am_match am; px = Match_PlayerOf m X; po = Match_PlayerOf m Mark.O
      in [\<lparr>a_to = px, a_ev = \<lparr>ev_Type = t, ev_MatchID = Match_ID m, ev_State = am_stateFor am px\<rparr>\<rparr>,
          \<lparr>a_to = po, a_ev = \<lparr>ev_Type = t, ev_MatchID = Match_ID m, ev_State = am_stateFor am po\<rparr>\<rparr>])"

definition am_record :: "activeMatch \<Rightarrow> MatchRecord" where
  "am_record am =
     (let m = am_match am
      in \<lparr>r_ID = Match_ID m, r_X = Match_PlayerOf m X, r_O = Match_PlayerOf m Mark.O,
          r_Status = Match_Status m, r_Moves = Match_Moves m\<rparr>)"

definition am_results :: "activeMatch \<Rightarrow> result list" where
  "am_results am =
     (let m = am_match am; px = Match_PlayerOf m X; po = Match_PlayerOf m Mark.O
      in [\<lparr>res_player = px, res_outcome = Match_OutcomeFor m px\<rparr>,
          \<lparr>res_player = po, res_outcome = Match_OutcomeFor m po\<rparr>])"

section \<open>The maps\<close>

definition Games_lookup :: "Games \<Rightarrow> PlayerID \<Rightarrow> activeMatch option" where
  "Games_lookup g p =
     (case byPlayer g p of None \<Rightarrow> None | Some mid \<Rightarrow> active g mid)"

definition Games_forget :: "Games \<Rightarrow> activeMatch \<Rightarrow> Games" where
  "Games_forget g am =
     (let m = am_match am
      in g\<lparr>active := (active g)(Match_ID m := None),
           byPlayer := (byPlayer g)(Match_PlayerOf m X := None, Match_PlayerOf m Mark.O := None)\<rparr>)"

section \<open>Effects on the collaborators\<close>

definition Games_dispatch :: "'w GamesDeps \<Rightarrow> addressed list \<Rightarrow> 'w \<Rightarrow> 'w" where
  "Games_dispatch d evs w = fold (\<lambda>e. n_Notify (d_notifier d) (a_to e) (a_ev e)) evs w"

definition Games_persist :: "'w GamesDeps \<Rightarrow> MatchRecord \<Rightarrow> 'w \<Rightarrow> 'w" where
  "Games_persist d r w =
     (case ms_Save (d_matches d) r w of
        (None, w1) \<Rightarrow> w1
      | (Some e, w1) \<Rightarrow> log_Error (d_log d) ''save match'' (r_ID r) e w1)"

definition Games_record :: "'w GamesDeps \<Rightarrow> result \<Rightarrow> 'w \<Rightarrow> 'w" where
  "Games_record d r w =
     (case rec_ByID (d_players d) (res_player r) w of
        Inl e \<Rightarrow> log_Error (d_log d) ''load player for stats'' (res_player r) e w
      | Inr p \<Rightarrow>
          (case rec_Save (d_players d) (Player_Record p (res_outcome r)) w of
             (None, w1) \<Rightarrow> w1
           | (Some e, w1) \<Rightarrow> log_Error (d_log d) ''save player stats'' (res_player r) e w1))"

section \<open>The operations\<close>

definition Games_Start ::
  "'w GamesDeps \<Rightarrow> PlayerID \<Rightarrow> PlayerID \<Rightarrow> Games \<times> 'w \<Rightarrow> goerr option \<times> Games \<times> 'w" where
  "Games_Start d px po gw =
     (case gw of (g, w) \<Rightarrow>
      case rec_ByID (d_players d) px w of
        Inl e \<Rightarrow> (Some e, g, w)
      | Inr xPlayer \<Rightarrow>
      case rec_ByID (d_players d) po w of
        Inl e \<Rightarrow> (Some e, g, w)
      | Inr oPlayer \<Rightarrow>
      case g_NewID (d_ids d) w of (mid, w1) \<Rightarrow>
      case NewMatch mid px po of
        Inl e \<Rightarrow> (Some (Domain e), g, w1)
      | Inr m \<Rightarrow>
          (let am = \<lparr>am_match = m, am_names = [px \<mapsto> p_Name xPlayer, po \<mapsto> p_Name oPlayer]\<rparr>
           in if byPlayer g px \<noteq> None then (Some (Domain ErrAlreadyInMatch), g, w1)
              else if byPlayer g po \<noteq> None then (Some (Domain ErrAlreadyInMatch), g, w1)
              else (let g1 = g\<lparr>active := (active g)(Match_ID m \<mapsto> am)\<rparr>;
                        g2 = g1\<lparr>byPlayer := (byPlayer g1)(px \<mapsto> Match_ID m, po \<mapsto> Match_ID m)\<rparr>;
                        r = am_record am; evs = am_events am EventMatchStarted;
                        w2 = Games_persist d r w1
                    in (None, g2, Games_dispatch d evs w2))))"

definition Games_Move ::
  "'w GamesDeps \<Rightarrow> PlayerID \<Rightarrow> int \<Rightarrow> Games \<times> 'w \<Rightarrow> (goerr + MatchState) \<times> Games \<times> 'w" where
  "Games_Move d p cell gw =
     (case gw of (g, w) \<Rightarrow>
      case byPlayer g p of
        None \<Rightarrow> (Inl (Domain ErrNoActiveMatch), g, w)
      | Some mid \<Rightarrow>
      case active g mid of
        None \<Rightarrow> (Inl (Domain ErrNoActiveMatch), g, w)
      | Some am \<Rightarrow>
      case Match_ApplyMove (am_match am) p cell of
        (Some e, m1) \<Rightarrow>
          (Inl (Domain e), g\<lparr>active := (active g)(mid \<mapsto> am\<lparr>am_match := m1\<rparr>)\<rparr>, w)
      | (None, m1) \<Rightarrow>
          (let am1 = am\<lparr>am_match := m1\<rparr>;
               g1 = g\<lparr>active := (active g)(mid \<mapsto> am1)\<rparr>;
               finished = Status_IsFinished (Match_Status m1);
               evType = (if finished then EventMatchEnded else EventStateChanged);
               results = (if finished then am_results am1 else []);
               g2 = (if finished then Games_forget g1 am1 else g1);
               r = am_record am1; evs = am_events am1 evType;
               st = am_stateFor am1 p;
               w1 = Games_persist d r w;
               w2 = fold (Games_record d) results w1
           in (Inr st, g2, Games_dispatch d evs w2)))"

definition Games_State :: "PlayerID \<Rightarrow> Games \<Rightarrow> goerr + MatchState" where
  "Games_State p g =
     (case Games_lookup g p of
        None \<Rightarrow> Inl (Domain ErrNoActiveMatch)
      | Some am \<Rightarrow> Inr (am_stateFor am p))"

definition Games_InMatch :: "PlayerID \<Rightarrow> Games \<Rightarrow> bool" where
  "Games_InMatch p g \<longleftrightarrow> byPlayer g p \<noteq> None"

definition Games_Abandon :: "'w GamesDeps \<Rightarrow> PlayerID \<Rightarrow> Games \<times> 'w \<Rightarrow> Games \<times> 'w" where
  "Games_Abandon d p gw =
     (case gw of (g, w) \<Rightarrow>
      case Games_lookup g p of
        None \<Rightarrow> (g, w)
      | Some am \<Rightarrow>
          (let opponent = Match_Opponent (am_match am) p;
               ev = \<lparr>ev_Type = EventOpponentLeft, ev_MatchID = Match_ID (am_match am),
                     ev_State = am_stateFor am opponent\<rparr>
           in (Games_forget g am, n_Notify (d_notifier d) opponent ev w)))"

section \<open>The invariant\<close>

definition am_X :: "activeMatch \<Rightarrow> PlayerID" where
  "am_X am = Match_PlayerOf (am_match am) X"

definition am_O :: "activeMatch \<Rightarrow> PlayerID" where
  "am_O am = Match_PlayerOf (am_match am) Mark.O"

definition live :: "MatchID \<Rightarrow> activeMatch \<Rightarrow> bool" where
  "live mid am \<longleftrightarrow>
     reachable_match mid (am_X am) (am_O am) (am_match am)
     \<and> \<not> Status_IsFinished (m_status (am_match am))
     \<and> dom (am_names am) = {am_X am, am_O am}"

text \<open>
  Every match in the table is a legal, unfinished game under its own id, and the second map is
  exactly the index of the first by participant.
\<close>

definition games_inv :: "Games \<Rightarrow> bool" where
  "games_inv g \<longleftrightarrow>
     (\<forall>mid am. active g mid = Some am \<longrightarrow>
        live mid am \<and> byPlayer g (am_X am) = Some mid \<and> byPlayer g (am_O am) = Some mid)
     \<and> (\<forall>p mid. byPlayer g p = Some mid \<longrightarrow>
        (\<exists>am. active g mid = Some am \<and> (p = am_X am \<or> p = am_O am)))"

lemma games_invI:
  assumes "\<And>mid am. active g mid = Some am \<Longrightarrow>
      live mid am \<and> byPlayer g (am_X am) = Some mid \<and> byPlayer g (am_O am) = Some mid"
    and "\<And>p mid. byPlayer g p = Some mid \<Longrightarrow>
      \<exists>am. active g mid = Some am \<and> (p = am_X am \<or> p = am_O am)"
  shows "games_inv g"
  unfolding games_inv_def using assms by blast

lemma games_inv_active:
  assumes "games_inv g" and "active g mid = Some am"
  shows "live mid am" and "byPlayer g (am_X am) = Some mid" and "byPlayer g (am_O am) = Some mid"
  using assms unfolding games_inv_def by blast+

lemma games_inv_player:
  assumes "games_inv g" and "byPlayer g p = Some mid"
  obtains am where "active g mid = Some am" and "p = am_X am \<or> p = am_O am"
  using assms unfolding games_inv_def by blast

lemma index_players:
  assumes "games_inv g" and "active g mid = Some am"
  shows "byPlayer g p = Some mid \<longleftrightarrow> p = am_X am \<or> p = am_O am"
proof
  assume p: "byPlayer g p = Some mid"
  obtain am' where "active g mid = Some am'" "p = am_X am' \<or> p = am_O am'"
    using games_inv_player [OF assms(1) p] .
  with assms(2) show "p = am_X am \<or> p = am_O am" by simp
qed (use games_inv_active(2,3) [OF assms] in auto)

lemma NewGames_free [simp]: "\<not> Games_InMatch p NewGames"
  by (simp add: Games_InMatch_def NewGames_def)

lemma games_inv_new [simp]: "games_inv NewGames"
  by (rule games_invI) (simp_all add: NewGames_def)

text \<open>A live match is a legal game that is not decided yet.\<close>

lemma live_legal:
  assumes "live mid am"
  obtains hs where "legal hs" and "\<not> decided hs" and "am_X am \<noteq> am_O am"
    and "am_match am = match_of mid (am_X am) (am_O am) hs"
proof -
  from assms obtain hs where "am_X am \<noteq> am_O am" "legal hs"
    "am_match am = match_of mid (am_X am) (am_O am) hs"
    unfolding live_def by (blast elim: reachable_legal)
  with assms that show thesis by (auto simp: live_def status_of_decided)
qed

lemma live_players: "live mid am \<Longrightarrow> two_players (am_match am) (am_X am) (am_O am)"
  by (auto simp: live_def intro: reachable_two_players)

lemma live_id: "live mid am \<Longrightarrow> m_id (am_match am) = mid"
  by (auto simp: live_def intro: reachable_id)

lemma lookup_Some:
  assumes "games_inv g" and "Games_lookup g p = Some am"
  obtains mid where "byPlayer g p = Some mid" and "active g mid = Some am" and "live mid am"
    and "p = am_X am \<or> p = am_O am"
proof -
  from assms(2) obtain mid where mid: "byPlayer g p = Some mid" "active g mid = Some am"
    by (auto simp: Games_lookup_def split: option.splits)
  moreover obtain am' where "active g mid = Some am'" "p = am_X am' \<or> p = am_O am'"
    using games_inv_player [OF assms(1) mid(1)] .
  ultimately show thesis using that games_inv_active(1) [OF assms(1)] by simp
qed

lemma lookup_None: "games_inv g \<Longrightarrow> Games_lookup g p = None \<longleftrightarrow> byPlayer g p = None"
  by (auto simp: Games_lookup_def split: option.split elim: games_inv_player)

lemma lookup_InMatch: "games_inv g \<Longrightarrow> Games_InMatch p g \<longleftrightarrow> Games_lookup g p \<noteq> None"
  by (simp add: Games_InMatch_def lookup_None)

section \<open>Preservation\<close>

lemma forget_unfold:
  "Games_forget g am =
     g\<lparr>active := (active g)(m_id (am_match am) := None),
       byPlayer := (byPlayer g)(am_X am := None, am_O am := None)\<rparr>"
  by (simp add: Games_forget_def am_X_def am_O_def Match_ID_def Let_def)

lemma forget_inv:
  assumes inv: "games_inv g" and "active g mid = Some am"
  shows "games_inv (Games_forget g am)"
proof -
  have mid: "m_id (am_match am) = mid"
    using live_id games_inv_active(1) assms by blast
  show ?thesis
  proof (rule games_invI)
    fix mid' am'
    assume "active (Games_forget g am) mid' = Some am'"
    then have other: "active g mid' = Some am'" "mid' \<noteq> mid"
      by (auto simp: forget_unfold mid split: if_splits)
    then have "am_X am' \<notin> {am_X am, am_O am}" "am_O am' \<notin> {am_X am, am_O am}"
      using games_inv_active(2,3) [OF inv other(1)] games_inv_active(2,3) [OF inv assms(2)] by auto
    with games_inv_active [OF inv other(1)]
    show "live mid' am' \<and> byPlayer (Games_forget g am) (am_X am') = Some mid'
        \<and> byPlayer (Games_forget g am) (am_O am') = Some mid'"
      by (simp add: forget_unfold)
  next
    fix p mid'
    assume "byPlayer (Games_forget g am) p = Some mid'"
    then have p: "byPlayer g p = Some mid'" "p \<noteq> am_X am" "p \<noteq> am_O am"
      by (auto simp: forget_unfold split: if_splits)
    from games_inv_player [OF inv p(1)] obtain am' where
      am': "active g mid' = Some am'" "p = am_X am' \<or> p = am_O am'" .
    with p(2,3) assms(2) have "mid' \<noteq> mid" by auto
    with am' show "\<exists>am'. active (Games_forget g am) mid' = Some am' \<and> (p = am_X am' \<or> p = am_O am')"
      by (simp add: forget_unfold mid)
  qed
qed

lemma update_inv:
  assumes inv: "games_inv g" and old: "active g mid = Some am"
    and new: "live mid am'" "am_X am' = am_X am" "am_O am' = am_O am"
  shows "games_inv (g\<lparr>active := (active g)(mid \<mapsto> am')\<rparr>)"
proof (rule games_invI)
  fix mid2 am2
  assume "active (g\<lparr>active := (active g)(mid \<mapsto> am')\<rparr>) mid2 = Some am2"
  then show "live mid2 am2 \<and> byPlayer (g\<lparr>active := (active g)(mid \<mapsto> am')\<rparr>) (am_X am2) = Some mid2
      \<and> byPlayer (g\<lparr>active := (active g)(mid \<mapsto> am')\<rparr>) (am_O am2) = Some mid2"
    using games_inv_active [OF inv] old new by (cases "mid2 = mid") auto
next
  fix p mid2
  assume "byPlayer (g\<lparr>active := (active g)(mid \<mapsto> am')\<rparr>) p = Some mid2"
  then have "byPlayer g p = Some mid2" by simp
  from games_inv_player [OF inv this] obtain am2 where
    "active g mid2 = Some am2" "p = am_X am2 \<or> p = am_O am2" .
  then show "\<exists>am. active (g\<lparr>active := (active g)(mid \<mapsto> am')\<rparr>) mid2 = Some am
      \<and> (p = am_X am \<or> p = am_O am)"
    using old new by (cases "mid2 = mid") auto
qed

lemma insert_inv:
  assumes inv: "games_inv g" and fresh: "active g mid = None" and new: "live mid am"
    and free: "byPlayer g (am_X am) = None" "byPlayer g (am_O am) = None"
  shows "games_inv (g\<lparr>active := (active g)(mid \<mapsto> am),
                      byPlayer := (byPlayer g)(am_X am \<mapsto> mid, am_O am \<mapsto> mid)\<rparr>)"
    (is "games_inv ?g")
proof (rule games_invI)
  fix mid' am'
  assume "active ?g mid' = Some am'"
  then consider (new) "mid' = mid" "am' = am" | (old) "mid' \<noteq> mid" "active g mid' = Some am'"
    by (auto split: if_splits)
  then show "live mid' am' \<and> byPlayer ?g (am_X am') = Some mid' \<and> byPlayer ?g (am_O am') = Some mid'"
  proof cases
    case new
    with \<open>live mid am\<close> show ?thesis by simp
  next
    case old
    note am' = games_inv_active [OF inv old(2)]
    with free have "am_X am' \<notin> {am_X am, am_O am}" "am_O am' \<notin> {am_X am, am_O am}"
      by auto
    with am' show ?thesis by simp
  qed
next
  fix p mid'
  assume p: "byPlayer ?g p = Some mid'"
  show "\<exists>am'. active ?g mid' = Some am' \<and> (p = am_X am' \<or> p = am_O am')"
  proof (cases "p = am_X am \<or> p = am_O am")
    case True
    with p have "mid' = mid" by (auto split: if_splits)
    with True show ?thesis by simp
  next
    case False
    with p have old: "byPlayer g p = Some mid'" by simp
    from games_inv_player [OF inv this] obtain am' where
      am': "active g mid' = Some am'" "p = am_X am' \<or> p = am_O am'" .
    with fresh have "mid' \<noteq> mid" by auto
    with am' show ?thesis by simp
  qed
qed

end
