(* ===== verification/Games_Props.thy ===== *)
theory Games_Props
  imports Games_Model
begin

text \<open>
  What each operation of the game service does to the two maps: one equation per branch of the
  source, the preservation of \<open>games_inv\<close>, and the frame (no operation touches a match its
  player is not in).
\<close>

section \<open>Start\<close>

definition started :: "MatchID \<Rightarrow> Player \<Rightarrow> Player \<Rightarrow> PlayerID \<Rightarrow> PlayerID \<Rightarrow> activeMatch" where
  "started mid xp op px po =
     \<lparr>am_match = match_of mid px po [], am_names = [px \<mapsto> p_Name xp, po \<mapsto> p_Name op]\<rparr>"

lemma started_sel [simp]:
  "am_match (started mid xp op px po) = match_of mid px po []"
  "am_X (started mid xp op px po) = px" "am_O (started mid xp op px po) = po"
  "am_names (started mid xp op px po) = [px \<mapsto> p_Name xp, po \<mapsto> p_Name op]"
  by (simp_all add: started_def am_X_def am_O_def)

lemma started_live: "px \<noteq> po \<Longrightarrow> live mid (started mid xp op px po)"
  using legal_reachable [OF legal_Nil] status_of_decided [of "[]"] by (auto simp: live_def)

lemma Start_ok:
  assumes "rec_ByID (d_players d) px w = Inr xp" and "rec_ByID (d_players d) po w = Inr op"
    and "g_NewID (d_ids d) w = (mid, w1)" and "px \<noteq> po"
    and "\<not> Games_InMatch px g" and "\<not> Games_InMatch po g"
  shows "Games_Start d px po (g, w) =
     (None,
      g\<lparr>active := (active g)(mid \<mapsto> started mid xp op px po),
        byPlayer := (byPlayer g)(px \<mapsto> mid, po \<mapsto> mid)\<rparr>,
      Games_dispatch d (am_events (started mid xp op px po) EventMatchStarted)
        (Games_persist d (am_record (started mid xp op px po)) w1))"
  using assms
  by (simp add: Games_Start_def NewMatch_match_of Games_InMatch_def Match_ID_def Let_def started_def)

text \<open>The error branches, in the order of the source; none of them changes the maps.\<close>

lemma Start_error_frame: "Games_Start d px po (g, w) = (Some e, g', w') \<Longrightarrow> g' = g"
  by (auto simp: Games_Start_def Let_def split: sum.splits prod.splits if_splits)

lemma Start_success:
  assumes "Games_Start d px po (g, w) = (None, g', w')"
  obtains xp op mid w1 where
    "rec_ByID (d_players d) px w = Inr xp" "rec_ByID (d_players d) po w = Inr op"
    "g_NewID (d_ids d) w = (mid, w1)" "px \<noteq> po" "\<not> Games_InMatch px g" "\<not> Games_InMatch po g"
proof -
  obtain mid w1 where id: "g_NewID (d_ids d) w = (mid, w1)" by fastforce
  with assms that show thesis
    by (auto simp: Games_Start_def Let_def NewMatch_def Games_InMatch_def
        split: sum.splits if_splits)
qed

lemma Start_inv:
  assumes "games_inv g" and "active g (fst (g_NewID (d_ids d) w)) = None"
    and "Games_Start d px po (g, w) = (e, g', w')"
  shows "games_inv g'"
proof (cases e)
  case None
  with assms(3) obtain xp op mid w1 where ok:
    "rec_ByID (d_players d) px w = Inr xp" "rec_ByID (d_players d) po w = Inr op"
    "g_NewID (d_ids d) w = (mid, w1)" "px \<noteq> po" "\<not> Games_InMatch px g" "\<not> Games_InMatch po g"
    by (auto elim: Start_success)
  with insert_inv [OF assms(1), of mid "started mid xp op px po"] started_live [of px po mid xp op]
  show ?thesis
    using assms(2,3) Start_ok [OF ok] by (auto simp: Games_InMatch_def)
next
  case (Some e')
  from Start_error_frame [OF assms(3) [unfolded Some]] assms(1) show ?thesis by simp
qed

section \<open>Move\<close>

abbreviation after_move :: "activeMatch \<Rightarrow> Match \<Rightarrow> activeMatch" where
  "after_move am m1 \<equiv> am\<lparr>am_match := m1\<rparr>"

lemma after_move_players:
  assumes "Match_ApplyMove (am_match am) p c = (e, m1)"
  shows "am_X (after_move am m1) = am_X am" "am_O (after_move am m1) = am_O am"
    "m_id m1 = m_id (am_match am)"
  using ApplyMove_frame [OF assms] by (simp_all add: am_X_def am_O_def Match_PlayerOf_def)

lemma after_move_live:
  assumes "live mid am" and "Match_ApplyMove (am_match am) p c = (e, m1)"
    and "\<not> Status_IsFinished (m_status m1)"
  shows "live mid (after_move am m1)"
  using assms reachable_match.move [OF _ assms(2)] after_move_players [OF assms(2)]
  by (simp add: live_def)

lemma Move_None:
  "Games_lookup g p = None \<Longrightarrow>
   Games_Move d p c (g, w) = (Inl (Domain ErrNoActiveMatch), g, w)"
  by (simp add: Games_Move_def Games_lookup_def split: option.splits)

lemma Move_error:
  assumes "Games_lookup g p = Some am" and "Match_ApplyMove (am_match am) p c = (Some e, m1)"
  shows "Games_Move d p c (g, w) = (Inl (Domain e), g, w)"
proof -
  have "m1 = am_match am" by (rule ApplyMove_error [OF assms(2)])
  then show ?thesis
    using assms by (auto simp: Games_Move_def Games_lookup_def fun_upd_idem split: option.splits)
qed

definition move_effect ::
  "'w GamesDeps \<Rightarrow> activeMatch \<Rightarrow> EventType \<Rightarrow> result list \<Rightarrow> 'w \<Rightarrow> 'w" where
  "move_effect d am t results w =
     Games_dispatch d (am_events am t) (fold (Games_record d) results (Games_persist d (am_record am) w))"

lemma Move_running:
  assumes "Games_lookup g p = Some am" and "byPlayer g p = Some mid"
    and "Match_ApplyMove (am_match am) p c = (None, m1)" and "\<not> Status_IsFinished (m_status m1)"
  shows "Games_Move d p c (g, w) =
     (Inr (am_stateFor (after_move am m1) p),
      g\<lparr>active := (active g)(mid \<mapsto> after_move am m1)\<rparr>,
      move_effect d (after_move am m1) EventStateChanged [] w)"
  using assms by (simp add: Games_Move_def Games_lookup_def Let_def Match_Status_def move_effect_def)

lemma Move_finishing:
  assumes "games_inv g" and "Games_lookup g p = Some am"
    and "Match_ApplyMove (am_match am) p c = (None, m1)" and "Status_IsFinished (m_status m1)"
  shows "Games_Move d p c (g, w) =
     (Inr (am_stateFor (after_move am m1) p),
      Games_forget g am,
      move_effect d (after_move am m1) EventMatchEnded (am_results (after_move am m1)) w)"
proof -
  obtain mid where mid: "byPlayer g p = Some mid" "active g mid = Some am" "live mid am"
    using lookup_Some [OF assms(1,2)] .
  have "Games_forget (g\<lparr>active := (active g)(mid \<mapsto> after_move am m1)\<rparr>) (after_move am m1)
      = Games_forget g am"
    using after_move_players [OF assms(3)] live_id [OF mid(3)]
    by (simp add: forget_unfold)
  then show ?thesis
    using assms mid by (simp add: Games_Move_def Let_def Match_Status_def move_effect_def)
qed

text \<open>The branches together, as a case rule for the proofs about \<open>Move\<close>.\<close>

lemma Move_cases [consumes 2, case_names NoMatch Rejected Running Finishing]:
  assumes "games_inv g" and "Games_Move d p c (g, w) = (r, g', w')"
  obtains "Games_lookup g p = None" and "r = Inl (Domain ErrNoActiveMatch)" and "g' = g" and "w' = w"
  | am e where "Games_lookup g p = Some am"
      and "Match_ApplyMove (am_match am) p c = (Some e, am_match am)"
      and "r = Inl (Domain e)" and "g' = g" and "w' = w"
  | am m1 mid where "Games_lookup g p = Some am" and "byPlayer g p = Some mid"
      and "active g mid = Some am" and "live mid am"
      and "Match_ApplyMove (am_match am) p c = (None, m1)" and "\<not> Status_IsFinished (m_status m1)"
      and "r = Inr (am_stateFor (after_move am m1) p)"
      and "g' = g\<lparr>active := (active g)(mid \<mapsto> after_move am m1)\<rparr>"
      and "w' = move_effect d (after_move am m1) EventStateChanged [] w"
  | am m1 mid where "Games_lookup g p = Some am" and "byPlayer g p = Some mid"
      and "active g mid = Some am" and "live mid am"
      and "Match_ApplyMove (am_match am) p c = (None, m1)" and "Status_IsFinished (m_status m1)"
      and "r = Inr (am_stateFor (after_move am m1) p)"
      and "g' = Games_forget g am"
      and "w' = move_effect d (after_move am m1) EventMatchEnded (am_results (after_move am m1)) w"
proof (cases "Games_lookup g p")
  case None
  have "r = Inl (Domain ErrNoActiveMatch)" "g' = g" "w' = w"
    using Move_None [OF None, of d c w] assms(2) by auto
  with None show thesis by (rule that(1))
next
  case (Some am)
  obtain mid where mid: "byPlayer g p = Some mid" "active g mid = Some am" "live mid am"
    using lookup_Some [OF assms(1) Some] .
  obtain e m1 where move: "Match_ApplyMove (am_match am) p c = (e, m1)" by fastforce
  show thesis
  proof (cases e)
    case None
    note ok = move [unfolded None]
    show thesis
    proof (cases "Status_IsFinished (m_status m1)")
      case True
      show thesis
        by (rule that(4) [OF Some mid ok True])
          (use Move_finishing [OF assms(1) Some ok True, of d w] assms(2) in simp_all)
    next
      case False
      show thesis
        by (rule that(3) [OF Some mid ok False])
          (use Move_running [OF Some mid(1) ok False, of d w] assms(2) in simp_all)
    qed
  next
    case (Some e')
    note found = \<open>Games_lookup g p = Some am\<close> and bad = move [unfolded Some]
    from ApplyMove_error [OF bad] bad have same: "Match_ApplyMove (am_match am) p c = (Some e', am_match am)"
      by simp
    show thesis
      by (rule that(2) [OF found same]) (use Move_error [OF found bad, of d w] assms(2) in simp_all)
  qed
qed

lemma Move_inv:
  assumes "games_inv g" and "Games_Move d p c (g, w) = (r, g', w')"
  shows "games_inv g'"
  using assms
proof (cases rule: Move_cases)
  case (Running am m1 mid)
  show ?thesis
    unfolding Running(8)
    by (rule update_inv [OF assms(1) Running(3) after_move_live [OF Running(4-6)]
          after_move_players(1,2) [OF Running(5)]])
next
  case (Finishing am m1 mid)
  show ?thesis unfolding Finishing(8) by (rule forget_inv [OF assms(1) Finishing(3)])
qed (use assms in simp_all)

section \<open>Abandon\<close>

lemma Abandon_None: "Games_lookup g p = None \<Longrightarrow> Games_Abandon d p (g, w) = (g, w)"
  by (simp add: Games_Abandon_def)

lemma Opponent_live:
  assumes "live mid am" and "p = am_X am \<or> p = am_O am"
  shows "Match_Opponent (am_match am) p = (if p = am_X am then am_O am else am_X am)"
  using assms Opponent_two_players [OF live_players [OF assms(1)]] by auto

lemma Abandon_Some:
  assumes "Games_lookup g p = Some am"
  shows "Games_Abandon d p (g, w) =
     (Games_forget g am,
      n_Notify (d_notifier d) (Match_Opponent (am_match am) p)
        \<lparr>ev_Type = EventOpponentLeft, ev_MatchID = m_id (am_match am),
         ev_State = am_stateFor am (Match_Opponent (am_match am) p)\<rparr> w)"
  using assms by (simp add: Games_Abandon_def Match_ID_def Let_def)

lemma Abandon_inv:
  assumes "games_inv g" and "Games_Abandon d p (g, w) = (g', w')"
  shows "games_inv g'"
proof (cases "Games_lookup g p")
  case None
  with assms show ?thesis by (simp add: Abandon_None)
next
  case (Some am)
  obtain mid where "active g mid = Some am" using lookup_Some [OF assms(1) Some] .
  from forget_inv [OF assms(1) this] assms(2) Some show ?thesis by (simp add: Abandon_Some)
qed

section \<open>Frames\<close>

text \<open>Whom an operation by \<open>p\<close> can concern: the participants of the match \<open>p\<close> is in.\<close>

definition same_game :: "Games \<Rightarrow> PlayerID \<Rightarrow> PlayerID \<Rightarrow> bool" where
  "same_game g p q \<longleftrightarrow> byPlayer g p \<noteq> None \<and> byPlayer g p = byPlayer g q"

lemma same_game_participants:
  assumes "games_inv g" and "byPlayer g p = Some mid" and "active g mid = Some am"
  shows "same_game g p q \<longleftrightarrow> q = am_X am \<or> q = am_O am"
  using index_players [OF assms(1,3), of q] assms(2) by (auto simp: same_game_def)

lemma forget_lookup:
  assumes "games_inv g" and "byPlayer g p = Some mid" and "active g mid = Some am"
  shows "Games_lookup (Games_forget g am) q = (if same_game g p q then None else Games_lookup g q)"
proof -
  have mid: "m_id (am_match am) = mid"
    using live_id games_inv_active(1) assms by blast
  have "byPlayer g q \<noteq> Some mid" if "\<not> same_game g p q"
    using that assms(2) by (auto simp: same_game_def)
  then show ?thesis
    using same_game_participants [OF assms]
    by (auto simp: Games_lookup_def forget_unfold mid split: option.split)
qed

lemma forget_InMatch:
  assumes "games_inv g" and "byPlayer g p = Some mid" and "active g mid = Some am"
  shows "Games_InMatch q (Games_forget g am) \<longleftrightarrow> Games_InMatch q g \<and> \<not> same_game g p q"
  using same_game_participants [OF assms]
  by (auto simp: Games_InMatch_def forget_unfold)

lemma update_lookup:
  assumes "games_inv g" and "byPlayer g p = Some mid" and "active g mid = Some am"
  shows "Games_lookup (g\<lparr>active := (active g)(mid \<mapsto> am')\<rparr>) q =
     (if same_game g p q then Some am' else Games_lookup g q)"
  using assms by (auto simp: Games_lookup_def same_game_def split: option.split)

lemma Move_isolated:
  assumes "games_inv g" and "Games_Move d p c (g, w) = (r, g', w')" and "\<not> same_game g p q"
  shows "Games_lookup g' q = Games_lookup g q"
  using assms(1,2)
proof (cases rule: Move_cases)
  case (Running am m1 mid)
  then show ?thesis using assms by (simp add: update_lookup)
next
  case (Finishing am m1 mid)
  then show ?thesis using assms by (simp add: forget_lookup)
qed (use assms in simp_all)

lemma Abandon_isolated:
  assumes "games_inv g" and "Games_Abandon d p (g, w) = (g', w')"
  shows "Games_lookup g' q = (if same_game g p q then None else Games_lookup g q)"
proof (cases "Games_lookup g p")
  case None
  with assms lookup_None [OF assms(1), of p] show ?thesis
    by (auto simp: Abandon_None same_game_def)
next
  case (Some am)
  obtain mid where "byPlayer g p = Some mid" "active g mid = Some am"
    using lookup_Some [OF assms(1) Some] .
  with assms Some show ?thesis by (auto simp: Abandon_Some forget_lookup)
qed

section \<open>What the operations can do to the collaborators\<close>

text \<open>
  The operations reach the state behind the ports through five calls only, so a property every
  one of the five keeps is kept by every operation.
\<close>

definition calls_keep :: "'w GamesDeps \<Rightarrow> ('w \<Rightarrow> bool) \<Rightarrow> bool" where
  "calls_keep d P \<longleftrightarrow>
     (\<forall>w. P w \<longrightarrow>
        (\<forall>r. P (snd (ms_Save (d_matches d) r w))) \<and> (\<forall>p. P (snd (rec_Save (d_players d) p w)))
        \<and> (\<forall>i ev. P (n_Notify (d_notifier d) i ev w)) \<and> P (snd (g_NewID (d_ids d) w))
        \<and> (\<forall>msg t e. P (log_Error (d_log d) msg t e w)))"

lemma calls_keepD:
  assumes "calls_keep d P" and "P w"
  shows "ms_Save (d_matches d) r w = (e, w1) \<Longrightarrow> P w1"
    and "rec_Save (d_players d) p w = (e, w1) \<Longrightarrow> P w1"
    and "P (n_Notify (d_notifier d) i ev w)"
    and "g_NewID (d_ids d) w = (mid, w1) \<Longrightarrow> P w1"
    and "P (log_Error (d_log d) msg t er w)"
  using assms unfolding calls_keep_def by (metis snd_conv)+

lemma dispatch_keeps:
  assumes "calls_keep d P" and "P w"
  shows "P (Games_dispatch d evs w)"
  unfolding Games_dispatch_def using assms(2)
  by (induction evs arbitrary: w) (simp_all add: calls_keepD(3) [OF assms(1)])

lemma persist_keeps:
  assumes "calls_keep d P" and "P w"
  shows "P (Games_persist d r w)"
proof -
  obtain e w1 where save: "ms_Save (d_matches d) r w = (e, w1)" by fastforce
  with assms have "P w1" by (rule calls_keepD(1))
  with save show ?thesis
    by (simp add: Games_persist_def calls_keepD(5) [OF assms(1)] split: option.split)
qed

lemma record_keeps:
  assumes "calls_keep d P" and "P w"
  shows "P (Games_record d r w)"
proof (cases "rec_ByID (d_players d) (res_player r) w")
  case (Inl e)
  with assms(2) show ?thesis by (simp add: Games_record_def calls_keepD(5) [OF assms(1)])
next
  case (Inr p)
  obtain e w1 where save: "rec_Save (d_players d) (Player_Record p (res_outcome r)) w = (e, w1)"
    by fastforce
  with assms have "P w1" by (rule calls_keepD(2))
  with Inr save show ?thesis
    by (simp add: Games_record_def calls_keepD(5) [OF assms(1)] split: option.split)
qed

lemma fold_record_keeps:
  assumes "calls_keep d P" and "P w"
  shows "P (fold (Games_record d) rs w)"
  using assms(2) by (induction rs arbitrary: w) (simp_all add: record_keeps [OF assms(1)])

lemma move_effect_keeps:
  assumes "calls_keep d P" and "P w"
  shows "P (move_effect d am t rs w)"
  unfolding move_effect_def
  by (rule dispatch_keeps [OF assms(1) fold_record_keeps [OF assms(1) persist_keeps [OF assms]]])

lemma Move_keeps:
  assumes "games_inv g" and "calls_keep d P" and "P w" and "Games_Move d p c (g, w) = (r, g', w')"
  shows "P w'"
  using assms(1,4)
proof (cases rule: Move_cases)
  case Running
  show ?thesis unfolding Running(9) by (rule move_effect_keeps [OF assms(2,3)])
next
  case Finishing
  show ?thesis unfolding Finishing(9) by (rule move_effect_keeps [OF assms(2,3)])
qed (use assms(3) in simp_all)

lemma Start_keeps:
  assumes "calls_keep d P" and "P w" and "Games_Start d px po (g, w) = (e, g', w')"
  shows "P w'"
proof -
  obtain mid w1 where id: "g_NewID (d_ids d) w = (mid, w1)" by fastforce
  with assms(1,2) have "P w1" by (rule calls_keepD(4))
  then have "P (Games_dispatch d evs (Games_persist d r w1))" for evs r
    by (rule dispatch_keeps [OF assms(1) persist_keeps [OF assms(1)]])
  with assms(2,3) id \<open>P w1\<close> show ?thesis
    by (auto simp: Games_Start_def Let_def split: sum.splits if_splits)
qed

lemma Abandon_keeps:
  assumes "calls_keep d P" and "P w" and "Games_Abandon d p (g, w) = (g', w')"
  shows "P w'"
proof (cases "Games_lookup g p")
  case None
  with assms(2,3) show ?thesis by (simp add: Abandon_None)
next
  case (Some am)
  with assms(3) calls_keepD(3) [OF assms(1,2)] show ?thesis by (auto simp: Abandon_Some)
qed

end
