(* ===== verification/Matchmaking_Model.thy ===== *)
theory Matchmaking_Model
  imports Games_Props
begin

text \<open>
  \<open>internal/usecase/matchmaking.go\<close>: the queue of players waiting for an opponent.

  Matchmaking sees the game service through the interface \<open>Matches\<close> only. What it relies on
  is the locale \<open>matches_port\<close>; the game service provides it (\<open>games_port\<close> below). The
  definitions run an operation from start to end; the interleavings the two mutexes allow are
  the subject of the theory \<open>Interleavings\<close>.
\<close>

section \<open>The operations\<close>

record Matchmaking =
  queue :: "PlayerID list"

definition NewMatchmaking :: Matchmaking where
  "NewMatchmaking = \<lparr>queue = []\<rparr>"

definition Matchmaking_Join ::
  "'v Matches \<Rightarrow> PlayerID \<Rightarrow> Matchmaking \<times> 'v \<Rightarrow> goerr option \<times> Matchmaking \<times> 'v" where
  "Matchmaking_Join ms p mv =
     (case mv of (m, v) \<Rightarrow>
      if mm_InMatch ms p v then (Some (Domain ErrAlreadyInMatch), m, v)
      else if slices_Contains (queue m) p then (Some (Domain ErrAlreadyQueued), m, v)
      else (let m1 = m\<lparr>queue := queue m @ [p]\<rparr>
            in if length (queue m1) < 2 then (None, m1, v)
               else (let px = queue m1 ! 0; po = queue m1 ! 1;
                         m2 = m1\<lparr>queue := slices_Delete (queue m1) 0 2\<rparr>
                     in case mm_Start ms px po v of (e, v1) \<Rightarrow> (e, m2, v1))))"

definition Matchmaking_Leave :: "PlayerID \<Rightarrow> Matchmaking \<Rightarrow> Matchmaking" where
  "Matchmaking_Leave p m =
     (let i = slices_Index (queue m) p
      in if i \<ge> 0 then m\<lparr>queue := slices_Delete (queue m) (nat i) (nat i + 1)\<rparr> else m)"

definition Matchmaking_Waiting :: "Matchmaking \<Rightarrow> int" where
  "Matchmaking_Waiting m = int (length (queue m))"

lemma Leave_remove1: "queue (Matchmaking_Leave p m) = remove1 p (queue m)"
  using slices_Index_neg [of "queue m" p] slices_Delete_Index [of "queue m" p]
  by (auto simp: Matchmaking_Leave_def Let_def remove1_idem not_le)

section \<open>What the queue relies on\<close>

text \<open>
  Between two operations at most one player waits, and nobody waits who is playing. (\<open>Join\<close>
  takes two players out in the same critical section in which it appends the second.)
\<close>

definition queue_inv :: "(PlayerID \<Rightarrow> bool) \<Rightarrow> Matchmaking \<Rightarrow> bool" where
  "queue_inv playing m \<longleftrightarrow> length (queue m) \<le> 1 \<and> (\<forall>p \<in> set (queue m). \<not> playing p)"

lemma queue_inv_new [simp]: "queue_inv playing NewMatchmaking"
  by (simp add: queue_inv_def NewMatchmaking_def)

locale matches_port =
  fixes ms :: "'v Matches"
  assumes Start_success: "mm_Start ms px po v = (None, v') \<Longrightarrow>
      px \<noteq> po \<and> \<not> mm_InMatch ms px v \<and> \<not> mm_InMatch ms po v
      \<and> mm_InMatch ms px v' \<and> mm_InMatch ms po v'
      \<and> (\<forall>q. q \<noteq> px \<and> q \<noteq> po \<longrightarrow> mm_InMatch ms q v' = mm_InMatch ms q v)"
    and Start_failure: "mm_Start ms px po v = (Some e, v') \<Longrightarrow>
      mm_InMatch ms q v' = mm_InMatch ms q v"
begin

lemma queue_inv_cases:
  assumes "queue_inv (\<lambda>p. mm_InMatch ms p v) m"
  obtains "queue m = []" | q where "queue m = [q]" and "\<not> mm_InMatch ms q v"
  using assms by (cases "queue m") (auto simp: queue_inv_def)

lemma Join_busy: "mm_InMatch ms p v \<Longrightarrow>
    Matchmaking_Join ms p (m, v) = (Some (Domain ErrAlreadyInMatch), m, v)"
  by (simp add: Matchmaking_Join_def)

lemma Join_queued: "\<not> mm_InMatch ms p v \<Longrightarrow> p \<in> set (queue m) \<Longrightarrow>
    Matchmaking_Join ms p (m, v) = (Some (Domain ErrAlreadyQueued), m, v)"
  by (simp add: Matchmaking_Join_def slices_Contains_def)

lemma Join_first: "\<not> mm_InMatch ms p v \<Longrightarrow> queue m = [] \<Longrightarrow>
    Matchmaking_Join ms p (m, v) = (None, m\<lparr>queue := [p]\<rparr>, v)"
  by (simp add: Matchmaking_Join_def slices_Contains_def)

lemma Join_second: "\<not> mm_InMatch ms p v \<Longrightarrow> queue m = [q] \<Longrightarrow> p \<noteq> q \<Longrightarrow>
    Matchmaking_Join ms p (m, v) =
      (fst (mm_Start ms q p v), m\<lparr>queue := []\<rparr>, snd (mm_Start ms q p v))"
  by (simp add: Matchmaking_Join_def slices_Contains_def slices_Delete_def Let_def
      split: prod.split)

lemma Join_inv:
  assumes "queue_inv (\<lambda>p. mm_InMatch ms p v) m" and "Matchmaking_Join ms p (m, v) = (e, m', v')"
  shows "queue_inv (\<lambda>p. mm_InMatch ms p v') m'"
proof (cases "mm_InMatch ms p v")
  case True
  with assms show ?thesis by (simp add: Join_busy)
next
  case free: False
  from assms(1) show ?thesis
  proof (cases rule: queue_inv_cases)
    case 1
    with free assms(2) show ?thesis by (auto simp: Join_first queue_inv_def)
  next
    case (2 q)
    then show ?thesis
    proof (cases "p = q")
      case True
      with free 2 assms show ?thesis by (simp add: Join_queued)
    next
      case False
      with free 2 assms(2) show ?thesis by (auto simp: Join_second queue_inv_def)
    qed
  qed
qed

lemma Leave_inv: "queue_inv (\<lambda>p. mm_InMatch ms p v) m \<Longrightarrow> queue_inv (\<lambda>p. mm_InMatch ms p v) (Matchmaking_Leave p m)"
  using set_remove1_subset [of p "queue m"]
  by (auto simp: queue_inv_def Leave_remove1 length_remove1)

text \<open>The one who waited plays X; both are in a match and nobody waits.\<close>

lemma Join_pairs:
  assumes "queue m = [q]" and "Matchmaking_Join ms p (m, v) = (None, m', v')"
  shows "p \<noteq> q \<and> mm_Start ms q p v = (None, v') \<and> queue m' = []
      \<and> mm_InMatch ms q v' \<and> mm_InMatch ms p v'"
proof -
  have free: "\<not> mm_InMatch ms p v" "p \<noteq> q"
    using assms Join_busy [of p v m] Join_queued [of p v m] by (force, force)
  with assms have "mm_Start ms q p v = (None, v')" "queue m' = []"
    by (auto simp: Join_second prod_eq_iff)
  with free Start_success show ?thesis by blast
qed

text \<open>A pairing that fails: the error goes to the joiner, and the one who waited is gone too.\<close>

lemma Join_failed_pairing:
  assumes "queue m = [q]" and "\<not> mm_InMatch ms p v" and "p \<noteq> q"
    and "mm_Start ms q p v = (Some e, v1)"
  shows "Matchmaking_Join ms p (m, v) = (Some e, m\<lparr>queue := []\<rparr>, v1)
      \<and> mm_InMatch ms q v1 = mm_InMatch ms q v"
  using assms Start_failure [OF assms(4)] by (simp add: Join_second)

end

section \<open>The game service provides it\<close>

definition games_matches :: "'w GamesDeps \<Rightarrow> (Games \<times> 'w) Matches" where
  "games_matches d = \<lparr>mm_Start = Games_Start d, mm_InMatch = (\<lambda>p gw. Games_InMatch p (fst gw))\<rparr>"

lemma games_matches_sel [simp]:
  "mm_Start (games_matches d) = Games_Start d"
  "mm_InMatch (games_matches d) p (g, w) = Games_InMatch p g"
  by (simp_all add: games_matches_def)

interpretation games_port: matches_port "games_matches d" for d
proof (unfold_locales, goal_cases)
  case (1 px po v v')
  obtain g w g' w' where v: "v = (g, w)" "v' = (g', w')" by (cases v, cases v')
  with 1 have start: "Games_Start d px po (g, w) = (None, g', w')" by simp
  then obtain xp op mid w1 where ok:
    "rec_ByID (d_players d) px w = Inr xp" "rec_ByID (d_players d) po w = Inr op"
    "g_NewID (d_ids d) w = (mid, w1)" "px \<noteq> po" "\<not> Games_InMatch px g" "\<not> Games_InMatch po g"
    by (rule Start_success)
  with start Start_ok [OF ok] show ?case by (auto simp: v Games_InMatch_def)
next
  case (2 px po v e v' q)
  obtain g w g' w' where v: "v = (g, w)" "v' = (g', w')" by (cases v, cases v')
  with 2 Start_error_frame [of d px po g w e g' w'] show ?case by simp
qed

end
