(* ===== verification/Games_Services.thy ===== *)
theory Games_Services
  imports Matchmaking_Model Backend
begin

text \<open>
  The game service together with the stores behind its ports: what a move writes. The locale
  \<open>game_services\<close> joins the contracts of the player store and the match store with the frame
  conditions between the collaborators (saving a match does not touch a player, a notification
  touches neither store, and so on). The theory \<open>Server\<close> interprets it on the wired server.
\<close>

text \<open>The match store holds, for every match in progress, the record of its present position.\<close>

definition durable :: "(MatchID \<Rightarrow> MatchRecord option) \<Rightarrow> Games \<Rightarrow> bool" where
  "durable recs g \<longleftrightarrow> (\<forall>mid am. active g mid = Some am \<longrightarrow> recs mid = Some (am_record am))"

lemma record_sel [simp]:
  "r_ID (am_record am) = m_id (am_match am)" "r_X (am_record am) = am_X am"
  "r_O (am_record am) = am_O am" "r_Status (am_record am) = m_status (am_match am)"
  "r_Moves (am_record am) = m_moves (am_match am)"
  by (simp_all add: am_record_def am_X_def am_O_def Let_def match_simps)

lemma storable_am_record:
  "reachable_match mid (am_X am) (am_O am) (am_match am) \<Longrightarrow> storable_record (am_record am)"
  using storable_reachable by (simp add: storable_record_def)

lemma live_storable: "live mid am \<Longrightarrow> storable_record (am_record am)"
  by (rule storable_am_record [of mid]) (simp add: live_def)

lemma after_move_reachable:
  assumes "live mid am" and "Match_ApplyMove (am_match am) p c = (e, m1)"
  shows "reachable_match mid (am_X (after_move am m1)) (am_O (after_move am m1))
      (am_match (after_move am m1))"
  using assms(1) reachable_match.move [OF _ assms(2)] after_move_players [OF assms(2)]
  by (simp add: live_def)

lemmas after_move_storable = storable_am_record [OF after_move_reachable]

lemma started_storable: "px \<noteq> po \<Longrightarrow> storable_record (am_record (started mid xp op px po))"
  by (rule live_storable) (rule started_live)

locale game_services =
  rec: player_recorder "rec_ByID (d_players d)" view good "rec_Save (d_players d)" +
  mst: match_store "ms_Save (d_matches d)" MatchByID stored good storable_record
  for d :: "'w GamesDeps" and view :: "'w \<Rightarrow> PlayerID \<Rightarrow> Player option" and good :: "'w \<Rightarrow> bool"
    and MatchByID :: "MatchID \<Rightarrow> 'w \<Rightarrow> goerr + MatchRecord option"
    and stored :: "'w \<Rightarrow> MatchID \<Rightarrow> MatchRecord option" +
  assumes SaveMatch_view: "good w \<Longrightarrow> storable_record r \<Longrightarrow> view (snd (ms_Save (d_matches d) r w)) = view w"
    and SaveMatch_good: "good w \<Longrightarrow> storable_record r \<Longrightarrow> good (snd (ms_Save (d_matches d) r w))"
    and SavePlayer_stored: "good w \<Longrightarrow> stored (snd (rec_Save (d_players d) p w)) = stored w"
    and Notify_frame: "view (n_Notify (d_notifier d) i ev w) = view w"
      "good (n_Notify (d_notifier d) i ev w) = good w"
      "stored (n_Notify (d_notifier d) i ev w) = stored w"
    and Log_frame: "view (log_Error (d_log d) msg t e w) = view w"
      "good (log_Error (d_log d) msg t e w) = good w"
      "stored (log_Error (d_log d) msg t e w) = stored w"
    and NewID_frame: "view (snd (g_NewID (d_ids d) w)) = view w"
      "good (snd (g_NewID (d_ids d) w)) = good w"
      "stored (snd (g_NewID (d_ids d) w)) = stored w"
begin

section \<open>Effects one by one\<close>

lemma dispatch_frame [simp]:
  "view (Games_dispatch d evs w) = view w" "good (Games_dispatch d evs w) = good w"
  "stored (Games_dispatch d evs w) = stored w"
  unfolding Games_dispatch_def by (induction evs arbitrary: w) (simp_all add: Notify_frame)

lemma persist_effect:
  assumes "good w" and "storable_record r"
  shows "view (Games_persist d r w) = view w" and "good (Games_persist d r w)"
  using SaveMatch_view [OF assms] SaveMatch_good [OF assms]
  by (auto simp: Games_persist_def Log_frame split: prod.split option.split)

lemma persist_stored:
  assumes "good w" and "storable_record r" and "same_match (stored w) r"
  shows "stored (Games_persist d r w) = (stored w)(r_ID r \<mapsto> r)"
  using mst.Save_stores [OF assms] by (auto simp: Games_persist_def)

lemma record_stored:
  assumes "good w"
  shows "stored (Games_record d r w) = stored w"
proof (cases "rec_ByID (d_players d) (res_player r) w")
  case (Inl e)
  then show ?thesis by (simp add: Games_record_def Log_frame)
next
  case (Inr p)
  with SavePlayer_stored [OF assms, of "Player_Record p (res_outcome r)"] show ?thesis
    by (auto simp: Games_record_def Log_frame split: prod.split option.split)
qed

lemma record_view:
  assumes "good w"
  shows "view (Games_record d r w) =
      (view w)(res_player r := map_option (\<lambda>p. Player_Record p (res_outcome r)) (view w (res_player r)))
    \<and> good (Games_record d r w)"
proof (cases "view w (res_player r)")
  case None
  with assms rec.ByID_view [of w "res_player r"] show ?thesis
    by (simp add: Games_record_def Log_frame fun_upd_idem)
next
  case (Some p)
  obtain w' where "rec_Save (d_players d) (Player_Record p (res_outcome r)) w = (None, w')"
    "view w' = (view w)(res_player r \<mapsto> Player_Record p (res_outcome r))" "good w'"
    using rec.read_record_save [OF assms Some] by blast
  with assms Some rec.ByID_view [of w "res_player r"] show ?thesis
    by (simp add: Games_record_def)
qed

lemma move_effect_view:
  assumes "good w" and "storable_record (am_record am)"
  shows "view (move_effect d am t [] w) = view w \<and> good (move_effect d am t [] w)"
  using persist_effect [OF assms] by (simp add: move_effect_def)

lemma move_effect_results:
  assumes "good w" and "storable_record (am_record am)" and "am_X am \<noteq> am_O am"
  shows "view (move_effect d am t (am_results am) w) =
      (\<lambda>q. if q = am_X am \<or> q = am_O am
           then map_option (\<lambda>p. Player_Record p (Match_OutcomeFor (am_match am) q)) (view w q)
           else view w q)
    \<and> good (move_effect d am t (am_results am) w)"
proof -
  let ?rx = "\<lparr>res_player = am_X am, res_outcome = Match_OutcomeFor (am_match am) (am_X am)\<rparr>"
  let ?ro = "\<lparr>res_player = am_O am, res_outcome = Match_OutcomeFor (am_match am) (am_O am)\<rparr>"
  let ?w1 = "Games_persist d (am_record am) w"
  have results: "am_results am = [?rx, ?ro]"
    by (simp add: am_results_def am_X_def am_O_def Let_def)
  note saved = persist_effect [OF assms(1,2)]
  note x = record_view [OF saved(2), of ?rx]
  note o = record_view [OF conjunct2 [OF x], of ?ro]
  from x o saved(1) assms(3) show ?thesis
    by (auto simp: move_effect_def results fun_eq_iff)
qed

lemma fold_record_stored: "good w \<Longrightarrow> stored (fold (Games_record d) rs w) = stored w"
  by (induction rs arbitrary: w) (simp_all add: record_stored record_view)

lemma move_effect_stored:
  assumes "good w" and "storable_record (am_record am)" and "same_match (stored w) (am_record am)"
  shows "stored (move_effect d am t results w) =
      (stored w)(m_id (am_match am) \<mapsto> am_record am)"
  using persist_stored [OF assms] fold_record_stored [OF persist_effect(2) [OF assms(1,2)]]
  by (simp add: move_effect_def)

section \<open>Durability\<close>

lemma durable_same_match:
  assumes "durable (stored w) g" and "active g mid = Some am" and "m_id (am_match am') = mid"
    and "am_X am' = am_X am" and "am_O am' = am_O am"
  shows "same_match (stored w) (am_record am')"
  using assms by (simp add: durable_def same_match_def)

lemma after_move_stored:
  assumes "good w" and "durable (stored w) g" and "active g mid = Some am" and "live mid am"
    and "Match_ApplyMove (am_match am) p c = (e, m1)"
  shows "stored (move_effect d (after_move am m1) t results w) =
      (stored w)(mid \<mapsto> am_record (after_move am m1))"
  using move_effect_stored [OF assms(1) after_move_storable [OF assms(4,5)] durable_same_match [OF assms(2,3)]]
    after_move_players [OF assms(5)] live_id [OF assms(4)] by simp

lemma Move_durable:
  assumes "games_inv g" and "good w" and "durable (stored w) g" and "Games_Move d p c (g, w) = (r, g', w')"
  shows "durable (stored w') g'"
  using assms(1,4)
proof (cases rule: Move_cases)
  case (Running am m1 mid)
  from after_move_stored [OF assms(2,3) Running(3-5)] Running(8,9) assms(3)
  show ?thesis by (simp add: durable_def)
next
  case (Finishing am m1 mid)
  from after_move_stored [OF assms(2,3) Finishing(3-5)] Finishing(8,9) assms(3) live_id [OF Finishing(4)]
  show ?thesis by (simp add: durable_def forget_unfold)
qed (use assms in simp_all)

lemma Abandon_durable:
  assumes "games_inv g" and "durable (stored w) g" and "Games_Abandon d p (g, w) = (g', w')"
  shows "durable (stored w') g'"
proof (cases "Games_lookup g p")
  case None
  with assms show ?thesis by (simp add: Abandon_None)
next
  case (Some am)
  from assms(2,3) show ?thesis
    by (auto simp: Abandon_Some [OF Some] durable_def forget_unfold Notify_frame split: if_splits)
qed

lemma Start_durable:
  assumes "games_inv g" and "good w" and "durable (stored w) g" and "Games_Start d px po (g, w) = (e, g', w')"
    and "stored w (fst (g_NewID (d_ids d) w)) = None"
  shows "durable (stored w') g'"
proof (cases e)
  case None
  then obtain xp op mid w1 where ok:
    "rec_ByID (d_players d) px w = Inr xp" "rec_ByID (d_players d) po w = Inr op"
    "g_NewID (d_ids d) w = (mid, w1)" "px \<noteq> po" "\<not> Games_InMatch px g" "\<not> Games_InMatch po g"
    using assms(4) by (auto elim: Start_success)
  let ?am = "started mid xp op px po"
  have "stored w1 = stored w" using NewID_frame(3) [of w] ok(3) by simp
  then have "same_match (stored w1) (am_record ?am)"
    using assms(5) ok(3) by (simp add: same_match_def)
  moreover have "good w1" using NewID_frame(2) [of w] ok(3) assms(2) by simp
  ultimately show ?thesis
    using persist_stored [OF _ started_storable [OF ok(4)], of w1 mid xp op] Start_ok [OF ok] assms(3,4)
      \<open>stored w1 = stored w\<close>
    by (auto simp: durable_def)
next
  case (Some e')
  have g: "g' = g" by (rule Start_error_frame [OF assms(4) [unfolded Some]])
  have "stored w' = stored w"
    using assms(4) Some NewID_frame(3) [of w]
    by (auto simp: Games_Start_def Let_def split: sum.splits prod.splits if_splits)
  with g assms(3) show ?thesis by (simp add: durable_def)
qed

text \<open>Which ids have a record: only starting a match adds one.\<close>

lemma Move_stored_dom:
  assumes "games_inv g" and "good w" and "durable (stored w) g" and "Games_Move d p c (g, w) = (r, g', w')"
  shows "dom (stored w') = dom (stored w)"
  using assms(1,4)
proof (cases rule: Move_cases)
  case (Running am m1 mid)
  from after_move_stored [OF assms(2,3) Running(3-5)] Running(3,9) assms(3)
  show ?thesis by (auto simp: durable_def)
next
  case (Finishing am m1 mid)
  from after_move_stored [OF assms(2,3) Finishing(3-5)] Finishing(3,9) assms(3)
  show ?thesis by (auto simp: durable_def)
qed (use assms in simp_all)

lemma Abandon_stored: "Games_Abandon d p (g, w) = (g', w') \<Longrightarrow> stored w' = stored w"
  by (auto simp: Games_Abandon_def Notify_frame Let_def split: option.splits)

lemma Start_stored:
  assumes "good w" and "stored w (fst (g_NewID (d_ids d) w)) = None"
    and "Games_Start d px po (g, w) = (e, g', w')"
  shows "dom (stored w') \<subseteq>
    (if e = None then insert (fst (g_NewID (d_ids d) w)) (dom (stored w)) else dom (stored w))"
proof (cases e)
  case None
  then obtain xp op mid w1 where ok:
    "rec_ByID (d_players d) px w = Inr xp" "rec_ByID (d_players d) po w = Inr op"
    "g_NewID (d_ids d) w = (mid, w1)" "px \<noteq> po" "\<not> Games_InMatch px g" "\<not> Games_InMatch po g"
    using assms(3) by (auto elim: Start_success)
  have "stored w1 = stored w" using NewID_frame(3) [of w] ok(3) by simp
  moreover from this have "same_match (stored w1) (am_record (started mid xp op px po))"
    using assms(2) ok(3) by (simp add: same_match_def)
  moreover have "good w1" using NewID_frame(2) [of w] ok(3) assms(1) by simp
  ultimately show ?thesis
    using persist_stored [OF _ started_storable [OF ok(4)], of w1 mid xp op] Start_ok [OF ok] assms(3) None ok(3)
    by auto
next
  case (Some e')
  with assms(3) NewID_frame(3) [of w] show ?thesis
    by (auto simp: Games_Start_def Let_def split: sum.splits prod.splits if_splits)
qed

text \<open>What is stored for a match in progress replays to that match.\<close>

lemma durable_restores:
  assumes "games_inv g" and "good w" and "durable (stored w) g" and "Games_lookup g p = Some am"
  shows "\<exists>r. MatchByID (m_id (am_match am)) w = Inr (Some r)
     \<and> RestoreMatch (r_ID r) (r_X r) (r_O r) (r_Moves r) = Inr (am_match am)
     \<and> r_Status r = m_status (am_match am)"
proof -
  obtain mid where mid: "active g mid = Some am" "live mid am"
    using lookup_Some [OF assms(1,4)] .
  with assms(3) live_id [OF mid(2)] have "stored w (m_id (am_match am)) = Some (am_record am)"
    by (simp add: durable_def)
  with mid live_id [OF mid(2)] show ?thesis
    by (intro exI [of _ "am_record am"]) (auto simp: mst.ByID_stored [OF assms(2)] live_def intro!: restore_complete)
qed

section \<open>Statistics\<close>

text \<open>
  A move that ends a match counts once for each of its two players, and for nobody else; any
  other move counts for nobody.
\<close>

lemma Move_statistics:
  assumes "games_inv g" and "good w" and "Games_Move d p c (g, w) = (r, g', w')"
  shows "view w' =
     (case (Games_lookup g p, Games_lookup g' p) of
        (Some am, None) \<Rightarrow>
          (\<lambda>q. if q = am_X am \<or> q = am_O am
               then map_option
                 (\<lambda>pl. Player_Record pl
                   (Match_OutcomeFor (snd (Match_ApplyMove (am_match am) p c)) q)) (view w q)
               else view w q)
      | _ \<Rightarrow> view w)
    \<and> good w'"
  using assms(1,3)
proof (cases rule: Move_cases)
  case (Running am m1 mid)
  then have "Games_lookup g' p = Some (after_move am m1)"
    using update_lookup [OF assms(1) Running(2,3)] by (simp add: same_game_def)
  with Running move_effect_view [OF assms(2) after_move_storable [OF Running(4,5)]] show ?thesis by simp
next
  case (Finishing am m1 mid)
  have none: "Games_lookup g' p = None"
    using forget_lookup [OF assms(1) Finishing(2,3), of p] Finishing(2,8)
    by (simp add: same_game_def)
  have "am_X (after_move am m1) \<noteq> am_O (after_move am m1)"
    using live_players [OF Finishing(4)] after_move_players [OF Finishing(5)]
    by (simp add: two_players_def)
  from move_effect_results [OF assms(2) after_move_storable [OF Finishing(4,5)] this, of EventMatchEnded] none Finishing
    after_move_players [OF Finishing(5)]
  show ?thesis by (simp cong: if_cong)
qed (use assms in \<open>simp_all split: option.split\<close>)

lemma Start_statistics:
  assumes "good w" and "Games_Start d px po (g, w) = (e, g', w')"
  shows "view w' = view w \<and> good w'"
proof (cases e)
  case None
  then obtain xp op mid w1 where ok:
    "rec_ByID (d_players d) px w = Inr xp" "rec_ByID (d_players d) po w = Inr op"
    "g_NewID (d_ids d) w = (mid, w1)" "px \<noteq> po" "\<not> Games_InMatch px g" "\<not> Games_InMatch po g"
    using assms(2) by (auto elim: Start_success)
  have "view w1 = view w" "good w1" using NewID_frame(1,2) [of w] ok(3) assms(1) by simp_all
  with persist_effect [OF _ started_storable [OF ok(4)], of w1 mid xp op] Start_ok [OF ok] assms(2) None
  show ?thesis by auto
next
  case (Some e')
  with assms NewID_frame [of w] show ?thesis
    by (auto simp: Games_Start_def Let_def split: sum.splits prod.splits if_splits)
qed

lemma Abandon_statistics:
  assumes "good w" and "Games_Abandon d p (g, w) = (g', w')"
  shows "view w' = view w \<and> good w'"
  using assms by (auto simp: Games_Abandon_def Notify_frame Let_def split: option.splits)

end

end
