(* ===== verification/Protocol.thy ===== *)
theory Protocol
  imports Ports
begin

text \<open>
  The wire format: \<open>internal/adapter/transport/protocol.go\<close> and the classification of errors in
  \<open>internal/adapter/transport/errors.go\<close>. The JSON encoder of the standard library turns these
  records into text; the records are the model's messages.
\<close>

section \<open>Messages\<close>

record command =
  cmd_Type :: string
  cmd_Cell :: int

record matchState =
  w_MatchID :: string
  w_Cells :: "string list"
  w_YourMark :: string
  w_Turn :: string
  w_Status :: string
  w_Outcome :: string
  w_Opponent :: string
  w_Finished :: bool

record frame =
  f_Type :: string
  f_Of :: string
  f_MatchID :: string
  f_State :: "matchState option"
  f_Code :: string
  f_Message :: string

definition cmdJoin :: string where "cmdJoin = ''join''"
definition cmdLeave :: string where "cmdLeave = ''leave''"
definition cmdMove :: string where "cmdMove = ''move''"
definition cmdState :: string where "cmdState = ''state''"
definition cmdResign :: string where "cmdResign = ''resign''"
definition frameAck :: string where "frameAck = ''ack''"
definition frameError :: string where "frameError = ''error''"

lemmas cmd_defs = cmdJoin_def cmdLeave_def cmdMove_def cmdState_def cmdResign_def

text \<open>Go's zero value of \<open>frame\<close>; the constructors below set some of its fields.\<close>

definition empty_frame :: frame where
  "empty_frame = \<lparr>f_Type = [], f_Of = [], f_MatchID = [], f_State = None, f_Code = [], f_Message = []\<rparr>"

fun markString :: "Mark \<Rightarrow> string" where
  "markString X = ''X''"
| "markString Mark.O = ''O''"
| "markString Empty = []"

fun outcomeString :: "Outcome \<Rightarrow> string" where
  "outcomeString OutcomeWin = ''win''"
| "outcomeString OutcomeLoss = ''loss''"
| "outcomeString OutcomeDraw = ''draw''"
| "outcomeString OutcomeUndecided = ''undecided''"

definition cells :: "Board \<Rightarrow> string list" where
  "cells b = map (\<lambda>i. markString (Board_Cell b (int i))) [0..<BoardSize]"

definition newMatchState :: "MatchState \<Rightarrow> matchState" where
  "newMatchState s =
     \<lparr>w_MatchID = s_MatchID s, w_Cells = cells (s_Cells s), w_YourMark = markString (s_YourMark s),
      w_Turn = markString (s_Turn s), w_Status = Status_String (s_Status s),
      w_Outcome = outcomeString (s_Outcome s), w_Opponent = s_Opponent s,
      w_Finished = Status_IsFinished (s_Status s)\<rparr>"

definition eventFrame :: "Event \<Rightarrow> frame" where
  "eventFrame ev =
     empty_frame\<lparr>f_Type := EventType_String (ev_Type ev), f_MatchID := ev_MatchID ev,
                 f_State := Some (newMatchState (ev_State ev))\<rparr>"

section \<open>Errors on the wire\<close>

record errorResponse =
  er_Code :: string
  er_Message :: string

definition statusFor :: "string \<Rightarrow> nat" where
  "statusFor code =
     (if code = Code ErrInvalidToken \<or> code = Code ErrInvalidCredentials \<or> code = Code errMissingToken
      then 401
      else if code = Code ErrNameTaken then 409
      else if code = Code ErrPlayerNotFound \<or> code = Code ErrNoActiveMatch then 404
      else if code = Code ErrAlreadyQueued \<or> code = Code ErrAlreadyInMatch
           \<or> code = Code ErrNotYourTurn \<or> code = Code ErrCellOccupied \<or> code = Code ErrMatchFinished
      then 409
      else 400)"

definition internal_error :: errorResponse where
  "internal_error = \<lparr>er_Code = ''INTERNAL'', er_Message = ''internal error''\<rparr>"

definition classify :: "goerr \<Rightarrow> nat \<times> errorResponse" where
  "classify err =
     (case errors_As err of
        None \<Rightarrow> (500, internal_error)
      | Some de \<Rightarrow> (statusFor (Code de), \<lparr>er_Code = Code de, er_Message = Message de\<rparr>))"

definition errorFrame :: "goerr \<Rightarrow> frame" where
  "errorFrame err =
     (let body = snd (classify err)
      in empty_frame\<lparr>f_Type := frameError, f_Code := er_Code body, f_Message := er_Message body\<rparr>)"

section \<open>Facts\<close>

lemma markString_inj: "markString k = markString l \<Longrightarrow> k = l"
  by (cases k; cases l) simp_all

lemma Status_String_inj: "Status_String s = Status_String t \<Longrightarrow> s = t"
  by (cases s; cases t) simp_all

lemma outcomeString_inj: "outcomeString a = outcomeString b \<Longrightarrow> a = b"
  by (cases a; cases b) simp_all

lemma cells_inj:
  assumes "wf_board b" and "wf_board b'" and "cells b = cells b'"
  shows "b = b'"
proof (rule nth_equalityI)
  show "length b = length b'" using assms by (simp add: wf_board_def)
  fix i
  assume "i < length b"
  then have i: "i < 9" using assms by (simp add: wf_board_def)
  have "cells b ! i = cells b' ! i" using assms(3) by simp
  with i show "b ! i = b' ! i"
    by (simp add: cells_def Board_Cell_def markString_inj)
qed

lemma statusFor_range: "statusFor c \<in> {400, 401, 404, 409}"
  by (simp add: statusFor_def)

end
