(* ===== verification/Hub_Model.thy ===== *)
theory Hub_Model
  imports Protocol "HOL-Library.AList"
begin

text \<open>
  \<open>internal/adapter/transport/hub.go\<close> and the life of a socket in
  \<open>internal/adapter/transport/conn.go\<close>.

  A \<open>*client\<close> is a pointer, so clients live in a heap indexed by numbers; the hub maps a player
  to a pointer. The channel \<open>send\<close> is the list of frames buffered in it, \<open>done\<close> says whether
  the client was closed (the \<open>sync.Once\<close> makes a second close a no-op, so closing sets a
  flag). On the server \<open>writePump\<close> is the step that takes the next frame out of the buffer; its
  pings, its end and the deadlines are in the theory Pumps. The bytes on the socket are not
  modelled.
\<close>

definition sendBuffer :: nat where
  "sendBuffer = 16"

record client =
  c_id :: PlayerID
  c_send :: "frame list"
  c_done :: bool

record Hub =
  h_clients :: "(PlayerID \<times> nat) list"
  h_heap :: "nat \<rightharpoonup> client"

definition NewHub :: Hub where
  "NewHub = \<lparr>h_clients = [], h_heap = Map.empty\<rparr>"

section \<open>Clients\<close>

definition client_close :: "client \<Rightarrow> client" where
  "client_close c = c\<lparr>c_done := True\<rparr>"

definition client_push :: "frame \<Rightarrow> client \<Rightarrow> bool \<times> client" where
  "client_push f c =
     (if c_done c then (False, c)
      else if length (c_send c) < sendBuffer then (True, c\<lparr>c_send := c_send c @ [f]\<rparr>)
      else (False, c))"

definition heap_close :: "nat \<Rightarrow> Hub \<Rightarrow> Hub" where
  "heap_close k h =
     (case h_heap h k of None \<Rightarrow> h | Some c \<Rightarrow> h\<lparr>h_heap := (h_heap h)(k \<mapsto> client_close c)\<rparr>)"

definition heap_push :: "nat \<Rightarrow> frame \<Rightarrow> Hub \<Rightarrow> bool \<times> Hub" where
  "heap_push k f h =
     (case h_heap h k of
        None \<Rightarrow> (False, h)
      | Some c \<Rightarrow>
          (case client_push f c of (ok, c1) \<Rightarrow> (ok, h\<lparr>h_heap := (h_heap h)(k \<mapsto> c1)\<rparr>)))"

text \<open>One round of \<open>writePump\<close>: the next buffered frame goes to the socket.\<close>

definition writePump_step :: "nat \<Rightarrow> Hub \<Rightarrow> frame option \<times> Hub" where
  "writePump_step k h =
     (case h_heap h k of
        None \<Rightarrow> (None, h)
      | Some c \<Rightarrow>
          (case c_send c of
             [] \<Rightarrow> (None, h)
           | f # fs \<Rightarrow> (Some f, h\<lparr>h_heap := (h_heap h)(k \<mapsto> c\<lparr>c_send := fs\<rparr>)\<rparr>)))"

section \<open>The hub\<close>

definition Hub_Notify :: "PlayerID \<Rightarrow> Event \<Rightarrow> Hub \<Rightarrow> Hub" where
  "Hub_Notify i ev h =
     (case map_of (h_clients h) i of
        None \<Rightarrow> h
      | Some k \<Rightarrow>
          (case heap_push k (eventFrame ev) h of
             (ok, h1) \<Rightarrow> if \<not> ok then heap_close k h1 else h1))"

definition Hub_register :: "nat \<Rightarrow> PlayerID \<Rightarrow> Hub \<Rightarrow> Hub" where
  "Hub_register k i h =
     (let old = map_of (h_clients h) i; h1 = h\<lparr>h_clients := AList.update i k (h_clients h)\<rparr>
      in case old of None \<Rightarrow> h1 | Some k0 \<Rightarrow> heap_close k0 h1)"

definition Hub_unregister :: "nat \<Rightarrow> PlayerID \<Rightarrow> Hub \<Rightarrow> Hub" where
  "Hub_unregister k i h =
     (case map_of (h_clients h) i of
        None \<Rightarrow> h
      | Some current \<Rightarrow>
          if current = k then h\<lparr>h_clients := AList.delete i (h_clients h)\<rparr> else h)"

definition Hub_Online :: "Hub \<Rightarrow> nat" where
  "Hub_Online h = length (h_clients h)"

text \<open>The part of \<open>handleWS\<close> after the upgrade: a new client at a fresh address, registered.\<close>

definition new_client :: "PlayerID \<Rightarrow> client" where
  "new_client i = \<lparr>c_id = i, c_send = [], c_done = False\<rparr>"

definition Hub_connect :: "nat \<Rightarrow> PlayerID \<Rightarrow> Hub \<Rightarrow> Hub" where
  "Hub_connect k i h = Hub_register k i (h\<lparr>h_heap := (h_heap h)(k \<mapsto> new_client i)\<rparr>)"

section \<open>The invariant\<close>

text \<open>
  Registered pointers point at clients of the right player; buffers hold at most
  \<open>sendBuffer\<close> frames; an open client is the registered one, so a player has at most one.
\<close>

definition hub_inv :: "Hub \<Rightarrow> bool" where
  "hub_inv h \<longleftrightarrow>
     distinct (map fst (h_clients h))
     \<and> (\<forall>i k. map_of (h_clients h) i = Some k \<longrightarrow> (\<exists>c. h_heap h k = Some c \<and> c_id c = i))
     \<and> (\<forall>k c. h_heap h k = Some c \<longrightarrow> length (c_send c) \<le> sendBuffer
          \<and> (c_done c \<or> map_of (h_clients h) (c_id c) = Some k))"

lemma hub_invI:
  assumes "distinct (map fst (h_clients h))"
    and "\<And>i k. map_of (h_clients h) i = Some k \<Longrightarrow> \<exists>c. h_heap h k = Some c \<and> c_id c = i"
    and "\<And>k c. h_heap h k = Some c \<Longrightarrow> length (c_send c) \<le> sendBuffer"
    and "\<And>k c. h_heap h k = Some c \<Longrightarrow> \<not> c_done c \<Longrightarrow> map_of (h_clients h) (c_id c) = Some k"
  shows "hub_inv h"
  unfolding hub_inv_def using assms by blast

lemma hub_invD:
  assumes "hub_inv h"
  shows "distinct (map fst (h_clients h))"
    and "map_of (h_clients h) i = Some k \<Longrightarrow> \<exists>c. h_heap h k = Some c \<and> c_id c = i"
    and "h_heap h k = Some c \<Longrightarrow> length (c_send c) \<le> sendBuffer"
    and "h_heap h k = Some c \<Longrightarrow> \<not> c_done c \<Longrightarrow> map_of (h_clients h) (c_id c) = Some k"
  using assms unfolding hub_inv_def by blast+

lemma hub_inv_new [simp]: "hub_inv NewHub"
  by (rule hub_invI) (simp_all add: NewHub_def)

text \<open>Changing one client without reopening it or moving it to another player.\<close>

lemma heap_update_inv:
  assumes "hub_inv h" and "h_heap h k = Some c" and "c_id c' = c_id c"
    and "length (c_send c') \<le> sendBuffer" and "c_done c \<longrightarrow> c_done c'"
  shows "hub_inv (h\<lparr>h_heap := (h_heap h)(k \<mapsto> c')\<rparr>)"
proof (rule hub_invI)
  fix i j
  assume "map_of (h_clients (h\<lparr>h_heap := (h_heap h)(k \<mapsto> c')\<rparr>)) i = Some j"
  then obtain b where "h_heap h j = Some b" "c_id b = i"
    using hub_invD(2) [OF assms(1)] by auto
  with assms(2,3) show "\<exists>b. h_heap (h\<lparr>h_heap := (h_heap h)(k \<mapsto> c')\<rparr>) j = Some b \<and> c_id b = i"
    by auto
next
  fix j b
  assume "h_heap (h\<lparr>h_heap := (h_heap h)(k \<mapsto> c')\<rparr>) j = Some b" "\<not> c_done b"
  then show "map_of (h_clients (h\<lparr>h_heap := (h_heap h)(k \<mapsto> c')\<rparr>)) (c_id b) = Some j"
    using hub_invD(4) [OF assms(1)] assms(2,3,5) by (auto split: if_splits)
qed (use assms(4) hub_invD(1,3) [OF assms(1)] in \<open>auto split: if_splits\<close>)

lemma push_facts:
  "client_push f c = (ok, c') \<Longrightarrow> c_id c' = c_id c \<and> c_done c' = c_done c
   \<and> (length (c_send c) \<le> sendBuffer \<longrightarrow> length (c_send c') \<le> sendBuffer)"
  by (auto simp: client_push_def split: if_splits)

lemma heap_close_inv:
  assumes "hub_inv h"
  shows "hub_inv (heap_close k h)"
proof (cases "h_heap h k")
  case None
  with assms show ?thesis by (simp add: heap_close_def)
next
  case (Some c)
  with heap_update_inv [OF assms Some, of "client_close c"] hub_invD(3) [OF assms Some]
  show ?thesis by (simp add: heap_close_def client_close_def)
qed

lemma heap_push_inv:
  assumes "hub_inv h"
  shows "hub_inv (snd (heap_push k f h))"
proof (cases "h_heap h k")
  case None
  with assms show ?thesis by (simp add: heap_push_def)
next
  case (Some c)
  obtain ok c' where push: "client_push f c = (ok, c')" by fastforce
  from push_facts [OF push] hub_invD(3) [OF assms Some]
  have "hub_inv (h\<lparr>h_heap := (h_heap h)(k \<mapsto> c')\<rparr>)"
    by (intro heap_update_inv [OF assms Some]) auto
  with Some push show ?thesis by (simp add: heap_push_def)
qed

lemma Notify_inv:
  assumes "hub_inv h"
  shows "hub_inv (Hub_Notify i ev h)"
proof (cases "map_of (h_clients h) i")
  case None
  with assms show ?thesis by (simp add: Hub_Notify_def)
next
  case (Some k)
  obtain ok h1 where push: "heap_push k (eventFrame ev) h = (ok, h1)" by fastforce
  with heap_push_inv [OF assms, of k "eventFrame ev"] have "hub_inv h1" by simp
  with Some push heap_close_inv [of h1 k] show ?thesis by (simp add: Hub_Notify_def)
qed

lemma writePump_inv:
  assumes "hub_inv h"
  shows "hub_inv (snd (writePump_step k h))"
proof (cases "h_heap h k")
  case None
  with assms show ?thesis by (simp add: writePump_step_def)
next
  case (Some c)
  show ?thesis
  proof (cases "c_send c")
    case Nil
    with Some assms show ?thesis by (simp add: writePump_step_def)
  next
    case (Cons f fs)
    with hub_invD(3) [OF assms Some] have "hub_inv (h\<lparr>h_heap := (h_heap h)(k \<mapsto> c\<lparr>c_send := fs\<rparr>)\<rparr>)"
      by (intro heap_update_inv [OF assms Some]) auto
    with Some Cons show ?thesis by (simp add: writePump_step_def)
  qed
qed

section \<open>Connecting and disconnecting\<close>

lemma heap_close_sel [simp]:
  "h_clients (heap_close k h) = h_clients h"
  "h_heap (heap_close k h) j =
     (if j = k then map_option client_close (h_heap h k) else h_heap h j)"
  by (auto simp: heap_close_def split: option.split)

lemma connect_sel:
  "map_of (h_clients (Hub_connect k i h)) = (map_of (h_clients h))(i \<mapsto> k)"
  "h_heap (Hub_connect k i h) j =
     (let hp = (h_heap h)(k \<mapsto> new_client i)
      in if map_of (h_clients h) i = Some j then map_option client_close (hp j) else hp j)"
  by (auto simp: Hub_connect_def Hub_register_def Let_def update_conv' split: option.split)

lemma connect_inv:
  assumes inv: "hub_inv h" and fresh: "h_heap h k = None"
  shows "hub_inv (Hub_connect k i h)"
proof (rule hub_invI)
  have old: "map_of (h_clients h) j \<noteq> Some k" for j
    using hub_invD(2) [OF inv, of j k] fresh by auto
  show "distinct (map fst (h_clients (Hub_connect k i h)))"
    using hub_invD(1) [OF inv]
    by (simp add: Hub_connect_def Hub_register_def Let_def distinct_update split: option.split)
  fix j k'
  {
    assume "map_of (h_clients (Hub_connect k i h)) j = Some k'"
    then show "\<exists>c. h_heap (Hub_connect k i h) k' = Some c \<and> c_id c = j"
      using hub_invD(2) [OF inv, of j k'] old
      by (auto simp: connect_sel Let_def new_client_def client_close_def split: if_splits)
  next
    fix c
    assume c: "h_heap (Hub_connect k i h) k' = Some c"
    then show "length (c_send c) \<le> sendBuffer"
      using hub_invD(3) [OF inv, of k']
      by (auto simp: connect_sel Let_def new_client_def client_close_def split: if_splits)
    assume "\<not> c_done c"
    with c old hub_invD(4) [OF inv, of k']
    show "map_of (h_clients (Hub_connect k i h)) (c_id c) = Some k'"
      by (auto simp: connect_sel Let_def new_client_def client_close_def split: if_splits)
  }
qed

lemma unregister_sel:
  "h_heap (Hub_unregister k i h) = h_heap h"
  "map_of (h_clients (Hub_unregister k i h)) j =
     (if j = i \<and> map_of (h_clients h) i = Some k then None else map_of (h_clients h) j)"
  by (auto simp: Hub_unregister_def delete_conv' split: option.split)

text \<open>The hub's part of the teardown of a connection: unregister, and in the end close.\<close>

lemma unregister_close_inv:
  assumes inv: "hub_inv h" and "h_heap h k = Some c" and "c_id c = i"
  shows "hub_inv (heap_close k (Hub_unregister k i h))"
proof (rule hub_invI)
  show "distinct (map fst (h_clients (heap_close k (Hub_unregister k i h))))"
    using hub_invD(1) [OF inv]
    by (simp add: Hub_unregister_def distinct_delete split: option.split)
  fix j k'
  {
    assume "map_of (h_clients (heap_close k (Hub_unregister k i h))) j = Some k'"
    then show "\<exists>c. h_heap (heap_close k (Hub_unregister k i h)) k' = Some c \<and> c_id c = j"
      using hub_invD(2) [OF inv, of j k']
      by (auto simp: unregister_sel client_close_def split: if_splits)
  next
    fix b
    assume b: "h_heap (heap_close k (Hub_unregister k i h)) k' = Some b"
    then show "length (c_send b) \<le> sendBuffer"
      using hub_invD(3) [OF inv, of k']
      by (auto simp: unregister_sel client_close_def split: if_splits)
    assume "\<not> c_done b"
    with b hub_invD(4) [OF inv, of k']
    show "map_of (h_clients (heap_close k (Hub_unregister k i h))) (c_id b) = Some k'"
      by (auto simp: unregister_sel client_close_def split: if_splits)
  }
qed

text \<open>
  Closing a client nobody is registered under commutes with notifications, so the order of the
  deferred calls of \<open>readPump\<close> (close last) does not matter.
\<close>

lemma Notify_clients [simp]: "h_clients (Hub_Notify i ev h) = h_clients h"
  by (auto simp: Hub_Notify_def heap_push_def split: option.split prod.split)

lemma Notify_close_commute:
  assumes "map_of (h_clients h) i \<noteq> Some k"
  shows "heap_close k (Hub_Notify i ev h) = Hub_Notify i ev (heap_close k h)"
proof (cases "map_of (h_clients h) i")
  case None
  then show ?thesis by (simp add: Hub_Notify_def)
next
  case (Some j)
  with assms have "j \<noteq> k" by simp
  obtain c where "h_heap h j = None \<or> h_heap h j = Some c" by (cases "h_heap h j") auto
  with Some \<open>j \<noteq> k\<close> show ?thesis
    by (auto simp: Hub_Notify_def heap_push_def heap_close_def fun_upd_twist
        split: option.split prod.split)
qed

lemma unregister_unregistered:
  assumes "hub_inv h" and "h_heap h k = Some c" and "c_id c = i"
  shows "map_of (h_clients (Hub_unregister k i h)) j \<noteq> Some k"
  using assms hub_invD(2) [OF assms(1), of j k] by (auto simp: unregister_sel)

end
