(* ===== verification/Http_Model.thy ===== *)
theory Http_Model
  imports Auth_Model Games_Services Hub_Model
begin

text \<open>
  The HTTP side of \<open>internal/adapter/transport\<close> (\<open>http.go\<close>, \<open>router.go\<close>) and the commands a
  socket carries (\<open>dispatch\<close> of \<open>conn.go\<close>). Both act on the same state: the queue, the games,
  and the state \<open>'w\<close> behind the ports.

  The JSON decoder of the standard library is applied before the model: a request carries the
  decoded body, \<open>None\<close> when it was not valid JSON. Headers and query parameters are the strings
  the handlers read. A response is a status and a body; encoding it and writing it to the
  connection is I/O.
\<close>

record 'w Deps =
  dp_auth :: "'w AuthDeps"
  dp_games :: "'w GamesDeps"
  dp_standings :: "'w StandingsReader"
  dp_health :: "('w \<Rightarrow> goerr option) option"

record 'w Server =
  sv_mm :: Matchmaking
  sv_games :: Games
  sv_world :: 'w

record credentials =
  cr_Name :: string
  cr_Password :: string

record Request =
  rq_Method :: string
  rq_Path :: string
  rq_Authorization :: string
  rq_Limit :: string
  rq_Credentials :: "credentials option"
  rq_Cell :: "int option"

datatype Body =
  ErrorBody errorResponse
| TokenBody string
| StandingsBody "Standing list"
| QueueBody int
| StateBody matchState
| TextBody string
| NoBody

record Response =
  rs_Status :: nat
  rs_Body :: Body

section \<open>The queue and the games inside the server\<close>

definition server_join :: "'w Deps \<Rightarrow> PlayerID \<Rightarrow> 'w Server \<Rightarrow> goerr option \<times> 'w Server" where
  "server_join dp i s =
     (case Matchmaking_Join (games_matches (dp_games dp)) i (sv_mm s, sv_games s, sv_world s) of
        (e, m, g, w) \<Rightarrow> (e, s\<lparr>sv_mm := m, sv_games := g, sv_world := w\<rparr>))"

definition server_leave :: "PlayerID \<Rightarrow> 'w Server \<Rightarrow> 'w Server" where
  "server_leave i s = s\<lparr>sv_mm := Matchmaking_Leave i (sv_mm s)\<rparr>"

definition server_move ::
  "'w Deps \<Rightarrow> PlayerID \<Rightarrow> int \<Rightarrow> 'w Server \<Rightarrow> (goerr + MatchState) \<times> 'w Server" where
  "server_move dp i cell s =
     (case Games_Move (dp_games dp) i cell (sv_games s, sv_world s) of
        (r, g, w) \<Rightarrow> (r, s\<lparr>sv_games := g, sv_world := w\<rparr>))"

definition server_abandon :: "'w Deps \<Rightarrow> PlayerID \<Rightarrow> 'w Server \<Rightarrow> 'w Server" where
  "server_abandon dp i s =
     (case Games_Abandon (dp_games dp) i (sv_games s, sv_world s) of
        (g, w) \<Rightarrow> s\<lparr>sv_games := g, sv_world := w\<rparr>)"

section \<open>Commands on a socket\<close>

definition ack :: "string \<Rightarrow> frame" where
  "ack cmd = empty_frame\<lparr>f_Type := frameAck, f_Of := cmd\<rparr>"

definition client_dispatch ::
  "'w Deps \<Rightarrow> PlayerID \<Rightarrow> command \<Rightarrow> 'w Server \<Rightarrow> (goerr + frame) \<times> 'w Server" where
  "client_dispatch dp i cmd s =
     (if cmd_Type cmd = cmdJoin then
        (case server_join dp i s of
           (Some e, s1) \<Rightarrow> (Inl e, s1)
         | (None, s1) \<Rightarrow> (Inr (ack (cmd_Type cmd)), s1))
      else if cmd_Type cmd = cmdLeave then (Inr (ack (cmd_Type cmd)), server_leave i s)
      else if cmd_Type cmd = cmdMove then
        (case server_move dp i (cmd_Cell cmd) s of
           (Inl e, s1) \<Rightarrow> (Inl e, s1)
         | (Inr st, s1) \<Rightarrow> (Inr (ack (cmd_Type cmd)), s1))
      else if cmd_Type cmd = cmdResign then
        (if \<not> Games_InMatch i (sv_games s) then (Inl (Domain ErrNoActiveMatch), s)
         else (Inr (ack (cmd_Type cmd)), server_abandon dp i s))
      else if cmd_Type cmd = cmdState then
        (case Games_State i (sv_games s) of
           Inl e \<Rightarrow> (Inl e, s)
         | Inr st \<Rightarrow>
             (Inr (empty_frame\<lparr>f_Type := EventType_String EventStateChanged,
                   f_MatchID := s_MatchID st, f_State := Some (newMatchState st)\<rparr>), s))
      else (Inl (Domain errUnknownCmd), s))"

section \<open>HTTP handlers\<close>

definition writeJSON :: "nat \<Rightarrow> Body \<Rightarrow> Response" where
  "writeJSON status body = \<lparr>rs_Status = status, rs_Body = body\<rparr>"

definition writeError :: "goerr \<Rightarrow> Response" where
  "writeError err = (case classify err of (status, body) \<Rightarrow> writeJSON status (ErrorBody body))"

definition bearer :: string where
  "bearer = ''Bearer ''"

definition playerOf :: "'w Deps \<Rightarrow> Request \<Rightarrow> 'w \<Rightarrow> goerr + PlayerID" where
  "playerOf dp r w =
     (case CutPrefix (rq_Authorization r) bearer of
        (token, ok) \<Rightarrow>
          if \<not> ok \<or> TrimSpace token = [] then Inl (Domain errMissingToken)
          else Auth_Authenticate (dp_auth dp) (TrimSpace token) w)"

definition authenticated ::
  "'w Deps \<Rightarrow> (PlayerID \<Rightarrow> 'w Server \<Rightarrow> Response \<times> 'w Server) \<Rightarrow> Request \<Rightarrow> 'w Server \<Rightarrow>
   Response \<times> 'w Server" where
  "authenticated dp next r s =
     (case playerOf dp r (sv_world s) of
        Inl e \<Rightarrow> (writeError e, s)
      | Inr i \<Rightarrow> next i s)"

definition decode_body :: "'b option \<Rightarrow> goerr + 'b" where
  "decode_body body = (case body of None \<Rightarrow> Inl (Domain errMalformedBody) | Some b \<Rightarrow> Inr b)"

definition handleHealth :: "'w Deps \<Rightarrow> 'w Server \<Rightarrow> Response \<times> 'w Server" where
  "handleHealth dp s =
     (case dp_health dp of
        None \<Rightarrow> (\<lparr>rs_Status = 200, rs_Body = TextBody ''ok''\<rparr>, s)
      | Some check \<Rightarrow>
          (case check (sv_world s) of
             Some e \<Rightarrow>
               (writeJSON 503 (ErrorBody \<lparr>er_Code = ''UNAVAILABLE'',
                  er_Message = ''database is not reachable''\<rparr>), s)
           | None \<Rightarrow> (\<lparr>rs_Status = 200, rs_Body = TextBody ''ok''\<rparr>, s)))"

definition handleRegister :: "'w Deps \<Rightarrow> Request \<Rightarrow> 'w Server \<Rightarrow> Response \<times> 'w Server" where
  "handleRegister dp r s =
     (case decode_body (rq_Credentials r) of
        Inl e \<Rightarrow> (writeError e, s)
      | Inr creds \<Rightarrow>
          (case Auth_Register (dp_auth dp) (cr_Name creds) (cr_Password creds) (sv_world s) of
             (Inl e, w) \<Rightarrow> (writeError e, s\<lparr>sv_world := w\<rparr>)
           | (Inr token, w) \<Rightarrow> (writeJSON 201 (TokenBody token), s\<lparr>sv_world := w\<rparr>)))"

definition handleLogin :: "'w Deps \<Rightarrow> Request \<Rightarrow> 'w Server \<Rightarrow> Response \<times> 'w Server" where
  "handleLogin dp r s =
     (case decode_body (rq_Credentials r) of
        Inl e \<Rightarrow> (writeError e, s)
      | Inr creds \<Rightarrow>
          (case Auth_Login (dp_auth dp) (cr_Name creds) (cr_Password creds) (sv_world s) of
             Inl e \<Rightarrow> (writeError e, s)
           | Inr token \<Rightarrow> (writeJSON 200 (TokenBody token), s)))"

definition handleLeaderboard :: "'w Deps \<Rightarrow> Request \<Rightarrow> 'w Server \<Rightarrow> Response \<times> 'w Server" where
  "handleLeaderboard dp r s =
     (let limit = (case Atoi (rq_Limit r) of Inl e \<Rightarrow> DefaultLeaderboardLimit | Inr n \<Rightarrow> n)
      in case Leaderboard_Top (dp_standings dp) limit (sv_world s) of
           Inl e \<Rightarrow> (writeError e, s)
         | Inr standings \<Rightarrow> (writeJSON 200 (StandingsBody standings), s))"

definition handleJoin :: "'w Deps \<Rightarrow> PlayerID \<Rightarrow> 'w Server \<Rightarrow> Response \<times> 'w Server" where
  "handleJoin dp i s =
     (case server_join dp i s of
        (Some e, s1) \<Rightarrow> (writeError e, s1)
      | (None, s1) \<Rightarrow> (writeJSON 202 (QueueBody (Matchmaking_Waiting (sv_mm s1))), s1))"

definition handleLeave :: "PlayerID \<Rightarrow> 'w Server \<Rightarrow> Response \<times> 'w Server" where
  "handleLeave i s =
     (let s1 = server_leave i s
      in (writeJSON 200 (QueueBody (Matchmaking_Waiting (sv_mm s1))), s1))"

definition handleState :: "PlayerID \<Rightarrow> 'w Server \<Rightarrow> Response \<times> 'w Server" where
  "handleState i s =
     (case Games_State i (sv_games s) of
        Inl e \<Rightarrow> (writeError e, s)
      | Inr st \<Rightarrow> (writeJSON 200 (StateBody (newMatchState st)), s))"

definition handleMove :: "'w Deps \<Rightarrow> Request \<Rightarrow> PlayerID \<Rightarrow> 'w Server \<Rightarrow> Response \<times> 'w Server" where
  "handleMove dp r i s =
     (case decode_body (rq_Cell r) of
        Inl e \<Rightarrow> (writeError e, s)
      | Inr cell \<Rightarrow>
          (case server_move dp i cell s of
             (Inl e, s1) \<Rightarrow> (writeError e, s1)
           | (Inr st, s1) \<Rightarrow> (writeJSON 200 (StateBody (newMatchState st)), s1)))"

definition handleResign :: "'w Deps \<Rightarrow> PlayerID \<Rightarrow> 'w Server \<Rightarrow> Response \<times> 'w Server" where
  "handleResign dp i s =
     (if \<not> Games_InMatch i (sv_games s) then (writeError (Domain ErrNoActiveMatch), s)
      else (\<lparr>rs_Status = 204, rs_Body = NoBody\<rparr>, server_abandon dp i s))"

section \<open>The router\<close>

text \<open>
  The patterns of \<open>NewRouter\<close>, in its order. A pattern with the method GET also matches HEAD;
  a path known under other methods only is answered 405, an unknown path 404 (both by the
  standard library's \<open>ServeMux\<close>). \<open>GET /ws\<close> is not a request with a response: connecting is
  an operation of its own (theory \<open>Server\<close>).
\<close>

datatype Route =
  Health | Register | Login | LeaderboardR | Join | Leave | State | Move | Resign | WS

definition patterns :: "(string \<times> string \<times> Route) list" where
  "patterns =
     [(''GET'', ''/healthz'', Health),
      (''POST'', ''/register'', Register),
      (''POST'', ''/login'', Login),
      (''GET'', ''/leaderboard'', LeaderboardR),
      (''POST'', ''/matchmaking/join'', Join),
      (''POST'', ''/matchmaking/leave'', Leave),
      (''GET'', ''/match'', State),
      (''POST'', ''/match/move'', Move),
      (''POST'', ''/match/resign'', Resign),
      (''GET'', ''/ws'', WS)]"

definition method_matches :: "string \<Rightarrow> string \<Rightarrow> bool" where
  "method_matches pat m \<longleftrightarrow> pat = m \<or> pat = ''GET'' \<and> m = ''HEAD''"

definition route_of :: "Request \<Rightarrow> nat + Route" where
  "route_of r =
     (case find (\<lambda>(m, p, rt). p = rq_Path r \<and> method_matches m (rq_Method r)) patterns of
        Some (m, p, rt) \<Rightarrow> Inr rt
      | None \<Rightarrow> Inl (if \<exists>(m, p, rt) \<in> set patterns. p = rq_Path r then 405 else 404))"

fun run_route :: "'w Deps \<Rightarrow> Route \<Rightarrow> Request \<Rightarrow> 'w Server \<Rightarrow> Response \<times> 'w Server" where
  "run_route dp Health r s = handleHealth dp s"
| "run_route dp Register r s = handleRegister dp r s"
| "run_route dp Login r s = handleLogin dp r s"
| "run_route dp LeaderboardR r s = handleLeaderboard dp r s"
| "run_route dp Join r s = authenticated dp (handleJoin dp) r s"
| "run_route dp Leave r s = authenticated dp handleLeave r s"
| "run_route dp State r s = authenticated dp handleState r s"
| "run_route dp Move r s = authenticated dp (handleMove dp r) r s"
| "run_route dp Resign r s = authenticated dp (handleResign dp) r s"
| "run_route dp WS r s = authenticated dp (\<lambda>i s. (\<lparr>rs_Status = 101, rs_Body = NoBody\<rparr>, s)) r s"

definition handle :: "'w Deps \<Rightarrow> Request \<Rightarrow> 'w Server \<Rightarrow> Response \<times> 'w Server" where
  "handle dp r s =
     (case route_of r of
        Inl status \<Rightarrow> (\<lparr>rs_Status = status, rs_Body = NoBody\<rparr>, s)
      | Inr rt \<Rightarrow> run_route dp rt r s)"

section \<open>Facts\<close>

fun protected :: "Route \<Rightarrow> bool" where
  "protected Health = False"
| "protected Register = False"
| "protected Login = False"
| "protected LeaderboardR = False"
| "protected _ = True"

lemma writeError_Domain:
  "writeError (Domain e) =
     \<lparr>rs_Status = statusFor (Code e), rs_Body = ErrorBody \<lparr>er_Code = Code e, er_Message = Message e\<rparr>\<rparr>"
  by (simp add: writeError_def classify_def writeJSON_def)

lemma playerOf_Inl:
  "playerOf dp r w = Inl e \<Longrightarrow> e = Domain errMissingToken \<or> e = Domain ErrInvalidToken"
  by (auto simp: playerOf_def Auth_Authenticate_def split: prod.splits if_splits sum.splits)

lemma authenticated_rejects:
  "playerOf dp r (sv_world s) = Inl e \<Longrightarrow> authenticated dp next r s = (writeError e, s)"
  by (simp add: authenticated_def)

lemma protected_rejects:
  "protected rt \<Longrightarrow> playerOf dp r (sv_world s) = Inl e \<Longrightarrow> run_route dp rt r s = (writeError e, s)"
  by (cases rt) (simp_all add: authenticated_rejects)

end
