(* ===== verification/Auth_Adapters.thy ===== *)
theory Auth_Adapters
  imports Auth_Model
begin

text \<open>
  The adapters over libraries the repository does not contain: tokens
  (\<open>internal/adapter/auth/jwt.go\<close> over golang-jwt), password hashes
  (\<open>internal/adapter/auth/hash.go\<close> over bcrypt) and identifiers
  (\<open>internal/adapter/id/uuid.go\<close> over google/uuid).

  The libraries are parameters: records of functions. \<open>jwt_laws\<close> and \<open>bcrypt_laws\<close> state what
  their documentation promises and the adapters rely on; nothing is said about the text of a
  token or of a hash. Times are in nanoseconds, as \<open>time.Time\<close> counts them.
\<close>

section \<open>jwt.go\<close>

text \<open>
  A signing method is an HMAC with its name or a method of another family. The claims of a parsed
  token are read through \<open>GetSubject\<close>, which fails when the payload has something else than a
  string there; \<open>cl_Subject\<close> is its result.
\<close>

datatype SigningMethod = SigningMethodHMAC string | OtherMethod string

fun Alg :: "SigningMethod \<Rightarrow> string" where
  "Alg (SigningMethodHMAC n) = n"
| "Alg (OtherMethod n) = n"

record Claims =
  cl_Subject :: "goerr + string"
  cl_IssuedAt :: "int option"
  cl_ExpiresAt :: "int option"

record Token =
  tk_Method :: SigningMethod
  tk_Claims :: Claims

record ParserOptions =
  po_ExpirationRequired :: bool
  po_IssuedAt :: bool
  po_ValidMethods :: "string list"

text \<open>
  The library: the text of a signed token, parsing one (with options, a function from the token
  to the key, and the time), rounding a time to the precision of a token, and whether the
  signature in a text is the one a key makes for a token.
\<close>

record JwtLib =
  jwt_SignedString :: "Token \<Rightarrow> string \<Rightarrow> goerr + string"
  jwt_Parse :: "ParserOptions \<Rightarrow> (Token \<Rightarrow> goerr + string) \<Rightarrow> int \<Rightarrow> string \<Rightarrow> goerr + Token"
  jwt_NewNumericDate :: "int \<Rightarrow> int"
  jwt_signed :: "string \<Rightarrow> string \<Rightarrow> Token \<Rightarrow> bool"

record AuthProvider =
  ap_secret :: string
  ap_encAlg :: SigningMethod
  ap_ttl :: int

definition NewAuthProvider :: "string \<Rightarrow> int \<Rightarrow> goerr + AuthProvider" where
  "NewAuthProvider privateKey ttl =
     (if privateKey = [] then Inl (Opaque ''private key could not be empty'')
      else Inr \<lparr>ap_secret = privateKey, ap_encAlg = SigningMethodHMAC ''HS256'', ap_ttl = ttl\<rparr>)"

definition AuthProvider_Issue ::
  "JwtLib \<Rightarrow> AuthProvider \<Rightarrow> PlayerID \<Rightarrow> int \<Rightarrow> goerr + string" where
  "AuthProvider_Issue lib a i now =
     jwt_SignedString lib
       \<lparr>tk_Method = ap_encAlg a,
        tk_Claims = \<lparr>cl_Subject = Inr i,
                     cl_IssuedAt = Some (jwt_NewNumericDate lib now),
                     cl_ExpiresAt = Some (jwt_NewNumericDate lib (now + ap_ttl a))\<rparr>\<rparr>
       (ap_secret a)"

text \<open>The function that hands the key to the parser.\<close>

definition key_func :: "AuthProvider \<Rightarrow> Token \<Rightarrow> goerr + string" where
  "key_func a t =
     (case tk_Method t of
        OtherMethod n \<Rightarrow> Inl (Opaque ''incorrect signing alg'')
      | SigningMethodHMAC n \<Rightarrow>
      case cl_Subject (tk_Claims t) of
        Inl e \<Rightarrow> Inl e
      | Inr sub \<Rightarrow>
          if sub = [] then Inl (Opaque ''subject could not be empty'') else Inr (ap_secret a))"

definition verify_options :: ParserOptions where
  "verify_options =
     \<lparr>po_ExpirationRequired = True, po_IssuedAt = True, po_ValidMethods = [''HS256'']\<rparr>"

definition AuthProvider_Verify ::
  "JwtLib \<Rightarrow> AuthProvider \<Rightarrow> string \<Rightarrow> int \<Rightarrow> goerr + PlayerID" where
  "AuthProvider_Verify lib a token now =
     (case jwt_Parse lib verify_options (key_func a) now token of
        Inl e \<Rightarrow> Inl e
      | Inr tok \<Rightarrow>
      case cl_Subject (tk_Claims tok) of
        Inl e \<Rightarrow> Inl e
      | Inr userId \<Rightarrow> if userId = [] then Inl (Opaque ''incorrect user_id'') else Inr userId)"

section \<open>What golang-jwt promises\<close>

text \<open>The checks of the claims, with the options of the source.\<close>

definition claims_valid :: "ParserOptions \<Rightarrow> int \<Rightarrow> Claims \<Rightarrow> bool" where
  "claims_valid opts now c \<longleftrightarrow>
     (case cl_ExpiresAt c of None \<Rightarrow> \<not> po_ExpirationRequired opts | Some t \<Rightarrow> now < t)
     \<and> (po_IssuedAt opts \<longrightarrow> (case cl_IssuedAt c of None \<Rightarrow> True | Some t \<Rightarrow> t \<le> now))"

text \<open>
  The token \<open>Issue\<close> signs for a subject, with the times cut to the precision of the library. Its
  payload is JSON, so a subject that is not ASCII may come back altered.
\<close>

definition hs256_token :: "JwtLib \<Rightarrow> string \<Rightarrow> int \<Rightarrow> int \<Rightarrow> Token" where
  "hs256_token lib i issued expires =
     \<lparr>tk_Method = SigningMethodHMAC ''HS256'',
      tk_Claims = \<lparr>cl_Subject = Inr i, cl_IssuedAt = Some (jwt_NewNumericDate lib issued),
                   cl_ExpiresAt = Some (jwt_NewNumericDate lib expires)\<rparr>\<rparr>"

text \<open>
  Signing such a token with a key succeeds, and the text carries it. A text that parses
  carries a signature made with the key the key function gave, by an allowed method, over claims
  that are valid now; and a text whose signature and claims are right does parse. The text
  determines the token. Times are cut to whole seconds.
\<close>

definition jwt_laws :: "JwtLib \<Rightarrow> bool" where
  "jwt_laws lib \<longleftrightarrow>
     (\<forall>i a b key. key \<noteq> [] \<longrightarrow>
        (\<exists>s. jwt_SignedString lib (hs256_token lib i a b) key = Inr s
           \<and> (ascii i \<longrightarrow> jwt_signed lib s key (hs256_token lib i a b))))
     \<and> (\<forall>opts kf now s t. jwt_Parse lib opts kf now s = Inr t \<longleftrightarrow>
          (\<exists>key. kf t = Inr key \<and> jwt_signed lib s key t)
          \<and> Alg (tk_Method t) \<in> set (po_ValidMethods opts) \<and> claims_valid opts now (tk_Claims t))
     \<and> (\<forall>s key key' t t'. jwt_signed lib s key t \<longrightarrow> jwt_signed lib s key' t' \<longrightarrow> t = t')
     \<and> (\<forall>t. jwt_NewNumericDate lib t \<le> t \<and> t < jwt_NewNumericDate lib t + 10 ^ 9)"

lemma jwt_lawsD:
  assumes "jwt_laws lib"
  shows "key \<noteq> [] \<Longrightarrow> \<exists>s. jwt_SignedString lib (hs256_token lib i a b) key = Inr s
      \<and> (ascii i \<longrightarrow> jwt_signed lib s key (hs256_token lib i a b))"
    and "jwt_Parse lib opts kf now s = Inr t \<longleftrightarrow>
      (\<exists>key. kf t = Inr key \<and> jwt_signed lib s key t)
      \<and> Alg (tk_Method t) \<in> set (po_ValidMethods opts) \<and> claims_valid opts now (tk_Claims t)"
    and "jwt_signed lib s key t \<Longrightarrow> jwt_signed lib s key' t' \<Longrightarrow> t = t'"
    and "jwt_NewNumericDate lib time \<le> time" and "time < jwt_NewNumericDate lib time + 10 ^ 9"
proof -
  note L = assms [unfolded jwt_laws_def]
  note L2 = L [THEN conjunct2] and L3 = L [THEN conjunct2, THEN conjunct2]
  note L4 = L3 [THEN conjunct2]
  show "key \<noteq> [] \<Longrightarrow> \<exists>s. jwt_SignedString lib (hs256_token lib i a b) key = Inr s
      \<and> (ascii i \<longrightarrow> jwt_signed lib s key (hs256_token lib i a b))"
    using L [THEN conjunct1] by simp
  show "jwt_Parse lib opts kf now s = Inr t \<longleftrightarrow>
      (\<exists>key. kf t = Inr key \<and> jwt_signed lib s key t)
      \<and> Alg (tk_Method t) \<in> set (po_ValidMethods opts) \<and> claims_valid opts now (tk_Claims t)"
    using L2 [THEN conjunct1] by simp
  show "jwt_signed lib s key t \<Longrightarrow> jwt_signed lib s key' t' \<Longrightarrow> t = t'"
    using L3 [THEN conjunct1] by blast
  show "jwt_NewNumericDate lib time \<le> time" "time < jwt_NewNumericDate lib time + 10 ^ 9"
    using L4 by blast+
qed

lemma key_func_Inr:
  "key_func a t = Inr key \<longleftrightarrow>
     (\<exists>n sub. tk_Method t = SigningMethodHMAC n \<and> cl_Subject (tk_Claims t) = Inr sub \<and> sub \<noteq> []
        \<and> key = ap_secret a)"
  by (auto simp: key_func_def split: SigningMethod.split sum.split)

text \<open>What an accepted token is.\<close>

lemma Verify_Inr:
  assumes "jwt_laws lib"
  shows "AuthProvider_Verify lib a s now = Inr i \<longleftrightarrow>
    (\<exists>t. jwt_signed lib s (ap_secret a) t \<and> tk_Method t = SigningMethodHMAC ''HS256''
       \<and> cl_Subject (tk_Claims t) = Inr i \<and> i \<noteq> [] \<and> claims_valid verify_options now (tk_Claims t))"
proof -
  have "AuthProvider_Verify lib a s now = Inr i \<longleftrightarrow>
      (\<exists>t. jwt_Parse lib verify_options (key_func a) now s = Inr t
         \<and> cl_Subject (tk_Claims t) = Inr i \<and> i \<noteq> [])"
    by (auto simp: AuthProvider_Verify_def split: sum.splits if_splits)
  also have "\<dots> \<longleftrightarrow> (\<exists>t. jwt_signed lib s (ap_secret a) t \<and> tk_Method t = SigningMethodHMAC ''HS256''
      \<and> cl_Subject (tk_Claims t) = Inr i \<and> i \<noteq> [] \<and> claims_valid verify_options now (tk_Claims t))"
    unfolding jwt_lawsD(2) [OF assms]
    by (rule ex_cong1) (auto simp: key_func_Inr verify_options_def)
  finally show ?thesis .
qed

lemma NewAuthProvider_Inr:
  "NewAuthProvider key ttl = Inr a \<longleftrightarrow>
     key \<noteq> [] \<and> a = \<lparr>ap_secret = key, ap_encAlg = SigningMethodHMAC ''HS256'', ap_ttl = ttl\<rparr>"
  by (auto simp: NewAuthProvider_def)

definition provider_ok :: "AuthProvider \<Rightarrow> bool" where
  "provider_ok a \<longleftrightarrow> ap_secret a \<noteq> [] \<and> ap_encAlg a = SigningMethodHMAC ''HS256''"

lemma NewAuthProvider_ok: "NewAuthProvider key ttl = Inr a \<Longrightarrow> provider_ok a \<and> ap_ttl a = ttl"
  by (auto simp: NewAuthProvider_Inr provider_ok_def)

lemma Issue_signs:
  assumes "provider_ok a"
  shows "AuthProvider_Issue lib a i now =
    jwt_SignedString lib (hs256_token lib i now (now + ap_ttl a)) (ap_secret a)"
  using assms by (simp add: AuthProvider_Issue_def hs256_token_def provider_ok_def)

lemma Issue_total:
  assumes "jwt_laws lib" and "provider_ok a"
  shows "\<exists>tok. AuthProvider_Issue lib a i now = Inr tok"
  using jwt_lawsD(1) [OF assms(1), of "ap_secret a" i now "now + ap_ttl a"] assms(2)
  by (auto simp: Issue_signs [OF assms(2)] provider_ok_def)

text \<open>An issued token names its subject from the moment it is issued until it expires.\<close>

lemma Issue_Verify:
  assumes "jwt_laws lib" and "provider_ok a" and "ascii i"
    and "AuthProvider_Issue lib a i t0 = Inr tok"
  shows "AuthProvider_Verify lib a tok t = Inr j \<longleftrightarrow>
    j = i \<and> i \<noteq> [] \<and> jwt_NewNumericDate lib t0 \<le> t \<and> t < jwt_NewNumericDate lib (t0 + ap_ttl a)"
proof -
  let ?t = "hs256_token lib i t0 (t0 + ap_ttl a)"
  have "jwt_signed lib tok (ap_secret a) ?t"
    using jwt_lawsD(1) [OF assms(1), of "ap_secret a" i t0 "t0 + ap_ttl a"] assms(2-4)
    by (auto simp: Issue_signs [OF assms(2)] provider_ok_def)
  then have "jwt_signed lib tok (ap_secret a) t' \<longleftrightarrow> t' = ?t" for t'
    using jwt_lawsD(3) [OF assms(1), of tok "ap_secret a" ?t "ap_secret a" t'] by blast
  then show ?thesis
    by (simp add: Verify_Inr [OF assms(1)] claims_valid_def verify_options_def)
      (auto simp: hs256_token_def)
qed

section \<open>hash.go and uuid.go\<close>

text \<open>
  bcrypt draws a salt for every hash: \<open>bc_Generate\<close> has the entropy drawn so far as an argument.
\<close>

record BcryptLib =
  bc_Generate :: "nat \<Rightarrow> string \<Rightarrow> goerr + string"
  bc_Compare :: "string \<Rightarrow> string \<Rightarrow> goerr option"

definition HashProvider_Hash :: "BcryptLib \<Rightarrow> nat \<Rightarrow> string \<Rightarrow> goerr + string" where
  "HashProvider_Hash lib n password =
     (case bc_Generate lib n password of Inl e \<Rightarrow> Inl e | Inr hash \<Rightarrow> Inr hash)"

definition HashProvider_Compare :: "BcryptLib \<Rightarrow> string \<Rightarrow> string \<Rightarrow> goerr option" where
  "HashProvider_Compare lib hash password = bc_Compare lib hash password"

text \<open>Passwords of up to 72 bytes are hashed, and a hash compares equal to its password.\<close>

definition bcrypt_laws :: "BcryptLib \<Rightarrow> bool" where
  "bcrypt_laws lib \<longleftrightarrow>
     (\<forall>n pw. length pw \<le> 72 \<longrightarrow> (\<exists>h. bc_Generate lib n pw = Inr h))
     \<and> (\<forall>n pw h. bc_Generate lib n pw = Inr h \<longrightarrow> bc_Compare lib h pw = None)"

lemma bcrypt_lawsD:
  assumes "bcrypt_laws lib"
  shows "length pw \<le> 72 \<Longrightarrow> \<exists>h. HashProvider_Hash lib n pw = Inr h"
    and "HashProvider_Hash lib n pw = Inr h \<Longrightarrow> HashProvider_Compare lib h pw = None"
proof -
  have same: "HashProvider_Hash lib n pw = bc_Generate lib n pw"
    by (simp add: HashProvider_Hash_def split: sum.split)
  show "length pw \<le> 72 \<Longrightarrow> \<exists>h. HashProvider_Hash lib n pw = Inr h"
    using assms unfolding bcrypt_laws_def same by blast
  show "HashProvider_Hash lib n pw = Inr h \<Longrightarrow> HashProvider_Compare lib h pw = None"
    using assms unfolding bcrypt_laws_def same HashProvider_Compare_def by blast
qed

definition UUID_NewID :: "(nat \<Rightarrow> string) \<Rightarrow> nat \<Rightarrow> string" where
  "UUID_NewID NewString n = NewString n"

section \<open>Everything a deployment relies on\<close>

text \<open>
  The provider comes from \<open>NewAuthProvider\<close>; UUIDs are not empty, ASCII, and do not repeat (the
  last is assumed where it is needed).
\<close>

definition libraries_ok :: "JwtLib \<Rightarrow> AuthProvider \<Rightarrow> BcryptLib \<Rightarrow> (nat \<Rightarrow> string) \<Rightarrow> bool" where
  "libraries_ok jwt a bc uuid \<longleftrightarrow>
     jwt_laws jwt \<and> provider_ok a \<and> bcrypt_laws bc \<and> (\<forall>n. uuid n \<noteq> [] \<and> ascii (uuid n))"

end
