(* ===== verification/Server.thy ===== *)
theory Server
  imports Http_Model Auth_Adapters
begin

text \<open>
  The wired server: a store, the hub, and the use cases over them, as \<open>cmd/server/main.go\<close> puts
  them together over the SQLite stores and the tests of the transport (\<open>http_test.go\<close>) over those
  in memory. The store is a \<open>Backend\<close>; the locale \<open>wired\<close> assumes its contract and nothing else,
  and the theory \<open>Server_Program\<close> shows that both stores of the repository qualify.

  Code outside the repository is a parameter (\<open>Ext\<close>): the Unicode tables, the generator of UUIDs
  and bcrypt (both fed from a counter of the entropy drawn so far), and the JWT library (fed from
  the clock). Sockets are driven by the steps of the theory \<open>Server_Inv\<close>.
\<close>

text \<open>
  \<open>ext_db\<close> is the store as the server finds it when it is first started, \<open>ext_reopen\<close> what a
  restart of the process makes of a store.
\<close>

record 's Ext =
  ext_uni :: "string \<Rightarrow> string"
  ext_uuid :: "nat \<Rightarrow> string"
  ext_bcrypt :: BcryptLib
  ext_jwt :: JwtLib
  ext_auth :: AuthProvider
  ext_store :: "'s Backend"
  ext_health :: "('s \<Rightarrow> goerr option) option"
  ext_db :: 's
  ext_reopen :: "'s \<Rightarrow> 's"

record 's World =
  w_store :: 's
  w_hub :: Hub
  w_entropy :: nat
  w_now :: int
  w_log :: "(string \<times> string \<times> goerr) list"

section \<open>The collaborators\<close>

definition srv_registry :: "'s Ext \<Rightarrow> 's World PlayerRegistry" where
  "srv_registry x =
     \<lparr>reg_Create = (\<lambda>p w. case bk_Create (ext_store x) p (w_store w) of (e, s) \<Rightarrow> (e, w\<lparr>w_store := s\<rparr>)),
      reg_ByName = (\<lambda>n w. bk_ByName (ext_store x) n (w_store w))\<rparr>"

definition srv_recorder :: "'s Ext \<Rightarrow> 's World PlayerRecorder" where
  "srv_recorder x =
     \<lparr>rec_ByID = (\<lambda>i w. bk_ByID (ext_store x) i (w_store w)),
      rec_Save = (\<lambda>p w. case bk_Save (ext_store x) p (w_store w) of (e, s) \<Rightarrow> (e, w\<lparr>w_store := s\<rparr>))\<rparr>"

definition srv_standings :: "'s Ext \<Rightarrow> 's World StandingsReader" where
  "srv_standings x = \<lparr>std_Top = (\<lambda>limit w. bk_Top (ext_store x) limit (w_store w))\<rparr>"

definition srv_matches :: "'s Ext \<Rightarrow> 's World MatchStore" where
  "srv_matches x =
     \<lparr>ms_Save = (\<lambda>r w. case bk_SaveMatch (ext_store x) r (w_store w) of (e, s) \<Rightarrow> (e, w\<lparr>w_store := s\<rparr>))\<rparr>"

definition srv_hasher :: "'s Ext \<Rightarrow> 's World Hasher" where
  "srv_hasher x =
     \<lparr>h_Hash = (\<lambda>pw w. (HashProvider_Hash (ext_bcrypt x) (w_entropy w) pw,
                       w\<lparr>w_entropy := Suc (w_entropy w)\<rparr>)),
      h_Compare = HashProvider_Compare (ext_bcrypt x)\<rparr>"

definition srv_tokens :: "'s Ext \<Rightarrow> 's World TokenIssuer" where
  "srv_tokens x =
     \<lparr>t_Issue = (\<lambda>i w. AuthProvider_Issue (ext_jwt x) (ext_auth x) i (w_now w)),
      t_Verify = (\<lambda>tok w. AuthProvider_Verify (ext_jwt x) (ext_auth x) tok (w_now w))\<rparr>"

definition srv_ids :: "'s Ext \<Rightarrow> 's World IDGenerator" where
  "srv_ids x =
     \<lparr>g_NewID = (\<lambda>w. (UUID_NewID (ext_uuid x) (w_entropy w), w\<lparr>w_entropy := Suc (w_entropy w)\<rparr>))\<rparr>"

definition srv_notifier :: "'s World Notifier" where
  "srv_notifier = \<lparr>n_Notify = (\<lambda>i ev w. w\<lparr>w_hub := Hub_Notify i ev (w_hub w)\<rparr>)\<rparr>"

definition srv_log :: "'s World Logger" where
  "srv_log = \<lparr>log_Error = (\<lambda>msg i e w. w\<lparr>w_log := w_log w @ [(msg, i, e)]\<rparr>)\<rparr>"

definition srv_games :: "'s Ext \<Rightarrow> 's World GamesDeps" where
  "srv_games x =
     \<lparr>d_matches = srv_matches x, d_players = srv_recorder x, d_notifier = srv_notifier,
      d_ids = srv_ids x, d_log = srv_log\<rparr>"

definition srv_auth :: "'s Ext \<Rightarrow> 's World AuthDeps" where
  "srv_auth x =
     \<lparr>au_players = srv_registry x, au_hasher = srv_hasher x, au_tokens = srv_tokens x,
      au_ids = srv_ids x\<rparr>"

definition srv_deps :: "'s Ext \<Rightarrow> 's World Deps" where
  "srv_deps x =
     \<lparr>dp_auth = srv_auth x, dp_games = srv_games x, dp_standings = srv_standings x,
      dp_health = map_option (\<lambda>check w. check (w_store w)) (ext_health x)\<rparr>"

definition new_world :: "'s Ext \<Rightarrow> int \<Rightarrow> 's World" where
  "new_world x now =
     \<lparr>w_store = ext_db x, w_hub = NewHub, w_entropy = 0, w_now = now, w_log = []\<rparr>"

definition new_server :: "'s Ext \<Rightarrow> int \<Rightarrow> 's World Server" where
  "new_server x now = \<lparr>sv_mm = NewMatchmaking, sv_games = NewGames, sv_world = new_world x now\<rparr>"

text \<open>
  The process ends and is started again: what was in memory is gone, the store is opened again.
\<close>

definition restart :: "'s Ext \<Rightarrow> 's World Server \<Rightarrow> 's World Server" where
  "restart x s =
     \<lparr>sv_mm = NewMatchmaking, sv_games = NewGames,
      sv_world = (sv_world s)\<lparr>w_store := ext_reopen x (w_store (sv_world s)), w_hub := NewHub\<rparr>\<rparr>"

lemmas srv_defs =
  srv_registry_def srv_recorder_def srv_standings_def srv_matches_def srv_hasher_def
  srv_tokens_def srv_ids_def srv_notifier_def srv_log_def srv_games_def srv_auth_def srv_deps_def
  UUID_NewID_def

section \<open>Sockets\<close>

text \<open>
  A socket is opened after the token of the request was checked (\<open>handleWS\<close>); upgrading the
  connection succeeds, since an upgrade that fails leaves no trace.
\<close>

definition handleWS :: "'s Ext \<Rightarrow> Request \<Rightarrow> nat \<Rightarrow> 's World Server \<Rightarrow> Response option \<times> 's World Server" where
  "handleWS x r k s =
     (case playerOf (srv_deps x) r (sv_world s) of
        Inl e \<Rightarrow> (Some (writeError e), s)
      | Inr i \<Rightarrow>
          (None, s\<lparr>sv_world := (sv_world s)\<lparr>w_hub := Hub_connect k i (w_hub (sv_world s))\<rparr>\<rparr>))"

text \<open>One round of \<open>readPump\<close>: a command is dispatched and its answer pushed to the socket.\<close>

definition push_frame :: "nat \<Rightarrow> frame \<Rightarrow> 's World Server \<Rightarrow> 's World Server" where
  "push_frame k f s =
     s\<lparr>sv_world := (sv_world s)\<lparr>w_hub := snd (heap_push k f (w_hub (sv_world s)))\<rparr>\<rparr>"

definition readPump_step :: "'s Ext \<Rightarrow> nat \<Rightarrow> PlayerID \<Rightarrow> command \<Rightarrow> 's World Server \<Rightarrow> 's World Server" where
  "readPump_step x k i cmd s =
     (case client_dispatch (srv_deps x) i cmd s of
        (Inl e, s1) \<Rightarrow> push_frame k (errorFrame e) s1
      | (Inr f, s1) \<Rightarrow> push_frame k f s1)"

text \<open>The deferred calls of \<open>readPump\<close>, run when the socket ends.\<close>

definition readPump_exit :: "'s Ext \<Rightarrow> nat \<Rightarrow> PlayerID \<Rightarrow> 's World Server \<Rightarrow> 's World Server" where
  "readPump_exit x k i s =
     (let s1 = s\<lparr>sv_world := (sv_world s)\<lparr>w_hub := Hub_unregister k i (w_hub (sv_world s))\<rparr>\<rparr>;
          s2 = server_leave i s1;
          s3 = server_abandon (srv_deps x) i s2
      in s3\<lparr>sv_world := (sv_world s3)\<lparr>w_hub := heap_close k (w_hub (sv_world s3))\<rparr>\<rparr>)"

section \<open>The contracts hold on the wired server\<close>

definition srv_view :: "'s Ext \<Rightarrow> 's World \<Rightarrow> PlayerID \<Rightarrow> Player option" where
  "srv_view x w = bk_view (ext_store x) (w_store w)"

definition srv_stored :: "'s Ext \<Rightarrow> 's World \<Rightarrow> MatchID \<Rightarrow> MatchRecord option" where
  "srv_stored x w = bk_stored (ext_store x) (w_store w)"

definition srv_MatchByID :: "'s Ext \<Rightarrow> MatchID \<Rightarrow> 's World \<Rightarrow> goerr + MatchRecord option" where
  "srv_MatchByID x i w = bk_MatchByID (ext_store x) i (w_store w)"

definition srv_good :: "('s \<Rightarrow> bool) \<Rightarrow> 's World \<Rightarrow> bool" where
  "srv_good good w \<longleftrightarrow> good (w_store w)"

lemmas srv_view_defs = srv_view_def srv_good_def srv_stored_def srv_MatchByID_def

text \<open>
  What the server needs of its store: the contract, an empty store to start from, and that a
  restart keeps everything (a file) or loses everything (the memory).
\<close>

locale wired =
  sto: backend "ext_store x" "nameKey (ext_uni x)" good listing
  for x :: "'s Ext" and good :: "'s \<Rightarrow> bool" and listing :: "'s \<Rightarrow> Player list" +
  assumes start_empty: "good (ext_db x)" "bk_view (ext_store x) (ext_db x) = Map.empty"
      "bk_stored (ext_store x) (ext_db x) = Map.empty"
    and reopen_good: "good s \<Longrightarrow> good (ext_reopen x s)"
    and reopen_view: "good s \<Longrightarrow>
      bk_view (ext_store x) (ext_reopen x s) = bk_view (ext_store x) s
        \<and> bk_stored (ext_store x) (ext_reopen x s) = bk_stored (ext_store x) s
      \<or> bk_view (ext_store x) (ext_reopen x s) = Map.empty
        \<and> bk_stored (ext_store x) (ext_reopen x s) = Map.empty"

sublocale wired \<subseteq> server_games:
  game_services "srv_games x" "srv_view x" "srv_good good" "srv_MatchByID x" "srv_stored x"
proof (unfold_locales, goal_cases)
  case (1 w i)
  then show ?case using sto.rec.ByID_view by (simp add: srv_defs srv_view_defs)
next
  case (2 w i p)
  then show ?case using sto.rec.view_ID by (simp add: srv_view_defs)
next
  case (3 w p q)
  then obtain s where "bk_Save (ext_store x) p (w_store w) = (None, s)"
    "bk_view (ext_store x) s = (bk_view (ext_store x) (w_store w))(p_ID p \<mapsto> p)" "good s"
    using sto.rec.Save_known [of "w_store w" p q] by (auto simp: srv_view_defs)
  then show ?case by (simp add: srv_defs srv_view_defs)
next
  case (4 w p)
  then obtain s where "bk_Save (ext_store x) p (w_store w) = (Some (Domain ErrPlayerNotFound), s)"
    "bk_view (ext_store x) s = bk_view (ext_store x) (w_store w)" "good s"
    using sto.rec.Save_unknown [of "w_store w" p] by (auto simp: srv_view_defs)
  then show ?case by (simp add: srv_defs srv_view_defs)
next
  case (5 w r)
  then obtain s where "bk_SaveMatch (ext_store x) r (w_store w) = (None, s)"
    "bk_stored (ext_store x) s = (bk_stored (ext_store x) (w_store w))(r_ID r \<mapsto> r)" "good s"
    using sto.mst.Save_stores [of "w_store w" r] by (auto simp: srv_view_defs)
  then show ?case by (simp add: srv_defs srv_view_defs)
next
  case (6 w i)
  then show ?case using sto.mst.ByID_stored by (simp add: srv_view_defs)
next
  case (7 w r)
  then show ?case
    using sto.SaveMatch_view [of "w_store w" r] by (auto simp: srv_defs srv_view_defs split: prod.split)
next
  case (8 w r)
  then show ?case
    using sto.SaveMatch_good [of "w_store w" r] by (auto simp: srv_defs srv_view_defs split: prod.split)
next
  case (9 w p)
  then show ?case
    using sto.SavePlayer_stored [of "w_store w" p] by (auto simp: srv_defs srv_view_defs split: prod.split)
qed (simp_all add: srv_defs srv_view_defs)

sublocale wired \<subseteq> server_names:
  player_registry "rec_ByID (srv_recorder x)" "srv_view x" "srv_good good"
    "reg_Create (srv_registry x)" "reg_ByName (srv_registry x)" "nameKey (ext_uni x)"
proof (unfold_locales, goal_cases)
  case (1 w i)
  then show ?case using sto.rec.ByID_view by (simp add: srv_defs srv_view_defs)
next
  case (2 w i p)
  then show ?case using sto.rec.view_ID by (simp add: srv_view_defs)
next
  case (3 w i p n)
  then show ?case using sto.reg.ByName_found by (simp add: srv_defs srv_view_defs)
next
  case (4 w n)
  then show ?case using sto.reg.ByName_missing [of "w_store w" n] by (simp add: srv_defs srv_view_defs)
next
  case (5 w i q p)
  then obtain s where "bk_Create (ext_store x) p (w_store w) = (Some (Domain ErrNameTaken), s)"
    "bk_view (ext_store x) s = bk_view (ext_store x) (w_store w)" "good s"
    using sto.reg.Create_taken [of "w_store w" i q p] by (auto simp: srv_view_defs)
  then show ?case by (simp add: srv_defs srv_view_defs)
next
  case (6 w p)
  then obtain s where "bk_Create (ext_store x) p (w_store w) = (None, s)"
    "bk_view (ext_store x) s = (bk_view (ext_store x) (w_store w))(p_ID p \<mapsto> p)" "good s"
    using sto.reg.Create_free [of "w_store w" p] by (auto simp: srv_view_defs)
  then show ?case by (simp add: srv_defs srv_view_defs)
qed

sublocale wired \<subseteq> server_board:
  standings_reader "std_Top (srv_standings x)" "\<lambda>w. listing (w_store w)" "srv_good good"
  by unfold_locales (simp add: srv_defs srv_view_defs sto.brd.Top_ranked)

end
