(* ===== verification/Server_Inv.thy ===== *)
theory Server_Inv
  imports Server
begin

text \<open>
  The server as a state machine: requests, sockets opening, commands on sockets, sockets ending,
  frames written, a write that fails and closes the socket, time passing. Every step runs one
  operation from start to end (the theory \<open>Interleavings\<close> takes operations apart). The steps
  allow more than the code does: a socket may end, or carry commands, more than once or after it
  was closed; what holds of every reachable state holds of those the code reaches. The invariant
  joins those of the components, and adds what spans them: players in a match are registered,
  nobody waits who plays, identifiers are fresh, the stored records are current, and the
  statistics balance (each win is somebody's loss, draws come in pairs).
\<close>

section \<open>Steps\<close>

definition on_hub :: "(Hub \<Rightarrow> Hub) \<Rightarrow> 's World Server \<Rightarrow> 's World Server" where
  "on_hub f s = s\<lparr>sv_world := (sv_world s)\<lparr>w_hub := f (w_hub (sv_world s))\<rparr>\<rparr>"

inductive server_step :: "'s Ext \<Rightarrow> 's World Server \<Rightarrow> 's World Server \<Rightarrow> bool" for x where
  request: "server_step x s (snd (handle (srv_deps x) r s))"
| socket: "h_heap (w_hub (sv_world s)) k = None \<Longrightarrow> server_step x s (snd (handleWS x r k s))"
| command: "h_heap (w_hub (sv_world s)) k = Some c \<Longrightarrow>
    server_step x s (readPump_step x k (c_id c) cmd s)"
| disconnect: "h_heap (w_hub (sv_world s)) k = Some c \<Longrightarrow>
    server_step x s (readPump_exit x k (c_id c) s)"
| written: "server_step x s (on_hub (\<lambda>h. snd (writePump_step k h)) s)"
| broken: "server_step x s (on_hub (heap_close k) s)"
| restart: "server_step x s (restart x s)"
| tick: "server_step x s (s\<lparr>sv_world := (sv_world s)\<lparr>w_now := t\<rparr>\<rparr>)"

inductive reachable_server :: "'s Ext \<Rightarrow> 's World Server \<Rightarrow> bool" for x where
  boot: "reachable_server x (new_server x now)"
| step: "reachable_server x s \<Longrightarrow> server_step x s s' \<Longrightarrow> reachable_server x s'"

section \<open>Balanced statistics\<close>

definition total :: "(Stats \<Rightarrow> int) \<Rightarrow> (PlayerID \<Rightarrow> Player option) \<Rightarrow> 64 word" where
  "total f v = (\<Sum>i \<in> dom v. word_of_int (f (p_Stats (the (v i)))))"

definition balanced :: "(PlayerID \<Rightarrow> Player option) \<Rightarrow> bool" where
  "balanced v \<longleftrightarrow> finite (dom v) \<and> total Wins v = total Losses v \<and> even (total Draws v)"

lemma balanced_empty [simp]: "balanced Map.empty"
  by (simp add: balanced_def total_def)

lemma balanced_new_player:
  assumes "balanced v" and "v i = None" and "p_Stats p = zero_stats"
  shows "balanced (v(i \<mapsto> p))"
proof -
  have "total f (v(i \<mapsto> p)) = word_of_int (f zero_stats) + total f v" for f
  proof -
    have "(\<Sum>j \<in> dom v. word_of_int (f (p_Stats (the ((v(i \<mapsto> p)) j))))) = total f v"
      unfolding total_def using assms(2) by (intro sum.cong) auto
    with assms show ?thesis by (simp add: total_def balanced_def domIff)
  qed
  with assms(1) show ?thesis by (simp add: balanced_def zero_stats_def)
qed

lemma word_Stats_Record:
  "word_of_int (Wins (Stats_Record st out)) =
     (word_of_int (Wins st) :: 64 word) + of_bool (out = OutcomeWin)"
  "word_of_int (Losses (Stats_Record st out)) =
     (word_of_int (Losses st) :: 64 word) + of_bool (out = OutcomeLoss)"
  "word_of_int (Draws (Stats_Record st out)) =
     (word_of_int (Draws st) :: 64 word) + of_bool (out = OutcomeDraw)"
  by (cases out; simp)+

text \<open>The store after both players of a match had their outcome recorded.\<close>

definition both_recorded ::
  "PlayerID \<Rightarrow> Outcome \<Rightarrow> PlayerID \<Rightarrow> Outcome \<Rightarrow> (PlayerID \<Rightarrow> Player option) \<Rightarrow>
   PlayerID \<Rightarrow> Player option" where
  "both_recorded px ox po oo v =
     v(px := map_option (\<lambda>p. Player_Record p ox) (v px),
       po := map_option (\<lambda>p. Player_Record p oo) (v po))"

lemma total_both_recorded:
  assumes "finite (dom v)" and "px \<noteq> po" and "v px \<noteq> None" and "v po \<noteq> None"
    and step: "\<And>st out. word_of_int (f (Stats_Record st out)) =
        (word_of_int (f st) :: 64 word) + of_bool (out = k)"
  shows "total f (both_recorded px ox po oo v) = total f v + of_bool (ox = k) + of_bool (oo = k)"
proof -
  let ?v = "both_recorded px ox po oo v"
  have dom: "dom ?v = dom v"
    by (auto simp: both_recorded_def split: if_splits)
  have "(word_of_int (f (p_Stats (the (?v i)))) :: 64 word) =
      word_of_int (f (p_Stats (the (v i)))) + (if i = px then of_bool (ox = k) else 0)
        + (if i = po then of_bool (oo = k) else 0)" if "i \<in> dom v" for i
    using that assms(2) by (auto simp: both_recorded_def step)
  then have "total f ?v = (\<Sum>i \<in> dom v. word_of_int (f (p_Stats (the (v i))))
      + (if i = px then of_bool (ox = k) else 0) + (if i = po then of_bool (oo = k) else 0))"
    unfolding total_def dom by (rule sum.cong [OF refl])
  also have "\<dots> = total f v + of_bool (ox = k) + of_bool (oo = k)"
    using assms(1,3,4) by (simp add: total_def sum.distrib domIff)
  finally show ?thesis .
qed

lemma balanced_both_recorded:
  assumes "balanced v" and "px \<noteq> po" and "v px \<noteq> None" and "v po \<noteq> None" and "oo = opposite ox"
  shows "balanced (both_recorded px ox po oo v)"
proof -
  have fin: "finite (dom v)" using assms(1) by (simp add: balanced_def)
  have dom: "dom (both_recorded px ox po oo v) = dom v"
    by (auto simp: both_recorded_def split: if_splits)
  note sums = total_both_recorded [OF fin assms(2-4)]
  show ?thesis
    using assms(1,5) unfolding balanced_def dom sums [OF word_Stats_Record(1)]
      sums [OF word_Stats_Record(2)] sums [OF word_Stats_Record(3)]
    by (cases ox) simp_all
qed

section \<open>Well-typed accounts\<close>

text \<open>A stored player: the name is one \<open>NormalizeName\<close> returns, the counters are \<open>int\<close> values.\<close>

definition typed_player :: "Player \<Rightarrow> bool" where
  "typed_player p \<longleftrightarrow>
     NormalizeName (p_Name p) = Inr (p_Name p)
     \<and> int64 (Wins (p_Stats p)) \<and> int64 (Losses (p_Stats p)) \<and> int64 (Draws (p_Stats p))"

definition accounts_ok :: "(PlayerID \<Rightarrow> Player option) \<Rightarrow> bool" where
  "accounts_ok v \<longleftrightarrow> balanced v \<and> (\<forall>p \<in> ran v. typed_player p)"

lemma typed_Record: "typed_player p \<Longrightarrow> typed_player (Player_Record p out)"
  by (cases out) (simp_all add: typed_player_def)

lemma accounts_empty [simp]: "accounts_ok Map.empty"
  by (simp add: accounts_ok_def)

lemma accounts_new_player:
  assumes "accounts_ok v" and "v i = None" and "p_Stats p = zero_stats"
    and "NormalizeName (p_Name p) = Inr (p_Name p)"
  shows "accounts_ok (v(i \<mapsto> p))"
  using assms balanced_new_player [of v i p]
  by (auto simp: accounts_ok_def typed_player_def zero_stats_def int64_def)

lemma accounts_both_recorded:
  assumes "accounts_ok v" and "px \<noteq> po" and "v px \<noteq> None" and "v po \<noteq> None" and "oo = opposite ox"
  shows "accounts_ok (both_recorded px ox po oo v)"
proof -
  have typed: "v i = Some p \<Longrightarrow> typed_player p" for i p
    using assms(1) by (auto simp: accounts_ok_def ran_def)
  have "typed_player p" if "p \<in> ran (both_recorded px ox po oo v)" for p
    using that assms(2-4) typed typed_Record
    by (auto simp: ran_def both_recorded_def split: if_splits)
  with balanced_both_recorded [OF _ assms(2-5)] assms(1) show ?thesis by (simp add: accounts_ok_def)
qed

section \<open>The invariant\<close>

definition used_ids :: "'s Ext \<Rightarrow> 's World \<Rightarrow> string set" where
  "used_ids x w = ext_uuid x ` {..<w_entropy w}"

text \<open>The part about the games and the state behind the ports, and the whole with the queue.\<close>

definition world_inv :: "'s Ext \<Rightarrow> ('s \<Rightarrow> bool) \<Rightarrow> Games \<Rightarrow> 's World \<Rightarrow> bool" where
  "world_inv x good g w \<longleftrightarrow>
     games_inv g \<and> srv_good good w \<and> hub_inv (w_hub w) \<and> durable (srv_stored x w) g
     \<and> dom (srv_stored x w) \<union> dom (srv_view x w) \<subseteq> used_ids x w
     \<and> (\<forall>p. Games_InMatch p g \<longrightarrow> srv_view x w p \<noteq> None)
     \<and> accounts_ok (srv_view x w)"

definition server_inv :: "'s Ext \<Rightarrow> ('s \<Rightarrow> bool) \<Rightarrow> 's World Server \<Rightarrow> bool" where
  "server_inv x good s \<longleftrightarrow>
     queue_inv (\<lambda>p. Games_InMatch p (sv_games s)) (sv_mm s)
     \<and> world_inv x good (sv_games s) (sv_world s)"

lemma world_invD:
  assumes "world_inv x good g w"
  shows "games_inv g" "srv_good good w" "hub_inv (w_hub w)" "durable (srv_stored x w) g"
    "dom (srv_stored x w) \<subseteq> used_ids x w" "dom (srv_view x w) \<subseteq> used_ids x w"
    "Games_InMatch p g \<Longrightarrow> srv_view x w p \<noteq> None" "accounts_ok (srv_view x w)"
  using assms unfolding world_inv_def by blast+

lemma world_invI:
  assumes "games_inv g" "srv_good good w" "hub_inv (w_hub w)" "durable (srv_stored x w) g"
    "dom (srv_stored x w) \<subseteq> used_ids x w" "dom (srv_view x w) \<subseteq> used_ids x w"
    "\<And>p. Games_InMatch p g \<Longrightarrow> srv_view x w p \<noteq> None" "accounts_ok (srv_view x w)"
  shows "world_inv x good g w"
  unfolding world_inv_def using assms by blast

lemma used_ids_mono: "w_entropy w \<le> w_entropy w' \<Longrightarrow> used_ids x w \<subseteq> used_ids x w'"
  by (auto simp: used_ids_def)

lemma fresh_uuid: "inj (ext_uuid x) \<Longrightarrow> ext_uuid x (w_entropy w) \<notin> used_ids x w"
  by (auto simp: used_ids_def dest: injD)

lemma srv_keeps_hub: "calls_keep (srv_games x) (\<lambda>w. hub_inv (w_hub w))"
  by (simp add: calls_keep_def srv_defs Notify_inv split: prod.split)

lemma srv_keeps_entropy: "calls_keep (srv_games x) (\<lambda>w. n \<le> w_entropy w)"
  by (simp add: calls_keep_def srv_defs split: prod.split)

lemma server_invD:
  assumes "server_inv x good s"
  shows "queue_inv (\<lambda>p. Games_InMatch p (sv_games s)) (sv_mm s)"
    and "world_inv x good (sv_games s) (sv_world s)"
  using assms by (simp_all add: server_inv_def)

context wired
begin

lemma server_inv_boot: "server_inv x good (new_server x now)"
proof -
  have "srv_view x (new_world x now) = Map.empty" "srv_stored x (new_world x now) = Map.empty"
    "srv_good good (new_world x now)"
    using start_empty by (simp_all add: new_world_def srv_view_defs)
  then show ?thesis
    by (simp add: server_inv_def world_inv_def new_server_def durable_def NewGames_def
        Games_InMatch_def games_inv_new [unfolded NewGames_def]) (simp add: new_world_def)
qed

lemma restart_inv:
  assumes "server_inv x good s"
  shows "server_inv x good (restart x s)"
proof -
  note I = world_invD [OF conjunct2 [OF assms [unfolded server_inv_def]]]
  let ?w = "sv_world s" and ?w' = "sv_world (restart x s)"
  have good: "good (w_store ?w)" using I(2) by (simp add: srv_good_def)
  have view: "srv_view x ?w' = srv_view x ?w \<or> srv_view x ?w' = Map.empty"
    "srv_stored x ?w' = srv_stored x ?w \<or> srv_stored x ?w' = Map.empty"
    using reopen_view [OF good] by (auto simp: srv_view_defs restart_def)
  have "world_inv x good NewGames ?w'"
  proof (rule world_invI)
    show "games_inv NewGames" by (rule games_inv_new)
    show "srv_good good ?w'" using reopen_good [OF good] by (simp add: srv_good_def restart_def)
    have used: "used_ids x ?w' = used_ids x ?w" by (simp add: used_ids_def restart_def)
    show "dom (srv_stored x ?w') \<subseteq> used_ids x ?w'" using view(2) I(5) used by auto
    show "dom (srv_view x ?w') \<subseteq> used_ids x ?w'" using view(1) I(6) used by auto
    show "accounts_ok (srv_view x ?w')" using view(1) I(8) by auto
  qed (simp_all add: hub_inv_new restart_def durable_def NewGames_def Games_InMatch_def)
  then show ?thesis by (simp add: server_inv_def restart_def)
qed

text \<open>Steps that touch the hub, the clock or the log only.\<close>

lemma world_inv_frame:
  assumes "world_inv x good g w" and "w_store w' = w_store w"
    and "w_entropy w \<le> w_entropy w'" and "hub_inv (w_hub w')"
  shows "world_inv x good g w'"
proof -
  have "srv_view x w' = srv_view x w" "srv_good good w' = srv_good good w" "srv_stored x w' = srv_stored x w"
    by (simp_all add: srv_view_defs assms(2))
  with assms(1,4) used_ids_mono [OF assms(3), of x] show ?thesis
    unfolding world_inv_def by auto
qed

lemma on_hub_inv:
  assumes "server_inv x good s" and "hub_inv (f (w_hub (sv_world s)))"
  shows "server_inv x good (on_hub f s)"
  using assms world_inv_frame [of "sv_games s" "sv_world s" "sv_world (on_hub f s)"]
  by (simp add: server_inv_def on_hub_def)

lemma tick_inv: "server_inv x good s \<Longrightarrow> server_inv x good (s\<lparr>sv_world := (sv_world s)\<lparr>w_now := t\<rparr>\<rparr>)"
  using world_inv_frame [of "sv_games s" "sv_world s" "(sv_world s)\<lparr>w_now := t\<rparr>"]
  by (auto simp: server_inv_def dest: world_invD(3))

section \<open>The game service\<close>

lemma Move_InMatch:
  assumes "games_inv g" and "Games_Move d p c (g, w) = (r, g', w')" and "Games_InMatch q g'"
  shows "Games_InMatch q g"
  using assms(1,2)
proof (cases rule: Move_cases)
  case (Running am m1 mid)
  with assms(3) show ?thesis by (simp add: Games_InMatch_def)
next
  case (Finishing am m1 mid)
  with assms(3) forget_InMatch [OF assms(1) Finishing(2,3)] show ?thesis by simp
qed (use assms(3) in simp_all)

text \<open>The statistics after a move: nothing, or one outcome each for the two who played.\<close>

lemma Move_recorded:
  assumes "games_inv g" and "srv_good good w" and "Games_Move (srv_games x) p c (g, w) = (r, g', w')"
  obtains "srv_view x w' = srv_view x w"
  | px po out where "px \<noteq> po" and "Games_InMatch px g" and "Games_InMatch po g"
      and "srv_view x w' = both_recorded px out po (opposite out) (srv_view x w)"
  using assms(1,3)
proof (cases rule: Move_cases)
  case (Running am m1 mid)
  with server_games.move_effect_view [OF assms(2) after_move_storable [OF Running(4,5)]] show thesis
    by (intro that(1)) simp
next
  case (Finishing am m1 mid)
  let ?am = "after_move am m1"
  note players = after_move_players [OF Finishing(5)]
  have reach: "reachable_match mid (am_X am) (am_O am) m1"
    using Finishing(4) reachable_match.move [OF _ Finishing(5)] by (simp add: live_def)
  have two: "am_X am \<noteq> am_O am"
    using live_players [OF Finishing(4)] by (simp add: two_players_def)
  have opp: "Match_OutcomeFor m1 (am_O am) = opposite (Match_OutcomeFor m1 (am_X am))"
    by (rule OutcomeFor_opposite [OF reach])
  have "srv_view x w' = both_recorded (am_X am) (Match_OutcomeFor m1 (am_X am)) (am_O am)
      (opposite (Match_OutcomeFor m1 (am_X am))) (srv_view x w)"
    using server_games.move_effect_results [OF assms(2) after_move_storable [OF Finishing(4,5)], of EventMatchEnded] players two
      Finishing(9) by (auto simp: both_recorded_def opp)
  with two games_inv_active(2,3) [OF assms(1) Finishing(3)] show thesis
    by (intro that(2)) (auto simp: Games_InMatch_def)
qed (use that(1) in simp_all)

lemma both_recorded_dom: "dom (both_recorded px ox po oo v) = dom v"
  by (auto simp: both_recorded_def split: if_splits)

lemma Move_view_dom:
  assumes "games_inv g" and "srv_good good w" and "Games_Move (srv_games x) p c (g, w) = (r, g', w')"
  shows "dom (srv_view x w') = dom (srv_view x w)"
  using assms by (cases rule: Move_recorded) (simp_all add: both_recorded_dom)

lemma Move_world:
  assumes inv: "world_inv x good g w" and move: "Games_Move (srv_games x) p c (g, w) = (r, g', w')"
  shows "world_inv x good g' w'"
proof (rule world_invI)
  note I = world_invD [OF inv]
  have used: "used_ids x w \<subseteq> used_ids x w'"
    using Move_keeps [OF I(1) srv_keeps_entropy order_refl move] by (rule used_ids_mono)
  note view = Move_view_dom [OF I(1,2) move]
  show "games_inv g'" by (rule Move_inv [OF I(1) move])
  show "srv_good good w'" using server_games.Move_statistics [OF I(1,2) move] by blast
  show "hub_inv (w_hub w')" by (rule Move_keeps [OF I(1) srv_keeps_hub I(3) move])
  show "durable (srv_stored x w') g'" by (rule server_games.Move_durable [OF I(1,2,4) move])
  show "dom (srv_stored x w') \<subseteq> used_ids x w'"
    using server_games.Move_stored_dom [OF I(1,2,4) move] I(5) used by blast
  show "dom (srv_view x w') \<subseteq> used_ids x w'" using view I(6) used by blast
  show "srv_view x w' q \<noteq> None" if "Games_InMatch q g'" for q
    using I(7) [OF Move_InMatch [OF I(1) move that]] view by blast
  show "accounts_ok (srv_view x w')"
    using I(1,2) move
  proof (cases rule: Move_recorded)
    case (2 px po out)
    with accounts_both_recorded [OF I(8) 2(1) I(7) [OF 2(2)] I(7) [OF 2(3)]] show ?thesis by simp
  qed (use I(8) in simp)
qed

lemma Abandon_InMatch:
  assumes "games_inv g" and "Games_Abandon d p (g, w) = (g', w')" and "Games_InMatch q g'"
  shows "Games_InMatch q g"
  using assms(3) Abandon_isolated [OF assms(1,2), of q] lookup_InMatch [OF assms(1)]
    lookup_InMatch [OF Abandon_inv [OF assms(1,2)]] by (auto split: if_splits)

lemma Abandon_world:
  assumes inv: "world_inv x good g w" and "Games_Abandon (srv_games x) p (g, w) = (g', w')"
  shows "world_inv x good g' w'"
proof (rule world_invI)
  note I = world_invD [OF inv] and run = assms(2)
  have used: "used_ids x w \<subseteq> used_ids x w'"
    using Abandon_keeps [OF srv_keeps_entropy order_refl run] by (rule used_ids_mono)
  have view: "srv_view x w' = srv_view x w" "srv_good good w'"
    using server_games.Abandon_statistics [OF I(2) run] by blast+
  have sto: "srv_stored x w' = srv_stored x w" by (rule server_games.Abandon_stored [OF run])
  show "games_inv g'" by (rule Abandon_inv [OF I(1) run])
  show "hub_inv (w_hub w')" by (rule Abandon_keeps [OF srv_keeps_hub I(3) run])
  show "durable (srv_stored x w') g'" by (rule server_games.Abandon_durable [OF I(1,4) run])
  show "srv_view x w' q \<noteq> None" if "Games_InMatch q g'" for q
    using I(7) [OF Abandon_InMatch [OF I(1) run that]] view by simp
  show "srv_good good w'" by (rule view(2))
  show "dom (srv_stored x w') \<subseteq> used_ids x w'" using sto I(5) used by simp
  show "dom (srv_view x w') \<subseteq> used_ids x w'" using view(1) I(6) used by simp
  show "accounts_ok (srv_view x w')" using view(1) I(8) by simp
qed

lemma fresh_match:
  assumes "inj (ext_uuid x)" and "world_inv x good g w"
  shows "srv_stored x w (fst (g_NewID (d_ids (srv_games x)) w)) = None"
    and "active g (fst (g_NewID (d_ids (srv_games x)) w)) = None"
proof -
  let ?i = "fst (g_NewID (d_ids (srv_games x)) w)"
  have "?i \<notin> used_ids x w" using fresh_uuid [OF assms(1)] by (simp add: srv_defs)
  with world_invD(5) [OF assms(2)] show none: "srv_stored x w ?i = None" by blast
  with world_invD(4) [OF assms(2)] show "active g ?i = None"
    by (cases "active g ?i") (auto simp: durable_def)
qed

lemma Start_entropy:
  assumes "Games_Start (srv_games x) px po (g, w) = (None, g', w')"
  shows "fst (g_NewID (d_ids (srv_games x)) w) \<in> used_ids x w'"
proof -
  obtain xp op mid w1 where ok:
    "rec_ByID (d_players (srv_games x)) px w = Inr xp" "rec_ByID (d_players (srv_games x)) po w = Inr op"
    "g_NewID (d_ids (srv_games x)) w = (mid, w1)" "px \<noteq> po" "\<not> Games_InMatch px g" "\<not> Games_InMatch po g"
    using assms by (rule Start_success)
  have "w_entropy w1 = Suc (w_entropy w)" "mid = ext_uuid x (w_entropy w)"
    using ok(3) by (auto simp: srv_defs)
  moreover have "w_entropy w1 \<le>
      w_entropy (Games_dispatch (srv_games x) evs (Games_persist (srv_games x) r w1))" for evs r
    by (rule dispatch_keeps [OF srv_keeps_entropy persist_keeps [OF srv_keeps_entropy order_refl]])
  with Start_ok [OF ok] assms have "w_entropy w1 \<le> w_entropy w'" by auto
  ultimately show ?thesis using ok(3) by (auto simp: used_ids_def)
qed

lemma Start_registered:
  assumes "srv_good good w" and "Games_Start (srv_games x) px po (g, w) = (None, g', w')"
  shows "srv_view x w px \<noteq> None \<and> srv_view x w po \<noteq> None"
proof -
  obtain xp op where
    "rec_ByID (d_players (srv_games x)) px w = Inr xp" "rec_ByID (d_players (srv_games x)) po w = Inr op"
    using assms(2) by (rule Start_success)
  with server_games.rec.ByID_view [OF assms(1), of px] server_games.rec.ByID_view [OF assms(1), of po]
  show ?thesis by (auto split: option.splits)
qed

text \<open>What a started match looks like to its two players.\<close>

lemma Start_pair:
  assumes "srv_good good w" and "Games_Start (srv_games x) px po (g, w) = (e, g', w')"
  shows "if e = None
    then \<exists>mid am. Games_lookup g' px = Some am \<and> Games_lookup g' po = Some am
        \<and> am_match am = match_of mid px po [] \<and> active g' = (active g)(mid \<mapsto> am)
        \<and> mid = ext_uuid x (w_entropy w)
    else g' = g"
proof (cases e)
  case None
  then obtain xp op mid w1 where ok:
    "rec_ByID (d_players (srv_games x)) px w = Inr xp" "rec_ByID (d_players (srv_games x)) po w = Inr op"
    "g_NewID (d_ids (srv_games x)) w = (mid, w1)" "px \<noteq> po" "\<not> Games_InMatch px g" "\<not> Games_InMatch po g"
    using assms(2) by (auto elim: Start_success)
  moreover have "mid = ext_uuid x (w_entropy w)" using ok(3) by (simp add: srv_defs)
  ultimately show ?thesis
    using Start_ok [OF ok] assms(2) None by (auto simp: Games_lookup_def)
next
  case (Some e')
  with assms(2) show ?thesis by (auto dest: Start_error_frame)
qed

lemma Start_world:
  assumes "inj (ext_uuid x)" and inv: "world_inv x good g w"
    and run: "Games_Start (srv_games x) px po (g, w) = (e, g', w')"
  shows "world_inv x good g' w'"
proof (rule world_invI)
  note I = world_invD [OF inv] and fresh = fresh_match [OF assms(1,2)]
  have used: "used_ids x w \<subseteq> used_ids x w'"
    using Start_keeps [OF srv_keeps_entropy order_refl run] by (rule used_ids_mono)
  have view: "srv_view x w' = srv_view x w" "srv_good good w'"
    using server_games.Start_statistics [OF I(2) run] by blast+
  show "games_inv g'" by (rule Start_inv [OF I(1) fresh(2) run])
  show "hub_inv (w_hub w')" by (rule Start_keeps [OF srv_keeps_hub I(3) run])
  show "durable (srv_stored x w') g'" by (rule server_games.Start_durable [OF I(1,2,4) run fresh(1)])
  show "srv_good good w'" by (rule view(2))
  show "dom (srv_stored x w') \<subseteq> used_ids x w'"
    using server_games.Start_stored [OF I(2) fresh(1) run] I(5) used Start_entropy [of px po g w g' w'] run
    by (cases e) auto
  show "dom (srv_view x w') \<subseteq> used_ids x w'" using view(1) I(6) used by simp
  show "accounts_ok (srv_view x w')" using view(1) I(8) by simp
  fix q assume q: "Games_InMatch q g'"
  show "srv_view x w' q \<noteq> None"
  proof (cases e)
    case None
    with run games_port.Start_success [of "srv_games x" px po "(g, w)" "(g', w')"] q
      Start_registered [OF I(2)] I(7) [of q] view(1)
    show ?thesis by (cases "q = px \<or> q = po") auto
  next
    case (Some e')
    with Start_error_frame run q I(7) view(1) show ?thesis by metis
  qed
qed

section \<open>Registration\<close>

lemma Register_effect:
  assumes "Auth_Register (srv_auth x) name pw w = (r, w')"
  obtains n where "w_entropy w \<le> n" and "w' = w\<lparr>w_entropy := n\<rparr>"
  | p e where "reg_Create (srv_registry x) p (w\<lparr>w_entropy := Suc (Suc (w_entropy w))\<rparr>) = (e, w')"
      and "p_ID p = ext_uuid x (Suc (w_entropy w))" and "p_Stats p = zero_stats"
      and "NormalizeName (p_Name p) = Inr (p_Name p)"
proof -
  have same: "w = w\<lparr>w_entropy := w_entropy w\<rparr>" by simp
  show thesis
  proof (cases "w' = w")
    case True
    with same show thesis by (intro that(1) [of "w_entropy w"]) simp_all
  next
    case False
    with assms show thesis
      by (auto simp: Auth_Register_def srv_auth_def srv_hasher_def srv_ids_def NewPlayer_def
          UUID_NewID_def split: sum.splits if_splits prod.splits option.splits
          intro: that(1) [of "Suc (w_entropy w)"] that(1) [of "Suc (Suc (w_entropy w))"] that(2) [OF _ _ _ NormalizeName_idem])
  qed
qed

text \<open>Creating a player of a fresh identity: its name is free or taken.\<close>

lemma Create_cases:
  assumes "srv_good good w" and "srv_view x w (p_ID p) = None"
    and "reg_Create (srv_registry x) p w = (e, w')"
  obtains "e = Some (Domain ErrNameTaken)" and "srv_view x w' = srv_view x w" and "srv_good good w'"
  | "e = None" and "srv_view x w' = (srv_view x w)(p_ID p \<mapsto> p)" and "srv_good good w'"
proof (cases "\<exists>i q. srv_view x w i = Some q \<and> nameKey (ext_uni x) (p_Name q) = nameKey (ext_uni x) (p_Name p)")
  case True
  then obtain i q where "srv_view x w i = Some q"
    "nameKey (ext_uni x) (p_Name q) = nameKey (ext_uni x) (p_Name p)" by blast
  from server_names.Create_taken [OF assms(1) this] assms(3) show thesis by (intro that(1)) auto
next
  case False
  then obtain w1 where "reg_Create (srv_registry x) p w = (None, w1)"
    "srv_view x w1 = (srv_view x w)(p_ID p \<mapsto> p)" "srv_good good w1"
    using server_names.Create_free [of w p] assms(1,2) by blast
  with assms(3) show thesis by (intro that(2)) auto
qed

lemma Create_frame:
  assumes "srv_good good w" and "reg_Create (srv_registry x) p w = (e, w')"
  shows "srv_stored x w' = srv_stored x w" "w_hub w' = w_hub w" "w_entropy w' = w_entropy w"
  using assms sto.Create_stored [of "w_store w" p]
  by (auto simp: srv_registry_def srv_view_defs split: prod.splits)

lemma Register_world:
  assumes "inj (ext_uuid x)" and inv: "world_inv x good g w"
    and run: "Auth_Register (srv_auth x) name pw w = (r, w')"
  shows "world_inv x good g w'"
  using run
proof (cases rule: Register_effect)
  case (1 n)
  with inv world_invD(3) [OF inv] show ?thesis by (intro world_inv_frame [OF inv]) simp_all
next
  case (2 p e)
  let ?w1 = "w\<lparr>w_entropy := Suc (Suc (w_entropy w))\<rparr>"
  have inv1: "world_inv x good g ?w1"
    using world_invD(3) [OF inv] by (intro world_inv_frame [OF inv]) simp_all
  note I = world_invD [OF inv1]
  have "p_ID p \<notin> used_ids x w"
    using assms(1) 2(2) by (auto simp: used_ids_def dest: injD)
  then have new: "srv_view x ?w1 (p_ID p) = None"
    using world_invD(6) [OF inv] by (auto simp: srv_view_defs)
  note frame = Create_frame [OF I(2) 2(1)]
  have used: "used_ids x w' = used_ids x ?w1" by (simp add: used_ids_def frame(3))
  have id: "p_ID p \<in> used_ids x ?w1" using 2(2) by (simp add: used_ids_def)
  show ?thesis
  proof (rule Create_cases [OF I(2) new 2(1)])
    assume "srv_view x w' = srv_view x ?w1" "srv_good good w'"
    with I frame used show ?thesis by (intro world_invI) simp_all
  next
    assume "srv_view x w' = (srv_view x ?w1)(p_ID p \<mapsto> p)" "srv_good good w'"
    with I frame used id accounts_new_player [OF I(8) new 2(3,4)] show ?thesis
      by (intro world_invI) auto
  qed
qed

section \<open>Requests\<close>

lemma Join_effect:
  assumes "Matchmaking_Join (games_matches d) p (m, g, w) = (e, m', g', w')"
  obtains "g' = g" and "w' = w"
  | px po e' where "Games_Start d px po (g, w) = (e', g', w')"
  using assms
  by (auto simp: Matchmaking_Join_def Let_def split: if_splits prod.splits)

lemma server_join_inv:
  assumes "inj (ext_uuid x)" and "server_inv x good s" and "server_join (srv_deps x) i s = (e, s')"
  shows "server_inv x good s'"
proof -
  note I = server_invD [OF assms(2)]
  obtain m g w where join:
    "Matchmaking_Join (games_matches (srv_games x)) i (sv_mm s, sv_games s, sv_world s) = (e, m, g, w)"
    and s': "s' = s\<lparr>sv_mm := m, sv_games := g, sv_world := w\<rparr>"
    using assms(3) by (auto simp: server_join_def srv_deps_def split: prod.splits)
  have "queue_inv (\<lambda>p. Games_InMatch p g) m"
    using games_port.Join_inv [OF _ join] I(1) by simp
  moreover have "world_inv x good g w"
    using join by (cases rule: Join_effect) (use I(2) Start_world [OF assms(1) I(2)] in auto)
  ultimately show ?thesis by (simp add: server_inv_def s')
qed

lemma server_leave_inv: "server_inv x good s \<Longrightarrow> server_inv x good (server_leave i s)"
  using set_remove1_subset [of i "queue (sv_mm s)"]
  by (auto simp: server_inv_def server_leave_def queue_inv_def Leave_remove1 length_remove1)

lemma queue_inv_mono:
  "queue_inv playing m \<Longrightarrow> (\<And>p. playing' p \<Longrightarrow> playing p) \<Longrightarrow> queue_inv playing' m"
  by (auto simp: queue_inv_def)

lemma server_move_inv:
  assumes "server_inv x good s" and "server_move (srv_deps x) i c s = (r, s')"
  shows "server_inv x good s'"
proof -
  note I = server_invD [OF assms(1)]
  obtain g w where run: "Games_Move (srv_games x) i c (sv_games s, sv_world s) = (r, g, w)"
    and s': "s' = s\<lparr>sv_games := g, sv_world := w\<rparr>"
    using assms(2) by (auto simp: server_move_def srv_deps_def split: prod.splits)
  from Move_world [OF I(2) run] queue_inv_mono [OF I(1) Move_InMatch [OF world_invD(1) [OF I(2)] run]]
  show ?thesis by (simp add: server_inv_def s')
qed

lemma server_abandon_inv:
  assumes "server_inv x good s"
  shows "server_inv x good (server_abandon (srv_deps x) i s)"
proof -
  note I = server_invD [OF assms(1)]
  obtain g w where run: "Games_Abandon (srv_games x) i (sv_games s, sv_world s) = (g, w)"
    by fastforce
  from Abandon_world [OF I(2) run] queue_inv_mono [OF I(1) Abandon_InMatch [OF world_invD(1) [OF I(2)] run]]
  show ?thesis using run by (simp add: server_inv_def server_abandon_def srv_deps_def)
qed

text \<open>The handlers do nothing else to the state.\<close>

lemma handleRegister_inv:
  assumes "inj (ext_uuid x)" and "server_inv x good s"
  shows "server_inv x good (snd (handleRegister (srv_deps x) r s))"
proof (cases "rq_Credentials r")
  case None
  with assms(2) show ?thesis by (simp add: handleRegister_def decode_body_def)
next
  case (Some creds)
  obtain res w where run:
    "Auth_Register (srv_auth x) (cr_Name creds) (cr_Password creds) (sv_world s) = (res, w)"
    by fastforce
  from Register_world [OF assms(1) server_invD(2) [OF assms(2)] run] server_invD(1) [OF assms(2)]
  have "server_inv x good (s\<lparr>sv_world := w\<rparr>)" by (simp add: server_inv_def)
  with Some run show ?thesis
    by (simp add: handleRegister_def decode_body_def srv_deps_def split: sum.split)
qed

lemma handleJoin_inv:
  assumes "inj (ext_uuid x)" and "server_inv x good s"
  shows "server_inv x good (snd (handleJoin (srv_deps x) i s))"
  using server_join_inv [OF assms]
  by (auto simp: handleJoin_def split: prod.split option.split)

lemma handleMove_inv:
  assumes "server_inv x good s"
  shows "server_inv x good (snd (handleMove (srv_deps x) r i s))"
  using assms server_move_inv [OF assms]
  by (auto simp: handleMove_def decode_body_def split: prod.split option.split sum.split)

lemma run_route_inv:
  assumes "inj (ext_uuid x)" and "server_inv x good s"
  shows "server_inv x good (snd (run_route (srv_deps x) rt r s))"
proof (cases rt)
  case Register
  with handleRegister_inv [OF assms] show ?thesis by simp
next
  case Join
  with assms handleJoin_inv [OF assms] show ?thesis
    by (simp add: authenticated_def split: sum.split)
next
  case Leave
  with assms server_leave_inv [OF assms(2)] show ?thesis
    by (simp add: authenticated_def handleLeave_def Let_def split: sum.split)
next
  case Move
  with assms handleMove_inv [OF assms(2)] show ?thesis
    by (simp add: authenticated_def split: sum.split)
next
  case Resign
  with assms server_abandon_inv [OF assms(2)] show ?thesis
    by (simp add: authenticated_def handleResign_def split: sum.split)
qed (use assms in \<open>simp_all add: authenticated_def handleHealth_def handleLogin_def
  handleLeaderboard_def handleState_def Let_def split: sum.split option.split\<close>)

lemma handle_inv:
  assumes "inj (ext_uuid x)" and "server_inv x good s"
  shows "server_inv x good (snd (handle (srv_deps x) r s))"
  using assms(2) run_route_inv [OF assms] by (simp add: handle_def split: sum.split)

section \<open>Sockets\<close>

lemma server_inv_hub: "server_inv x good s \<Longrightarrow> hub_inv (w_hub (sv_world s))"
  by (rule world_invD(3) [OF server_invD(2)])

lemma push_frame_inv: "server_inv x good s \<Longrightarrow> server_inv x good (push_frame k f s)"
  using on_hub_inv [of s "\<lambda>h. snd (heap_push k f h)"] heap_push_inv [OF server_inv_hub]
  by (simp add: push_frame_def on_hub_def)

lemma handleWS_inv:
  assumes "server_inv x good s" and "h_heap (w_hub (sv_world s)) k = None"
  shows "server_inv x good (snd (handleWS x r k s))"
  using assms(1) on_hub_inv [OF assms(1), of "Hub_connect k i" for i]
    connect_inv [OF server_inv_hub [OF assms(1)] assms(2)]
  by (auto simp: handleWS_def on_hub_def split: sum.split)

lemma client_dispatch_inv:
  assumes "inj (ext_uuid x)" and "server_inv x good s"
  shows "server_inv x good (snd (client_dispatch (srv_deps x) i cmd s))"
  using assms(2) server_join_inv [OF assms] server_leave_inv [OF assms(2)]
    server_move_inv [OF assms(2)] server_abandon_inv [OF assms(2)]
  by (auto simp: client_dispatch_def split: prod.split option.split sum.split)

lemma readPump_step_inv:
  assumes "inj (ext_uuid x)" and "server_inv x good s"
  shows "server_inv x good (readPump_step x k i cmd s)"
  using client_dispatch_inv [OF assms, of i cmd]
  by (auto simp: readPump_step_def intro: push_frame_inv split: prod.split sum.split)

text \<open>
  The end of a socket: what \<open>readPump\<close> defers amounts to unregistering and closing the client,
  then leaving the queue, then abandoning the match of the player.
\<close>

lemma readPump_exit_eq:
  assumes "hub_inv (w_hub (sv_world s))" and "h_heap (w_hub (sv_world s)) k = Some c"
    and "c_id c = i"
  shows "readPump_exit x k i s =
    server_abandon (srv_deps x) i (server_leave i (on_hub (\<lambda>h. heap_close k (Hub_unregister k i h)) s))"
proof -
  note free = unregister_unregistered [OF assms]
  show ?thesis
    by (simp add: readPump_exit_def server_leave_def server_abandon_def on_hub_def srv_deps_def
        Games_Abandon_def Let_def srv_games_def srv_notifier_def Notify_close_commute [OF free]
        split: option.split)
qed

lemma readPump_exit_inv:
  assumes "server_inv x good s" and "h_heap (w_hub (sv_world s)) k = Some c" and "c_id c = i"
  shows "server_inv x good (readPump_exit x k i s)"
  unfolding readPump_exit_eq [OF server_inv_hub [OF assms(1)] assms(2,3)]
  by (intro server_abandon_inv server_leave_inv on_hub_inv [OF assms(1)]
      unregister_close_inv [OF server_inv_hub [OF assms(1)] assms(2,3)])

section \<open>Every reachable state\<close>

lemma server_step_inv:
  assumes "inj (ext_uuid x)" and "server_step x s s'" and "server_inv x good s"
  shows "server_inv x good s'"
  using assms(2)
proof cases
  case (request r)
  with handle_inv [OF assms(1,3)] show ?thesis by simp
next
  case (socket k r)
  with handleWS_inv [OF assms(3)] show ?thesis by simp
next
  case (command k c cmd)
  with readPump_step_inv [OF assms(1,3)] show ?thesis by simp
next
  case (disconnect k c)
  with readPump_exit_inv [OF assms(3)] show ?thesis by simp
next
  case (written k)
  with on_hub_inv [OF assms(3)] writePump_inv [OF server_inv_hub [OF assms(3)]] show ?thesis by simp
next
  case (broken k)
  with on_hub_inv [OF assms(3)] heap_close_inv [OF server_inv_hub [OF assms(3)]] show ?thesis by simp
next
  case restart
  with restart_inv [OF assms(3)] show ?thesis by simp
next
  case (tick t)
  with tick_inv [OF assms(3)] show ?thesis by simp
qed

lemma reachable_server_inv:
  assumes "inj (ext_uuid x)" and "reachable_server x s"
  shows "server_inv x good s"
  using assms(2)
proof induction
  case (boot now)
  show ?case by (rule server_inv_boot)
next
  case (step s s')
  from server_step_inv [OF assms(1) step(2,3)] show ?case .
qed

end

end
