(* ===== verification/Sql_Tables.thy ===== *)
theory Sql_Tables
  imports Memory_Stores
begin

text \<open>
  The database of \<open>internal/adapter/sqlite\<close>: the two tables of the schema (\<open>db.go\<close>) and what the
  statements of \<open>player_store.go\<close> and \<open>match_store.go\<close> mean on them. Each statement of the source
  is a constructor that carries its bound arguments; \<open>sql_exec\<close> and \<open>sql_query\<close> are their SQL
  meaning, written out for these statements only: uniqueness of \<open>PRIMARY KEY\<close> and \<open>UNIQUE\<close>
  columns, \<open>WHERE\<close>, \<open>ON CONFLICT DO UPDATE\<close>, \<open>ORDER BY\<close> and \<open>LIMIT\<close>. The tables are \<open>STRICT\<close> and
  their columns \<open>NOT NULL\<close>, so a row is a record of strings and integers.

  \<open>Driver\<close> is the interface of \<open>database/sql\<close> and its driver, which are not part of the repository:
  a parameter. \<open>sqlite_laws\<close> is what is assumed of it, that a driver in a healthy state runs a
  statement as SQL says; in a state that is not healthy it may answer anything.
\<close>

section \<open>Tables\<close>

record PlayerRow =
  pr_id :: string
  pr_name :: string
  pr_name_key :: string
  pr_password_hash :: string
  pr_wins :: int
  pr_losses :: int
  pr_draws :: int

record MatchRow =
  mr_id :: string
  mr_player_x :: string
  mr_player_o :: string
  mr_status :: string
  mr_moves :: string

text \<open>The tables do not exist before the schema was applied: \<open>None\<close>.\<close>

record Tables =
  t_players :: "PlayerRow list"
  t_matches :: "MatchRow list"

section \<open>Errors of the database\<close>

datatype DbError = ErrNoRows | SqliteError int string | OtherDbError string

definition SQLITE_CONSTRAINT_PRIMARYKEY :: int where
  "SQLITE_CONSTRAINT_PRIMARYKEY = 1555"

definition SQLITE_CONSTRAINT_UNIQUE :: int where
  "SQLITE_CONSTRAINT_UNIQUE = 2067"

text \<open>The error as the callers see it; its text reaches the log only.\<close>

fun db_error :: "DbError \<Rightarrow> goerr" where
  "db_error ErrNoRows = Opaque ''sql: no rows in result set''"
| "db_error (SqliteError code msg) = Opaque msg"
| "db_error (OtherDbError msg) = Opaque msg"

section \<open>Statements\<close>

datatype statement =
  ApplySchema
| InsertPlayer PlayerRow
| UpdatePlayer PlayerRow
| UpsertMatch MatchRow

datatype query =
  PlayerByKey string
| PlayerById string
| PlayersRanked int
| MatchById string

fun sql_exec :: "statement \<Rightarrow> Tables option \<Rightarrow> (DbError + int) \<times> Tables option" where
  "sql_exec ApplySchema None = (Inr 0, Some \<lparr>t_players = [], t_matches = []\<rparr>)"
| "sql_exec ApplySchema (Some t) = (Inr 0, Some t)"
| "sql_exec (InsertPlayer r) (Some t) =
     (if \<exists>q \<in> set (t_players t). pr_id q = pr_id r
      then (Inl (SqliteError SQLITE_CONSTRAINT_PRIMARYKEY ''UNIQUE constraint failed: players.id''), Some t)
      else if \<exists>q \<in> set (t_players t). pr_name_key q = pr_name_key r
      then (Inl (SqliteError SQLITE_CONSTRAINT_UNIQUE ''UNIQUE constraint failed: players.name_key''), Some t)
      else (Inr 1, Some (t\<lparr>t_players := t_players t @ [r]\<rparr>)))"
| "sql_exec (UpdatePlayer r) (Some t) =
     (if (\<exists>q \<in> set (t_players t). pr_id q = pr_id r)
         \<and> (\<exists>q \<in> set (t_players t). pr_name_key q = pr_name_key r \<and> pr_id q \<noteq> pr_id r)
      then (Inl (SqliteError SQLITE_CONSTRAINT_UNIQUE ''UNIQUE constraint failed: players.name_key''), Some t)
      else (Inr (int (length (filter (\<lambda>q. pr_id q = pr_id r) (t_players t)))),
            Some (t\<lparr>t_players := map (\<lambda>q. if pr_id q = pr_id r then r else q) (t_players t)\<rparr>)))"
| "sql_exec (UpsertMatch r) (Some t) =
     (Inr 1, Some (t\<lparr>t_matches :=
        (if \<exists>q \<in> set (t_matches t). mr_id q = mr_id r
         then map (\<lambda>q. if mr_id q = mr_id r
                       then q\<lparr>mr_status := mr_status r, mr_moves := mr_moves r\<rparr> else q) (t_matches t)
         else t_matches t @ [r])\<rparr>))"
| "sql_exec st None = (Inl (SqliteError 1 ''no such table''), None)"

text \<open>A row of a result: a list of columns.\<close>

datatype column = TEXT string | INTEGER int

definition player_columns :: "PlayerRow \<Rightarrow> column list" where
  "player_columns r =
     [TEXT (pr_id r), TEXT (pr_name r), TEXT (pr_password_hash r),
      INTEGER (pr_wins r), INTEGER (pr_losses r), INTEGER (pr_draws r)]"

definition match_columns :: "MatchRow \<Rightarrow> column list" where
  "match_columns r =
     [TEXT (mr_id r), TEXT (mr_player_x r), TEXT (mr_player_o r), TEXT (mr_status r), TEXT (mr_moves r)]"

text \<open>\<open>ORDER BY wins DESC, losses ASC, name ASC\<close>; a negative \<open>LIMIT\<close> is none.\<close>

definition row_rank :: "PlayerRow \<Rightarrow> rank_key" where
  "row_rank r = RankKey (pr_wins r) (pr_losses r) (pr_name r)"

definition sql_limit :: "int \<Rightarrow> 'a list \<Rightarrow> 'a list" where
  "sql_limit limit xs = (if limit < 0 then xs else take (nat limit) xs)"

fun sql_query :: "query \<Rightarrow> Tables \<Rightarrow> column list list" where
  "sql_query (PlayerByKey key) t =
     map player_columns (filter (\<lambda>r. pr_name_key r = key) (t_players t))"
| "sql_query (PlayerById i) t = map player_columns (filter (\<lambda>r. pr_id r = i) (t_players t))"
| "sql_query (PlayersRanked limit) t =
     map player_columns (sql_limit limit (sort_key row_rank (t_players t)))"
| "sql_query (MatchById i) t = map match_columns (filter (\<lambda>r. mr_id r = i) (t_matches t))"

section \<open>The driver\<close>

text \<open>
  \<open>ExecContext\<close> gives the result object, whose \<open>RowsAffected\<close> may fail in turn; \<open>QueryContext\<close>
  gives the rows it delivers and the error \<open>rows.Err()\<close> reports after them.
\<close>

record 'd Driver =
  dr_Open :: "string \<Rightarrow> 'd \<Rightarrow> DbError option \<times> 'd"
  dr_Ping :: "'d \<Rightarrow> DbError option"
  dr_Close :: "'d \<Rightarrow> 'd"
  dr_Exec :: "statement \<Rightarrow> 'd \<Rightarrow> (DbError + (DbError + int)) \<times> 'd"
  dr_Query :: "query \<Rightarrow> 'd \<Rightarrow> DbError + column list list \<times> DbError option"

text \<open>\<open>healthy\<close> and \<open>tables\<close> say when the driver works and what it has stored.\<close>

definition sqlite_laws :: "'d Driver \<Rightarrow> ('d \<Rightarrow> bool) \<Rightarrow> ('d \<Rightarrow> Tables option) \<Rightarrow> bool" where
  "sqlite_laws drv healthy tables \<longleftrightarrow>
     (\<forall>st d. healthy d \<longrightarrow>
        (case sql_exec st (tables d) of
           (Inl e, t) \<Rightarrow> fst (dr_Exec drv st d) = Inl e
         | (Inr n, t) \<Rightarrow> fst (dr_Exec drv st d) = Inr (Inr n))
        \<and> tables (snd (dr_Exec drv st d)) = snd (sql_exec st (tables d))
        \<and> healthy (snd (dr_Exec drv st d)))
     \<and> (\<forall>q d t. healthy d \<longrightarrow> tables d = Some t \<longrightarrow> dr_Query drv q d = Inr (sql_query q t, None))
     \<and> (\<forall>d. healthy d \<longrightarrow> dr_Ping drv d = None)
     \<and> (\<forall>path d. healthy d \<longrightarrow> fst (dr_Open drv path d) = None \<and> healthy (snd (dr_Open drv path d))
          \<and> tables (snd (dr_Open drv path d)) = tables d)
     \<and> (\<forall>d. healthy d \<longrightarrow> healthy (dr_Close drv d) \<and> tables (dr_Close drv d) = tables d)"

locale sqlite_driver =
  fixes drv :: "'d Driver" and healthy :: "'d \<Rightarrow> bool" and tables :: "'d \<Rightarrow> Tables option"
  assumes laws: "sqlite_laws drv healthy tables"
begin

lemma exec_ok:
  assumes "healthy d" and "sql_exec st (tables d) = (Inr n, t)"
  shows "\<exists>d'. dr_Exec drv st d = (Inr (Inr n), d') \<and> tables d' = t \<and> healthy d'"
proof -
  have "fst (dr_Exec drv st d) = Inr (Inr n) \<and> tables (snd (dr_Exec drv st d)) = t
      \<and> healthy (snd (dr_Exec drv st d))"
    using laws [unfolded sqlite_laws_def, THEN conjunct1, rule_format, OF assms(1), of st] assms(2)
    by simp
  then show ?thesis by (cases "dr_Exec drv st d") simp
qed

lemma exec_fails:
  assumes "healthy d" and "sql_exec st (tables d) = (Inl e, t)"
  shows "\<exists>d'. dr_Exec drv st d = (Inl e, d') \<and> tables d' = t \<and> healthy d'"
proof -
  have "fst (dr_Exec drv st d) = Inl e \<and> tables (snd (dr_Exec drv st d)) = t
      \<and> healthy (snd (dr_Exec drv st d))"
    using laws [unfolded sqlite_laws_def, THEN conjunct1, rule_format, OF assms(1), of st] assms(2)
    by simp
  then show ?thesis by (cases "dr_Exec drv st d") simp
qed

lemma query_ok: "healthy d \<Longrightarrow> tables d = Some t \<Longrightarrow> dr_Query drv q d = Inr (sql_query q t, None)"
  using laws [unfolded sqlite_laws_def, THEN conjunct2, THEN conjunct1] by blast

lemma ping_ok: "healthy d \<Longrightarrow> dr_Ping drv d = None"
  using laws [unfolded sqlite_laws_def, THEN conjunct2, THEN conjunct2, THEN conjunct1] by blast

lemma open_ok:
  assumes "healthy d"
  shows "\<exists>d'. dr_Open drv path d = (None, d') \<and> healthy d' \<and> tables d' = tables d"
proof -
  have "fst (dr_Open drv path d) = None \<and> healthy (snd (dr_Open drv path d))
      \<and> tables (snd (dr_Open drv path d)) = tables d"
    using laws [unfolded sqlite_laws_def, THEN conjunct2, THEN conjunct2, THEN conjunct2, THEN conjunct1]
      assms by blast
  then show ?thesis by (cases "dr_Open drv path d") simp
qed

lemma close_ok: "healthy d \<Longrightarrow> healthy (dr_Close drv d) \<and> tables (dr_Close drv d) = tables d"
  using laws [unfolded sqlite_laws_def, THEN conjunct2, THEN conjunct2, THEN conjunct2, THEN conjunct2]
  by blast

end

section \<open>A driver that does what SQL says\<close>

text \<open>The meaning of the statements is itself a driver: its state is the tables.\<close>

definition table_driver :: "Tables option Driver" where
  "table_driver =
     \<lparr>dr_Open = (\<lambda>path d. (None, d)), dr_Ping = (\<lambda>d. None), dr_Close = (\<lambda>d. d),
      dr_Exec = (\<lambda>st d. case sql_exec st d of (Inl e, t) \<Rightarrow> (Inl e, t) | (Inr n, t) \<Rightarrow> (Inr (Inr n), t)),
      dr_Query = (\<lambda>q d. case d of
          None \<Rightarrow> Inl (SqliteError 1 ''no such table'')
        | Some t \<Rightarrow> Inr (sql_query q t, None))\<rparr>"

interpretation table_sql: sqlite_driver table_driver "\<lambda>d. True" "\<lambda>d. d"
  by unfold_locales (simp add: sqlite_laws_def table_driver_def split: prod.split sum.split)

end
