(* ===== verification/Sqlite_Stores.thy ===== *)
theory Sqlite_Stores
  imports Sql_Tables
begin

text \<open>
  \<open>internal/adapter/sqlite\<close>: opening the database (\<open>db.go\<close>), the player store
  (\<open>player_store.go\<close>) and the match store (\<open>match_store.go\<close>), over any driver. The errors of the
  driver take the branches of the source: a violated uniqueness becomes \<open>ErrNameTaken\<close>, an empty
  result \<open>ErrPlayerNotFound\<close>, an update without effect \<open>ErrPlayerNotFound\<close>, and everything else is
  wrapped with the name of the operation.
\<close>

section \<open>db.go\<close>

text \<open>On an error after the database was opened it is closed again.\<close>

definition sqlite_Open :: "'d Driver \<Rightarrow> string \<Rightarrow> 'd \<Rightarrow> goerr option \<times> 'd" where
  "sqlite_Open drv path d =
     (let dsn = ''file:'' @ path @ ''?_pragma=journal_mode(WAL)&_pragma=busy_timeout(5000)&_pragma=foreign_keys(on)''
      in case dr_Open drv dsn d of
           (Some e, d1) \<Rightarrow> (Some (Wrap (''open sqlite '' @ Quote path) (db_error e)), d1)
         | (None, d1) \<Rightarrow>
         case dr_Ping drv d1 of
           Some e \<Rightarrow> (Some (Wrap (''ping sqlite '' @ Quote path) (db_error e)), dr_Close drv d1)
         | None \<Rightarrow>
         case dr_Exec drv ApplySchema d1 of
           (Inl e, d2) \<Rightarrow> (Some (Wrap ''apply schema'' (db_error e)), dr_Close drv d2)
         | (Inr res, d2) \<Rightarrow> (None, d2))"

section \<open>Reading rows\<close>

text \<open>
  \<open>Scan\<close> into a string or an \<open>int\<close>, with the conversions of \<open>database/sql\<close>. The text of its errors
  is opaque.
\<close>

fun scan_string :: "column \<Rightarrow> DbError + string" where
  "scan_string (TEXT s) = Inr s"
| "scan_string (INTEGER i) = Inr (Itoa i)"

fun scan_int :: "column \<Rightarrow> DbError + int" where
  "scan_int (INTEGER i) = Inr i"
| "scan_int (TEXT s) =
     (case Atoi s of Inl e \<Rightarrow> Inl (OtherDbError ''sql: Scan error on column'') | Inr i \<Rightarrow> Inr i)"

definition scanPlayer :: "column list \<Rightarrow> DbError + Player" where
  "scanPlayer cs =
     (case cs of
        [c0, c1, c2, c3, c4, c5] \<Rightarrow>
          (case scan_string c0 of Inl e \<Rightarrow> Inl e | Inr i \<Rightarrow>
           case scan_string c1 of Inl e \<Rightarrow> Inl e | Inr name \<Rightarrow>
           case scan_string c2 of Inl e \<Rightarrow> Inl e | Inr hash \<Rightarrow>
           case scan_int c3 of Inl e \<Rightarrow> Inl e | Inr wins \<Rightarrow>
           case scan_int c4 of Inl e \<Rightarrow> Inl e | Inr losses \<Rightarrow>
           case scan_int c5 of Inl e \<Rightarrow> Inl e | Inr draws \<Rightarrow>
             Inr \<lparr>p_ID = i, p_Name = name, p_PasswordHash = hash,
                  p_Stats = \<lparr>Wins = wins, Losses = losses, Draws = draws\<rparr>\<rparr>)
      | _ \<Rightarrow> Inl (OtherDbError ''sql: wrong number of destination arguments in Scan''))"

text \<open>
  \<open>QueryRowContext(...).Scan(...)\<close>: the first row, or \<open>ErrNoRows\<close>; closing the result is taken to
  succeed.
\<close>

definition QueryRow_Scan ::
  "'d Driver \<Rightarrow> query \<Rightarrow> (column list \<Rightarrow> DbError + 'a) \<Rightarrow> 'd \<Rightarrow> DbError + 'a" where
  "QueryRow_Scan drv q scan d =
     (case dr_Query drv q d of
        Inl e \<Rightarrow> Inl e
      | Inr ([], Some e) \<Rightarrow> Inl e
      | Inr ([], None) \<Rightarrow> Inl ErrNoRows
      | Inr (r # rows, e) \<Rightarrow> scan r)"

section \<open>player_store.go\<close>

definition sql_nameKey :: "(string \<Rightarrow> string) \<Rightarrow> string \<Rightarrow> string" where
  "sql_nameKey uni name = ToLower uni (TrimSpace name)"

fun isUniqueViolation :: "DbError \<Rightarrow> bool" where
  "isUniqueViolation (SqliteError code msg) =
     (code = SQLITE_CONSTRAINT_UNIQUE \<or> code = SQLITE_CONSTRAINT_PRIMARYKEY)"
| "isUniqueViolation _ = False"

text \<open>The arguments \<open>Create\<close> and \<open>Save\<close> bind.\<close>

definition player_row :: "(string \<Rightarrow> string) \<Rightarrow> Player \<Rightarrow> PlayerRow" where
  "player_row uni p =
     \<lparr>pr_id = p_ID p, pr_name = p_Name p, pr_name_key = sql_nameKey uni (p_Name p),
      pr_password_hash = p_PasswordHash p, pr_wins = Wins (p_Stats p),
      pr_losses = Losses (p_Stats p), pr_draws = Draws (p_Stats p)\<rparr>"

definition sql_Create ::
  "'d Driver \<Rightarrow> (string \<Rightarrow> string) \<Rightarrow> Player \<Rightarrow> 'd \<Rightarrow> goerr option \<times> 'd" where
  "sql_Create drv uni p d =
     (case dr_Exec drv (InsertPlayer (player_row uni p)) d of
        (Inl err, d1) \<Rightarrow>
          if isUniqueViolation err then (Some (Domain ErrNameTaken), d1)
          else (Some (Wrap ''create player'' (db_error err)), d1)
      | (Inr res, d1) \<Rightarrow> (None, d1))"

definition queryOne :: "'d Driver \<Rightarrow> query \<Rightarrow> 'd \<Rightarrow> goerr + Player" where
  "queryOne drv q d =
     (case QueryRow_Scan drv q scanPlayer d of
        Inl err \<Rightarrow>
          if err = ErrNoRows then Inl (Domain ErrPlayerNotFound)
          else Inl (Wrap ''load player'' (db_error err))
      | Inr p \<Rightarrow> Inr p)"

definition sql_ByName :: "'d Driver \<Rightarrow> (string \<Rightarrow> string) \<Rightarrow> string \<Rightarrow> 'd \<Rightarrow> goerr + Player" where
  "sql_ByName drv uni name d = queryOne drv (PlayerByKey (sql_nameKey uni name)) d"

definition sql_ByID :: "'d Driver \<Rightarrow> PlayerID \<Rightarrow> 'd \<Rightarrow> goerr + Player" where
  "sql_ByID drv i d = queryOne drv (PlayerById i) d"

definition sql_Save ::
  "'d Driver \<Rightarrow> (string \<Rightarrow> string) \<Rightarrow> Player \<Rightarrow> 'd \<Rightarrow> goerr option \<times> 'd" where
  "sql_Save drv uni p d =
     (case dr_Exec drv (UpdatePlayer (player_row uni p)) d of
        (Inl err, d1) \<Rightarrow> (Some (Wrap ''save player'' (db_error err)), d1)
      | (Inr (Inl err), d1) \<Rightarrow> (Some (Wrap ''save player'' (db_error err)), d1)
      | (Inr (Inr n), d1) \<Rightarrow>
          if n = 0 then (Some (Domain ErrPlayerNotFound), d1) else (None, d1))"

text \<open>The loop over the rows: the first row that cannot be read ends it.\<close>

fun scan_rows :: "column list list \<Rightarrow> DbError + Player list" where
  "scan_rows [] = Inr []"
| "scan_rows (r # rows) =
     (case scanPlayer r of
        Inl e \<Rightarrow> Inl e
      | Inr p \<Rightarrow> (case scan_rows rows of Inl e \<Rightarrow> Inl e | Inr ps \<Rightarrow> Inr (p # ps)))"

definition sql_Top :: "'d Driver \<Rightarrow> int \<Rightarrow> 'd \<Rightarrow> goerr + Player list" where
  "sql_Top drv limit d =
     (case dr_Query drv (PlayersRanked limit) d of
        Inl err \<Rightarrow> Inl (Wrap ''leaderboard'' (db_error err))
      | Inr (rows, rows_err) \<Rightarrow>
      case scan_rows rows of
        Inl err \<Rightarrow> Inl (Wrap ''leaderboard'' (db_error err))
      | Inr players \<Rightarrow>
          (case rows_err of
             Some err \<Rightarrow> Inl (Wrap ''leaderboard'' (db_error err))
           | None \<Rightarrow> Inr players))"

section \<open>match_store.go\<close>

definition match_row :: "MatchRecord \<Rightarrow> MatchRow" where
  "match_row r =
     \<lparr>mr_id = r_ID r, mr_player_x = r_X r, mr_player_o = r_O r,
      mr_status = Status_String (r_Status r), mr_moves = encodeMoves (r_Moves r)\<rparr>"

definition sql_SaveMatch :: "'d Driver \<Rightarrow> MatchRecord \<Rightarrow> 'd \<Rightarrow> goerr option \<times> 'd" where
  "sql_SaveMatch drv r d =
     (case dr_Exec drv (UpsertMatch (match_row r)) d of
        (Inl err, d1) \<Rightarrow> (Some (Wrap (''save match '' @ r_ID r) (db_error err)), d1)
      | (Inr res, d1) \<Rightarrow> (None, d1))"

definition scan_match :: "column list \<Rightarrow> DbError + string \<times> string \<times> string \<times> string \<times> string" where
  "scan_match cs =
     (case cs of
        [c0, c1, c2, c3, c4] \<Rightarrow>
          (case scan_string c0 of Inl e \<Rightarrow> Inl e | Inr rawID \<Rightarrow>
           case scan_string c1 of Inl e \<Rightarrow> Inl e | Inr px \<Rightarrow>
           case scan_string c2 of Inl e \<Rightarrow> Inl e | Inr po \<Rightarrow>
           case scan_string c3 of Inl e \<Rightarrow> Inl e | Inr rawStatus \<Rightarrow>
           case scan_string c4 of Inl e \<Rightarrow> Inl e | Inr moves \<Rightarrow>
             Inr (rawID, px, po, rawStatus, moves))
      | _ \<Rightarrow> Inl (OtherDbError ''sql: wrong number of destination arguments in Scan''))"

definition sql_MatchByID :: "'d Driver \<Rightarrow> MatchID \<Rightarrow> 'd \<Rightarrow> goerr + MatchRecord option" where
  "sql_MatchByID drv i d =
     (case QueryRow_Scan drv (MatchById i) scan_match d of
        Inl err \<Rightarrow>
          if err = ErrNoRows then Inr None
          else Inl (Wrap (''load match '' @ i) (db_error err))
      | Inr (rawID, px, po, rawStatus, moves) \<Rightarrow>
      case parseStatus rawStatus of
        Inl err \<Rightarrow> Inl (Wrap (''load match '' @ i) err)
      | Inr status \<Rightarrow>
      case decodeMoves moves of
        Inl err \<Rightarrow> Inl (Wrap (''load match '' @ i) err)
      | Inr decoded \<Rightarrow>
          Inr (Some \<lparr>r_ID = rawID, r_X = px, r_O = po, r_Status = status, r_Moves = decoded\<rparr>))"

definition sqlite_backend :: "'d Driver \<Rightarrow> (string \<Rightarrow> string) \<Rightarrow> 'd Backend" where
  "sqlite_backend drv uni =
     \<lparr>bk_Create = sql_Create drv uni, bk_ByName = sql_ByName drv uni, bk_ByID = sql_ByID drv,
      bk_Save = sql_Save drv uni, bk_Top = sql_Top drv, bk_SaveMatch = sql_SaveMatch drv,
      bk_MatchByID = sql_MatchByID drv\<rparr>"

end
