(* ===== verification/Sqlite_Props.thy ===== *)
theory Sqlite_Props
  imports Sqlite_Stores
begin

text \<open>
  The SQLite stores keep the contract \<open>backend\<close> over every driver that does what SQL says, as
  long as it is healthy: the theorem \<open>sqlite_is_backend\<close> and the interpretation on the driver of
  tables.
\<close>

section \<open>Rows with a key\<close>

definition row_at :: "('r \<Rightarrow> 'k) \<Rightarrow> 'r list \<Rightarrow> 'k \<Rightarrow> 'r option" where
  "row_at f xs k = map_of (map (\<lambda>r. (f r, r)) xs) k"

lemma row_at_simps [simp]:
  "row_at f [] k = None" "row_at f (x # xs) k = (if f x = k then Some x else row_at f xs k)"
  by (auto simp: row_at_def)

lemma row_at_None: "row_at f xs k = None \<longleftrightarrow> (\<forall>r \<in> set xs. f r \<noteq> k)"
  by (induction xs) auto

lemma row_at_SomeD: "row_at f xs k = Some r \<Longrightarrow> r \<in> set xs \<and> f r = k"
  by (induction xs) (auto split: if_splits)

lemma row_at_Some:
  "distinct (map f xs) \<Longrightarrow> row_at f xs k = Some r \<longleftrightarrow> r \<in> set xs \<and> f r = k"
  by (induction xs) auto

lemma filter_key:
  "distinct (map f xs) \<Longrightarrow>
   filter (\<lambda>r. f r = k) xs = (case row_at f xs k of None \<Rightarrow> [] | Some r \<Rightarrow> [r])"
proof (induction xs)
  case Nil
  then show ?case by simp
next
  case (Cons x xs)
  then show ?case
    by (auto simp: row_at_None filter_empty_conv dest!: row_at_SomeD split: option.split)
qed

lemma row_at_snoc: "row_at f xs (f r) = None \<Longrightarrow> row_at f (xs @ [r]) = (row_at f xs)(f r \<mapsto> r)"
  by (induction xs) (auto simp: fun_eq_iff split: if_splits)

lemma row_at_replace:
  assumes "f r = k" and "row_at f xs k \<noteq> None"
  shows "row_at f (map (\<lambda>q. if f q = k then r else q) xs) = (row_at f xs)(k \<mapsto> r)"
proof
  fix i
  have "row_at f (map (\<lambda>q. if f q = k then r else q) xs) i =
      (if i = k \<and> row_at f xs k \<noteq> None then Some r else row_at f xs i)"
    using assms(1) by (induction xs) auto
  with assms(2) show "row_at f (map (\<lambda>q. if f q = k then r else q) xs) i = ((row_at f xs)(k \<mapsto> r)) i"
    by simp
qed

lemma row_at_adjust:
  "(\<And>q. f (g q) = f q) \<Longrightarrow>
   row_at f (map (\<lambda>q. if f q = k then g q else q) xs) =
     (row_at f xs)(k := map_option g (row_at f xs k))"
  by (induction xs) (auto simp: fun_eq_iff split: if_splits)

lemma map_key_replace: "(\<And>q. q \<in> set xs \<Longrightarrow> P q \<Longrightarrow> f (g q) = f q) \<Longrightarrow>
    map f (map (\<lambda>q. if P q then g q else q) xs) = map f xs"
  by (induction xs) auto

section \<open>What the tables hold\<close>

definition player_of :: "PlayerRow \<Rightarrow> Player" where
  "player_of r =
     \<lparr>p_ID = pr_id r, p_Name = pr_name r, p_PasswordHash = pr_password_hash r,
      p_Stats = \<lparr>Wins = pr_wins r, Losses = pr_losses r, Draws = pr_draws r\<rparr>\<rparr>"

definition record_of :: "MatchRow \<Rightarrow> goerr + MatchRecord" where
  "record_of r =
     (case parseStatus (mr_status r) of Inl e \<Rightarrow> Inl e | Inr s \<Rightarrow>
      case decodeMoves (mr_moves r) of Inl e \<Rightarrow> Inl e | Inr mvs \<Rightarrow>
        Inr \<lparr>r_ID = mr_id r, r_X = mr_player_x r, r_O = mr_player_o r, r_Status = s, r_Moves = mvs\<rparr>)"

definition matches_ok :: "MatchRow list \<Rightarrow> bool" where
  "matches_ok ms \<longleftrightarrow> distinct (map mr_id ms) \<and> (\<forall>r \<in> set ms. \<exists>rec. record_of r = Inr rec)"

definition tables_ok :: "(string \<Rightarrow> string) \<Rightarrow> Tables \<Rightarrow> bool" where
  "tables_ok uni t \<longleftrightarrow>
     distinct (map pr_id (t_players t)) \<and> distinct (map pr_name_key (t_players t))
     \<and> (\<forall>r \<in> set (t_players t). pr_name_key r = nameKey uni (pr_name r))
     \<and> matches_ok (t_matches t)"

definition sql_ok ::
  "('d \<Rightarrow> bool) \<Rightarrow> ('d \<Rightarrow> Tables option) \<Rightarrow> (string \<Rightarrow> string) \<Rightarrow> 'd \<Rightarrow> bool" where
  "sql_ok healthy tables uni d \<longleftrightarrow>
     healthy d \<and> (case tables d of None \<Rightarrow> False | Some t \<Rightarrow> tables_ok uni t)"

definition sql_listing :: "('d \<Rightarrow> Tables option) \<Rightarrow> 'd \<Rightarrow> Player list" where
  "sql_listing tables d = (case tables d of None \<Rightarrow> [] | Some t \<Rightarrow> map player_of (t_players t))"

definition players_in :: "Tables \<Rightarrow> PlayerID \<Rightarrow> Player option" where
  "players_in t i = map_option player_of (row_at pr_id (t_players t) i)"

definition records_in :: "Tables \<Rightarrow> MatchID \<Rightarrow> MatchRecord option" where
  "records_in t i =
     (case row_at mr_id (t_matches t) i of None \<Rightarrow> None
      | Some r \<Rightarrow> (case record_of r of Inl e \<Rightarrow> None | Inr rec \<Rightarrow> Some rec))"

lemma tables_okD:
  assumes "tables_ok uni t"
  shows "distinct (map pr_id (t_players t))" "distinct (map pr_name_key (t_players t))"
    "r \<in> set (t_players t) \<Longrightarrow> pr_name_key r = nameKey uni (pr_name r)"
    "matches_ok (t_matches t)"
    "q \<in> set (t_matches t) \<Longrightarrow> \<exists>rec. record_of q = Inr rec"
  using assms by (simp_all add: tables_ok_def matches_ok_def)

lemma sql_nameKey [simp]: "sql_nameKey uni = nameKey uni"
  by (simp add: fun_eq_iff sql_nameKey_def nameKey_def)

lemma player_row_sel [simp]:
  "pr_id (player_row uni p) = p_ID p" "pr_name (player_row uni p) = p_Name p"
  "pr_name_key (player_row uni p) = nameKey uni (p_Name p)" "player_of (player_row uni p) = p"
  by (simp_all add: player_row_def player_of_def)

lemma player_of_sel [simp]:
  "p_ID (player_of r) = pr_id r" "p_Name (player_of r) = pr_name r" "rank_of (player_of r) = row_rank r"
  by (simp_all add: player_of_def rank_of_def row_rank_def)

lemma scan_player [simp]: "scanPlayer (player_columns r) = Inr (player_of r)"
  by (simp add: scanPlayer_def player_columns_def player_of_def)

lemma scan_rows_players [simp]: "scan_rows (map player_columns rs) = Inr (map player_of rs)"
  by (induction rs) simp_all

lemma scan_match_columns [simp]:
  "scan_match (match_columns r) =
     Inr (mr_id r, mr_player_x r, mr_player_o r, mr_status r, mr_moves r)"
  by (simp add: scan_match_def match_columns_def)

lemma record_of_match_row:
  "storable_record r \<Longrightarrow> record_of (match_row r) = Inr r"
  by (simp add: record_of_def match_row_def storable_record_def decode_encode)

lemma sort_map_player_of: "map player_of (sort_key row_rank rs) = sort_key rank_of (map player_of rs)"
proof -
  have "map player_of (insort_key row_rank x ys) = insort_key rank_of (player_of x) (map player_of ys)" for x ys
    by (induction ys) simp_all
  then show ?thesis by (induction rs) simp_all
qed

section \<open>Updates keep the tables well-formed\<close>

lemma tables_ok_insert:
  assumes "tables_ok uni t"
    and "\<forall>q \<in> set (t_players t). pr_id q \<noteq> p_ID p \<and> pr_name_key q \<noteq> nameKey uni (p_Name p)"
  shows "tables_ok uni (t\<lparr>t_players := t_players t @ [player_row uni p]\<rparr>)"
    and "players_in (t\<lparr>t_players := t_players t @ [player_row uni p]\<rparr>) = (players_in t)(p_ID p \<mapsto> p)"
proof -
  show "tables_ok uni (t\<lparr>t_players := t_players t @ [player_row uni p]\<rparr>)"
    using assms by (auto simp: tables_ok_def)
  have "row_at pr_id (t_players t) (pr_id (player_row uni p)) = None"
    using assms(2) by (simp add: row_at_None)
  from row_at_snoc [where f = pr_id, OF this]
  show "players_in (t\<lparr>t_players := t_players t @ [player_row uni p]\<rparr>) = (players_in t)(p_ID p \<mapsto> p)"
    by (simp add: players_in_def fun_eq_iff)
qed

lemma tables_ok_replace:
  assumes "tables_ok uni t" and "row_at pr_id (t_players t) (p_ID p) = Some q" and "pr_name q = p_Name p"
  defines "t' \<equiv> t\<lparr>t_players :=
      map (\<lambda>q. if pr_id q = p_ID p then player_row uni p else q) (t_players t)\<rparr>"
  shows "tables_ok uni t'" and "players_in t' = (players_in t)(p_ID p \<mapsto> p)"
proof -
  note q = row_at_SomeD [OF assms(2)]
  have same: "r = q" if "r \<in> set (t_players t)" "pr_id r = p_ID p" for r
    using that q tables_okD(1) [OF assms(1)] by (metis distinct_map inj_onD)
  have keys: "map pr_id (t_players t') = map pr_id (t_players t)"
    "map pr_name_key (t_players t') = map pr_name_key (t_players t)"
    unfolding t'_def using same q tables_okD(3) [OF assms(1)] assms(3)
    by (auto intro!: map_key_replace simp del: map_map)
  have "pr_name_key r = nameKey uni (pr_name r)" if "r \<in> set (t_players t')" for r
    using that tables_okD(3) [OF assms(1)] by (auto simp: t'_def split: if_splits)
  moreover have "t_matches t' = t_matches t" by (simp add: t'_def)
  ultimately show "tables_ok uni t'"
    using assms(1) keys unfolding tables_ok_def by metis
  show "players_in t' = (players_in t)(p_ID p \<mapsto> p)"
    unfolding t'_def
    by (simp add: players_in_def fun_eq_iff row_at_replace assms(2))
qed

definition put_match :: "MatchRow \<Rightarrow> Tables \<Rightarrow> Tables" where
  "put_match r t =
     t\<lparr>t_matches :=
       (if row_at mr_id (t_matches t) (mr_id r) = None then t_matches t @ [r]
        else map (\<lambda>q. if mr_id q = mr_id r
                 then q\<lparr>mr_status := mr_status r, mr_moves := mr_moves r\<rparr> else q) (t_matches t))\<rparr>"

lemma put_match_players [simp]: "t_players (put_match r t) = t_players t"
  by (simp add: put_match_def)

lemma match_row_sel [simp]:
  "mr_id (match_row r) = r_ID r" "mr_player_x (match_row r) = r_X r" "mr_player_o (match_row r) = r_O r"
  by (simp_all add: match_row_def)

lemma record_of_update:
  assumes "storable_record r"
  shows "record_of (q\<lparr>mr_status := mr_status (match_row r), mr_moves := mr_moves (match_row r)\<rparr>) =
    Inr \<lparr>r_ID = mr_id q, r_X = mr_player_x q, r_O = mr_player_o q, r_Status = r_Status r, r_Moves = r_Moves r\<rparr>"
  using assms by (simp add: record_of_def match_row_def storable_record_def decode_encode)

lemma tables_ok_put_match:
  assumes "tables_ok uni t" and "storable_record r"
  shows "tables_ok uni (put_match (match_row r) t)"
proof (cases "row_at mr_id (t_matches t) (r_ID r)")
  case None
  with assms record_of_match_row [OF assms(2)] show ?thesis
    by (auto simp: tables_ok_def matches_ok_def put_match_def row_at_None)
next
  case (Some q)
  have "map mr_id (map (\<lambda>q. if mr_id q = r_ID r
      then q\<lparr>mr_status := mr_status (match_row r), mr_moves := mr_moves (match_row r)\<rparr> else q) (t_matches t))
      = map mr_id (t_matches t)"
    by (rule map_key_replace) simp
  with Some assms(1) record_of_update [OF assms(2)] show ?thesis
    by (auto simp: tables_ok_def matches_ok_def put_match_def simp del: map_map)
qed

lemma records_put_match:
  assumes "storable_record r" and "same_match (records_in t) r" and "tables_ok uni t"
  shows "records_in (put_match (match_row r) t) = (records_in t)(r_ID r \<mapsto> r)"
proof (cases "row_at mr_id (t_matches t) (r_ID r)")
  case None
  then have "row_at mr_id (t_matches t @ [match_row r]) = (row_at mr_id (t_matches t))(r_ID r \<mapsto> match_row r)"
    using row_at_snoc [of mr_id "t_matches t" "match_row r"] by simp
  with None show ?thesis
    by (simp add: fun_eq_iff records_in_def put_match_def record_of_match_row [OF assms(1)])
next
  case (Some q)
  obtain old where "record_of q = Inr old"
    using tables_okD(5) [OF assms(3)] row_at_SomeD [OF Some] by blast
  with Some assms(2) have players: "mr_player_x q = r_X r" "mr_player_o q = r_O r" "mr_id q = r_ID r"
    using row_at_SomeD [OF Some]
    by (auto simp: same_match_def records_in_def record_of_def split: sum.splits)
  have "row_at mr_id (t_matches (put_match (match_row r) t)) =
      (row_at mr_id (t_matches t))(r_ID r \<mapsto>
        q\<lparr>mr_status := mr_status (match_row r), mr_moves := mr_moves (match_row r)\<rparr>)"
    using Some row_at_adjust [of mr_id
        "\<lambda>q. q\<lparr>mr_status := mr_status (match_row r), mr_moves := mr_moves (match_row r)\<rparr>" "r_ID r" "t_matches t"]
    by (simp add: put_match_def)
  with players show ?thesis
    by (simp add: fun_eq_iff records_in_def record_of_update [OF assms(1)])
qed

section \<open>The operations\<close>

context sqlite_driver
begin

text \<open>A state in which the driver works and the tables are well-formed.\<close>

lemma sql_okE:
  assumes "sql_ok healthy tables uni d"
  obtains t where "healthy d" and "tables d = Some t" and "tables_ok uni t"
  using assms by (auto simp: sql_ok_def split: option.splits)

lemma sql_okI: "healthy d \<Longrightarrow> tables d = Some t \<Longrightarrow> tables_ok uni t \<Longrightarrow> sql_ok healthy tables uni d"
  by (simp add: sql_ok_def)

lemma sql_ByID_eq:
  assumes "healthy d" and "tables d = Some t" and "tables_ok uni t"
  shows "sql_ByID drv i d =
    (case players_in t i of None \<Rightarrow> Inl (Domain ErrPlayerNotFound) | Some p \<Rightarrow> Inr p)"
  using filter_key [OF tables_okD(1) [OF assms(3)], of i]
  by (simp add: sql_ByID_def queryOne_def QueryRow_Scan_def query_ok [OF assms(1,2)] players_in_def
      split: option.split)

lemma sql_ByName_eq:
  assumes "healthy d" and "tables d = Some t" and "tables_ok uni t"
  shows "sql_ByName drv uni n d =
    (case row_at pr_name_key (t_players t) (nameKey uni n) of
       None \<Rightarrow> Inl (Domain ErrPlayerNotFound) | Some r \<Rightarrow> Inr (player_of r))"
  using filter_key [OF tables_okD(2) [OF assms(3)], of "nameKey uni n"]
  by (simp add: sql_ByName_def queryOne_def QueryRow_Scan_def query_ok [OF assms(1,2)]
      split: option.split)

lemma sql_MatchByID_eq:
  assumes "healthy d" and "tables d = Some t" and "matches_ok (t_matches t)"
  shows "sql_MatchByID drv i d = Inr (records_in t i)"
proof (cases "row_at mr_id (t_matches t) i")
  case None
  then show ?thesis
    using filter_key [of mr_id "t_matches t" i] assms(3)
    by (simp add: sql_MatchByID_def QueryRow_Scan_def query_ok [OF assms(1,2)] records_in_def
        matches_ok_def)
next
  case (Some r)
  then obtain rec where "record_of r = Inr rec"
    using assms(3) row_at_SomeD unfolding matches_ok_def by fastforce
  with Some show ?thesis
    using filter_key [of mr_id "t_matches t" i] assms(3)
    by (simp add: sql_MatchByID_def QueryRow_Scan_def query_ok [OF assms(1,2)] records_in_def
        record_of_def matches_ok_def split: sum.splits)
qed

lemma sql_stored:
  assumes "healthy d" and "tables d = Some t" and "matches_ok (t_matches t)"
  shows "bk_stored (sqlite_backend drv uni) d = records_in t"
  using sql_MatchByID_eq [OF assms] by (auto simp: bk_stored_def sqlite_backend_def fun_eq_iff)

lemma sql_view:
  assumes "healthy d" and "tables d = Some t" and "tables_ok uni t"
  shows "bk_view (sqlite_backend drv uni) d = players_in t"
    and "bk_stored (sqlite_backend drv uni) d = records_in t"
  using sql_ByID_eq [OF assms] sql_stored [OF assms(1,2) tables_okD(4) [OF assms(3)]]
  by (auto simp: bk_view_def sqlite_backend_def fun_eq_iff split: option.split)

lemma sql_Create_taken:
  assumes "healthy d" and "tables d = Some t"
    and "\<exists>q \<in> set (t_players t). pr_id q = p_ID p \<or> pr_name_key q = nameKey uni (p_Name p)"
  shows "\<exists>d'. sql_Create drv uni p d = (Some (Domain ErrNameTaken), d')
    \<and> tables d' = Some t \<and> healthy d'"
proof -
  define e where "e = (if \<exists>q \<in> set (t_players t). pr_id q = p_ID p
      then SqliteError SQLITE_CONSTRAINT_PRIMARYKEY ''UNIQUE constraint failed: players.id''
      else SqliteError SQLITE_CONSTRAINT_UNIQUE ''UNIQUE constraint failed: players.name_key'')"
  have e: "sql_exec (InsertPlayer (player_row uni p)) (tables d) = (Inl e, Some t)"
    "isUniqueViolation e"
    using assms(2,3) by (auto simp: e_def)
  from exec_fails [OF assms(1) e(1)] e(2) show ?thesis by (auto simp: sql_Create_def)
qed

lemma sql_Create_free:
  assumes "healthy d" and "tables d = Some t"
    and "\<forall>q \<in> set (t_players t). pr_id q \<noteq> p_ID p \<and> pr_name_key q \<noteq> nameKey uni (p_Name p)"
  shows "\<exists>d'. sql_Create drv uni p d = (None, d') \<and> healthy d'
    \<and> tables d' = Some (t\<lparr>t_players := t_players t @ [player_row uni p]\<rparr>)"
proof -
  have "sql_exec (InsertPlayer (player_row uni p)) (tables d) =
      (Inr 1, Some (t\<lparr>t_players := t_players t @ [player_row uni p]\<rparr>))"
    using assms(2,3) by auto
  from exec_ok [OF assms(1) this] show ?thesis by (auto simp: sql_Create_def)
qed

lemma sql_Save_known:
  assumes "healthy d" and "tables d = Some t" and "tables_ok uni t"
    and "row_at pr_id (t_players t) (p_ID p) = Some q" and "pr_name q = p_Name p"
  shows "\<exists>d'. sql_Save drv uni p d = (None, d') \<and> healthy d'
    \<and> tables d' = Some (t\<lparr>t_players :=
        map (\<lambda>q. if pr_id q = p_ID p then player_row uni p else q) (t_players t)\<rparr>)"
proof -
  note q = row_at_SomeD [OF assms(4)]
  have key: "pr_name_key q = nameKey uni (p_Name p)"
    using tables_okD(3) [OF assms(3)] q assms(5) by simp
  have "pr_id r = p_ID p" if "r \<in> set (t_players t)" "pr_name_key r = nameKey uni (p_Name p)" for r
  proof -
    have "inj_on pr_name_key (set (t_players t))"
      using tables_okD(2) [OF assms(3)] by (simp add: distinct_map)
    from inj_onD [OF this _ that(1) conjunct1 [OF q]] that(2) key have "r = q" by simp
    with q show ?thesis by simp
  qed
  then have "sql_exec (UpdatePlayer (player_row uni p)) (tables d) =
      (Inr 1, Some (t\<lparr>t_players :=
        map (\<lambda>q. if pr_id q = p_ID p then player_row uni p else q) (t_players t)\<rparr>))"
    using filter_key [OF tables_okD(1) [OF assms(3)], of "p_ID p"] assms(2,4) by auto
  from exec_ok [OF assms(1) this] show ?thesis by (auto simp: sql_Save_def)
qed

lemma sql_Save_unknown:
  assumes "healthy d" and "tables d = Some t" and "row_at pr_id (t_players t) (p_ID p) = None"
  shows "\<exists>d'. sql_Save drv uni p d = (Some (Domain ErrPlayerNotFound), d') \<and> healthy d'
    \<and> tables d' = Some t"
proof -
  have none: "\<forall>q \<in> set (t_players t). pr_id q \<noteq> p_ID p"
    using assms(3) by (simp add: row_at_None)
  then have "map (\<lambda>q. if pr_id q = p_ID p then player_row uni p else q) (t_players t) = t_players t"
    by (intro map_idI) auto
  with none have "sql_exec (UpdatePlayer (player_row uni p)) (tables d) = (Inr 0, Some t)"
    using assms(2) by (auto simp: filter_empty_conv)
  from exec_ok [OF assms(1) this] show ?thesis by (auto simp: sql_Save_def)
qed

text \<open>Whatever an update of the players does, the matches stay.\<close>

lemma exec_players:
  assumes "healthy d" and "tables d = Some t" and "st = InsertPlayer r \<or> st = UpdatePlayer r"
    and "dr_Exec drv st d = (res, d')"
  shows "\<exists>t'. tables d' = Some t' \<and> t_matches t' = t_matches t \<and> healthy d'"
proof (cases "sql_exec st (tables d)")
  case (Pair out t')
  obtain u where u: "t' = Some u" "t_matches u = t_matches t"
    using Pair [unfolded assms(2)] assms(3) by (auto split: if_splits)
  show ?thesis
  proof (cases out)
    case (Inl e)
    with exec_fails [OF assms(1) Pair [unfolded Inl]] u assms(4) show ?thesis by auto
  next
    case (Inr n)
    with exec_ok [OF assms(1) Pair [unfolded Inr]] u assms(4) show ?thesis by auto
  qed
qed

lemma players_frame:
  assumes "sql_ok healthy tables uni d" and "st = InsertPlayer r \<or> st = UpdatePlayer r"
  shows "bk_stored (sqlite_backend drv uni) (snd (dr_Exec drv st d)) = bk_stored (sqlite_backend drv uni) d"
proof -
  obtain t where t: "healthy d" "tables d = Some t" "tables_ok uni t" using assms(1) by (rule sql_okE)
  obtain res d' where run: "dr_Exec drv st d = (res, d')" by fastforce
  obtain t' where t': "tables d' = Some t'" "t_matches t' = t_matches t" "healthy d'"
    using exec_players [OF t(1,2) assms(2) run] by blast
  have "records_in t' = records_in t" using t'(2) by (simp add: records_in_def fun_eq_iff)
  with sql_stored [OF t'(3,1), of uni] sql_view(2) [OF t] t'(2) tables_okD(4) [OF t(3)] run
  show ?thesis by simp
qed

lemma sql_Save_exec: "snd (sql_Save drv uni p d) = snd (dr_Exec drv (UpdatePlayer (player_row uni p)) d)"
  by (simp add: sql_Save_def split: prod.split sum.split)

lemma sql_Create_exec:
  "snd (sql_Create drv uni p d) = snd (dr_Exec drv (InsertPlayer (player_row uni p)) d)"
  by (simp add: sql_Create_def split: prod.split sum.split)

lemma sql_SaveMatch_eq:
  assumes "healthy d" and "tables d = Some t"
  shows "\<exists>d'. sql_SaveMatch drv r d = (None, d') \<and> healthy d'
    \<and> tables d' = Some (put_match (match_row r) t)"
proof -
  have "sql_exec (UpsertMatch (match_row r)) (tables d) = (Inr 1, Some (put_match (match_row r) t))"
    using assms(2) by (auto simp: row_at_None put_match_def)
  from exec_ok [OF assms(1) this] show ?thesis by (auto simp: sql_SaveMatch_def)
qed

section \<open>The contract\<close>

lemma sqlite_backend_sel [simp]:
  "bk_Create (sqlite_backend drv uni) = sql_Create drv uni"
  "bk_ByName (sqlite_backend drv uni) = sql_ByName drv uni"
  "bk_ByID (sqlite_backend drv uni) = sql_ByID drv"
  "bk_Save (sqlite_backend drv uni) = sql_Save drv uni"
  "bk_Top (sqlite_backend drv uni) = sql_Top drv"
  "bk_SaveMatch (sqlite_backend drv uni) = sql_SaveMatch drv"
  "bk_MatchByID (sqlite_backend drv uni) = sql_MatchByID drv"
  by (simp_all add: sqlite_backend_def)

lemma players_in_key:
  assumes "tables_ok uni t" and "players_in t i = Some p"
  shows "row_at pr_name_key (t_players t) (nameKey uni (p_Name p)) = row_at pr_id (t_players t) i"
proof -
  obtain r where r: "row_at pr_id (t_players t) i = Some r" "p = player_of r"
    using assms(2) by (auto simp: players_in_def)
  with row_at_SomeD [OF r(1)] tables_okD(3) [OF assms(1), of r]
  have "row_at pr_name_key (t_players t) (nameKey uni (p_Name p)) = Some r"
    by (simp add: row_at_Some [OF tables_okD(2) [OF assms(1)]])
  with r show ?thesis by simp
qed

lemma players_in_row:
  assumes "tables_ok uni t" and "r \<in> set (t_players t)"
  shows "players_in t (pr_id r) = Some (player_of r)"
  using assms(2) row_at_Some [OF tables_okD(1) [OF assms(1)], of "pr_id r" r]
  by (simp add: players_in_def)

lemma ran_players_in:
  assumes "tables_ok uni t"
  shows "ran (players_in t) = player_of ` set (t_players t)"
proof
  show "ran (players_in t) \<subseteq> player_of ` set (t_players t)"
    by (auto simp: ran_def players_in_def dest!: row_at_SomeD)
  show "player_of ` set (t_players t) \<subseteq> ran (players_in t)"
    using players_in_row [OF assms] by (auto simp: ran_def)
qed

lemma sql_Top_eq:
  assumes "healthy d" and "tables d = Some t"
  shows "sql_Top drv limit d =
    Inr (sql_limit limit (sort_key rank_of (map player_of (t_players t))))"
  by (simp add: sql_Top_def query_ok [OF assms] sql_limit_def take_map [symmetric]
      sort_map_player_of [symmetric])

lemma is_backend:
  "backend (sqlite_backend drv uni) (nameKey uni) (sql_ok healthy tables uni) (sql_listing tables)"
proof (unfold_locales, goal_cases)
  case (1 d i)
  then obtain t where t: "healthy d" "tables d = Some t" "tables_ok uni t" by (rule sql_okE)
  show ?case by (simp add: sql_view [OF t] sql_ByID_eq [OF t])
next
  case (2 d i p)
  then obtain t where t: "healthy d" "tables d = Some t" "tables_ok uni t" by (elim sql_okE)
  with 2 show ?case
    by (auto simp: sql_view [OF t] players_in_def dest!: row_at_SomeD)
next
  case (3 d p q)
  then obtain t where t: "healthy d" "tables d = Some t" "tables_ok uni t" by (elim sql_okE)
  from 3(2) obtain r where r: "row_at pr_id (t_players t) (p_ID p) = Some r" "q = player_of r"
    by (auto simp: sql_view [OF t] players_in_def)
  with 3(3) have name: "pr_name r = p_Name p" by simp
  obtain d' where d': "sql_Save drv uni p d = (None, d')" "healthy d'"
    "tables d' = Some (t\<lparr>t_players :=
        map (\<lambda>q. if pr_id q = p_ID p then player_row uni p else q) (t_players t)\<rparr>)"
    using sql_Save_known [OF t r(1) name] by blast
  note ok = tables_ok_replace [OF t(3) r(1) name]
  from d' sql_view(1) [OF d'(2,3) ok(1)] ok(2) sql_okI [OF d'(2,3) ok(1)] show ?case
    by (auto simp: sql_view(1) [OF t])
next
  case (4 d p)
  then obtain t where t: "healthy d" "tables d = Some t" "tables_ok uni t" by (elim sql_okE)
  from 4(2) have "row_at pr_id (t_players t) (p_ID p) = None"
    by (auto simp: sql_view [OF t] players_in_def)
  from sql_Save_unknown [OF t(1,2) this] obtain d' where
    "sql_Save drv uni p d = (Some (Domain ErrPlayerNotFound), d')" "healthy d'" "tables d' = Some t"
    by blast
  with sql_okI [OF _ _ t(3)] show ?case
    by (auto simp: sql_view [OF t] sql_view [OF _ _ t(3)])
next
  case (5 d i p n)
  then obtain t where t: "healthy d" "tables d = Some t" "tables_ok uni t" by (elim sql_okE)
  from 5 players_in_key [OF t(3), of i p] show ?case
    by (auto simp: sql_view [OF t] sql_ByName_eq [OF t] players_in_def)
next
  case (6 d n)
  then obtain t where t: "healthy d" "tables d = Some t" "tables_ok uni t" by (elim sql_okE)
  have "pr_name_key r \<noteq> nameKey uni n" if "r \<in> set (t_players t)" for r
    using 6(2) [of "pr_id r" "player_of r"] that tables_okD(3) [OF t(3)]
    by (auto simp: sql_view [OF t] players_in_row [OF t(3)])
  then have "row_at pr_name_key (t_players t) (nameKey uni n) = None"
    by (simp add: row_at_None)
  then show ?case by (simp add: sql_ByName_eq [OF t])
next
  case (7 d i q p)
  then obtain t where t: "healthy d" "tables d = Some t" "tables_ok uni t" by (elim sql_okE)
  obtain r where r: "r \<in> set (t_players t)" "q = player_of r"
    using 7(2) by (auto simp: sql_view [OF t] players_in_def dest!: row_at_SomeD)
  with 7(3) tables_okD(3) [OF t(3) r(1)] have "pr_name_key r = nameKey uni (p_Name p)" by simp
  with r sql_Create_taken [OF t(1,2), of p uni] obtain d' where
    "sql_Create drv uni p d = (Some (Domain ErrNameTaken), d')" "healthy d'" "tables d' = Some t"
    by blast
  with sql_okI [OF _ _ t(3)] show ?case
    by (auto simp: sql_view [OF t] sql_view [OF _ _ t(3)])
next
  case (8 d p)
  then obtain t where t: "healthy d" "tables d = Some t" "tables_ok uni t" by (elim sql_okE)
  have free: "\<forall>q \<in> set (t_players t). pr_id q \<noteq> p_ID p \<and> pr_name_key q \<noteq> nameKey uni (p_Name p)"
  proof
    fix r
    assume r: "r \<in> set (t_players t)"
    note row = players_in_row [OF t(3) r]
    show "pr_id r \<noteq> p_ID p \<and> pr_name_key r \<noteq> nameKey uni (p_Name p)"
      using 8(2) [of "pr_id r" "player_of r"] 8(3) row tables_okD(3) [OF t(3) r]
      by (auto simp: sql_view [OF t])
  qed
  from sql_Create_free [OF t(1,2) free] obtain d' where d': "sql_Create drv uni p d = (None, d')"
    "healthy d'" "tables d' = Some (t\<lparr>t_players := t_players t @ [player_row uni p]\<rparr>)"
    by blast
  note ok = tables_ok_insert [OF t(3) free]
  from d' sql_view(1) [OF d'(2,3) ok(1)] ok(2) sql_okI [OF d'(2,3) ok(1)] show ?case
    by (auto simp: sql_view(1) [OF t])
next
  case (9 d r)
  then obtain t where t: "healthy d" "tables d = Some t" "tables_ok uni t" by (elim sql_okE)
  from sql_SaveMatch_eq [OF t(1,2)] obtain d' where d': "sql_SaveMatch drv r d = (None, d')"
    "healthy d'" "tables d' = Some (put_match (match_row r) t)" by blast
  note ok = tables_ok_put_match [OF t(3) 9(2)]
  have "records_in (put_match (match_row r) t) = (records_in t)(r_ID r \<mapsto> r)"
    using 9(3) by (intro records_put_match [OF 9(2) _ t(3)]) (simp add: sql_view [OF t])
  with d' sql_view(2) [OF d'(2,3) ok] sql_okI [OF d'(2,3) ok] show ?case
    by (auto simp: sql_view(2) [OF t])
next
  case (10 d i)
  then obtain t where t: "healthy d" "tables d = Some t" "tables_ok uni t" by (rule sql_okE)
  show ?case by (simp add: sql_view [OF t] sql_MatchByID_eq [OF t(1,2) tables_okD(4) [OF t(3)]])
next
  case (11 d limit)
  then obtain t where t: "healthy d" "tables d = Some t" "tables_ok uni t" by (elim sql_okE)
  with 11(2) show ?case by (simp add: sql_Top_eq [OF t(1,2)] sql_limit_def sql_listing_def)
next
  case (12 d r)
  then obtain t where t: "healthy d" "tables d = Some t" "tables_ok uni t" by (elim sql_okE)
  from sql_SaveMatch_eq [OF t(1,2)] obtain d' where d': "sql_SaveMatch drv r d = (None, d')"
    "healthy d'" "tables d' = Some (put_match (match_row r) t)" by blast
  with sql_view(1) [OF d'(2,3) tables_ok_put_match [OF t(3) 12(2)]] show ?case
    by (simp add: sql_view(1) [OF t] players_in_def fun_eq_iff)
next
  case (13 d r)
  then obtain t where t: "healthy d" "tables d = Some t" "tables_ok uni t" by (elim sql_okE)
  from sql_SaveMatch_eq [OF t(1,2)] obtain d' where d': "sql_SaveMatch drv r d = (None, d')"
    "healthy d'" "tables d' = Some (put_match (match_row r) t)" by blast
  with sql_okI [OF d'(2,3) tables_ok_put_match [OF t(3) 13(2)]] show ?case by simp
next
  case (14 d p)
  then show ?case by (simp add: sql_Save_exec players_frame)
next
  case (15 d p)
  then show ?case by (simp add: sql_Create_exec players_frame)
next
  case (16 d)
  then obtain t where t: "healthy d" "tables d = Some t" "tables_ok uni t" by (elim sql_okE)
  have "map p_ID (map player_of (t_players t)) = map pr_id (t_players t)" by simp
  with tables_okD(1) [OF t(3)] have "distinct (map player_of (t_players t))"
    by (metis distinct_map)
  with t show ?case by (simp add: sql_listing_def sql_view [OF t] ran_players_in [OF t(3)])
qed

section \<open>Opening the database\<close>

text \<open>
  Opening applies the schema: a new file gets the two empty tables, and a file that has them keeps
  every row, so that what was stored is there again after a restart.
\<close>

lemma sqlite_Open_ok:
  assumes "healthy d"
  shows "\<exists>d'. sqlite_Open drv path d = (None, d') \<and> healthy d'
    \<and> tables d' = Some (case tables d of None \<Rightarrow> \<lparr>t_players = [], t_matches = []\<rparr> | Some t \<Rightarrow> t)"
proof -
  let ?t = "case tables d of None \<Rightarrow> \<lparr>t_players = [], t_matches = []\<rparr> | Some t \<Rightarrow> t"
  obtain d1 where d1: "dr_Open drv (''file:'' @ path
      @ ''?_pragma=journal_mode(WAL)&_pragma=busy_timeout(5000)&_pragma=foreign_keys(on)'') d = (None, d1)"
    "healthy d1" "tables d1 = tables d"
    using open_ok [OF assms] by blast
  have "sql_exec ApplySchema (tables d1) = (Inr 0, Some ?t)"
    by (simp add: d1(3) split: option.split)
  from exec_ok [OF d1(2) this] obtain d2 where
    "dr_Exec drv ApplySchema d1 = (Inr (Inr 0), d2)" "tables d2 = Some ?t" "healthy d2" by blast
  with d1 ping_ok [OF d1(2)] show ?thesis by (simp add: sqlite_Open_def Let_def)
qed

end

lemma sqlite_is_backend:
  "sqlite_laws drv healthy tables \<Longrightarrow>
   backend (sqlite_backend drv uni) (nameKey uni) (sql_ok healthy tables uni) (sql_listing tables)"
  by (rule sqlite_driver.is_backend) (unfold_locales)

interpretation table_stores:
  backend "sqlite_backend table_driver uni" "nameKey uni" "sql_ok (\<lambda>d. True) (\<lambda>d. d) uni"
    "sql_listing (\<lambda>d. d)"
  for uni
  by (rule table_sql.is_backend)

end
