(* ===== verification/Conformance.thy ===== *)
theory Conformance
  imports Sqlite_Props
begin

text \<open>
  The conformance suite of the stores (\<open>internal/adapter/storetest/storetest.go\<close>), as functions
  of a store: every subtest gets an empty store and passes or fails (\<open>t.Fatalf\<close> ends it as
  failed). What Go's tests check by running them on two stores holds of every store that keeps
  the contract \<open>backend\<close>: the locale \<open>empty_store\<close> proves each subtest from the contract alone, and
  is interpreted on both stores of the repository.

  Pointers are values here: a player that was read and then changed is a changed copy, so the
  subtest about copies checks what it checks only up to the copying the stores do themselves.
\<close>

section \<open>Helpers\<close>

definition newPlayer :: "string \<Rightarrow> string \<Rightarrow> DomainError + Player" where
  "newPlayer i name = NewPlayer i name (''hash-of-'' @ name)"

text \<open>\<open>errors.Is\<close> on the error of a call; no error is no sentinel.\<close>

fun fails_with :: "goerr option \<Rightarrow> DomainError \<Rightarrow> bool" where
  "fails_with None d = False"
| "fails_with (Some err) d = errors_Is err d"

fun error_of :: "goerr + 'a \<Rightarrow> goerr option" where
  "error_of (Inl err) = Some err"
| "error_of (Inr x) = None"

text \<open>A player is created, or the test fails; the rest of the test goes on with both.\<close>

definition created ::
  "'s Backend \<Rightarrow> string \<Rightarrow> string \<Rightarrow> 's \<Rightarrow> (Player \<Rightarrow> 's \<Rightarrow> bool) \<Rightarrow> bool" where
  "created b i name s k =
     (case newPlayer i name of
        Inl err \<Rightarrow> False
      | Inr p \<Rightarrow> (case bk_Create b p s of (Some err, s1) \<Rightarrow> False | (None, s1) \<Rightarrow> k p s1))"

section \<open>The subtests of the player store\<close>

definition create_then_read_back :: "'s Backend \<Rightarrow> 's \<Rightarrow> bool" where
  "create_then_read_back b s =
     created b ''p1'' ''alice'' s (\<lambda>want s1.
       list_all (\<lambda>get. case get s1 of
           Inl err \<Rightarrow> False
         | Inr got \<Rightarrow> p_ID got = p_ID want \<and> p_Name got = p_Name want
             \<and> p_PasswordHash got = p_PasswordHash want)
         [bk_ByID b ''p1'', bk_ByName b ''alice''])"

definition missing_player :: "'s Backend \<Rightarrow> 's \<Rightarrow> bool" where
  "missing_player b s \<longleftrightarrow>
     fails_with (error_of (bk_ByID b ''nobody'' s)) ErrPlayerNotFound
     \<and> fails_with (error_of (bk_ByName b ''nobody'' s)) ErrPlayerNotFound"

definition duplicate_name :: "string \<Rightarrow> 's Backend \<Rightarrow> 's \<Rightarrow> bool" where
  "duplicate_name second b s =
     created b ''p1'' ''alice'' s (\<lambda>p1 s1.
       case newPlayer ''p2'' second of
         Inl err \<Rightarrow> False
       | Inr p2 \<Rightarrow> fails_with (fst (bk_Create b p2 s1)) ErrNameTaken)"

definition lookup_ignores_case :: "'s Backend \<Rightarrow> 's \<Rightarrow> bool" where
  "lookup_ignores_case b s =
     created b ''p1'' ''Alice'' s (\<lambda>p1 s1.
       case bk_ByName b ''aLiCe'' s1 of Inl err \<Rightarrow> False | Inr got \<Rightarrow> p_Name got = ''Alice'')"

definition save_persists_stats :: "'s Backend \<Rightarrow> 's \<Rightarrow> bool" where
  "save_persists_stats b s =
     created b ''p1'' ''alice'' s (\<lambda>p s1.
       let p = Player_Record (Player_Record p OutcomeWin) OutcomeDraw
       in case bk_Save b p s1 of
            (Some err, s2) \<Rightarrow> False
          | (None, s2) \<Rightarrow>
              (case bk_ByID b ''p1'' s2 of
                 Inl err \<Rightarrow> False
               | Inr got \<Rightarrow> p_Stats got = \<lparr>Wins = 1, Losses = 0, Draws = 1\<rparr>))"

definition save_unknown :: "'s Backend \<Rightarrow> 's \<Rightarrow> bool" where
  "save_unknown b s =
     (case newPlayer ''ghost'' ''ghost'' of
        Inl err \<Rightarrow> False
      | Inr p \<Rightarrow> fails_with (fst (bk_Save b p s)) ErrPlayerNotFound)"

definition reads_are_copies :: "'s Backend \<Rightarrow> 's \<Rightarrow> bool" where
  "reads_are_copies b s =
     created b ''p1'' ''alice'' s (\<lambda>p s1.
       case bk_ByID b ''p1'' s1 of
         Inl err \<Rightarrow> False
       | Inr first \<Rightarrow>
           (let first = first\<lparr>p_Stats := (p_Stats first)\<lparr>Wins := 99\<rparr>, p_Name := ''mallory''\<rparr>
            in case bk_ByID b ''p1'' s1 of
                 Inl err \<Rightarrow> False
               | Inr second \<Rightarrow> Wins (p_Stats second) = 0 \<and> p_Name second = ''alice''))"

definition empty_leaderboard :: "'s Backend \<Rightarrow> 's \<Rightarrow> bool" where
  "empty_leaderboard b s = (case bk_Top b 10 s of Inl err \<Rightarrow> False | Inr got \<Rightarrow> length got = 0)"

fun seed_loop :: "'s Backend \<Rightarrow> (string \<times> string \<times> Stats) list \<Rightarrow> 's \<Rightarrow> 's option" where
  "seed_loop b [] s = Some s"
| "seed_loop b ((i, name, stats) # rest) s =
     (case newPlayer i name of
        Inl err \<Rightarrow> None
      | Inr p \<Rightarrow>
          (let p = p\<lparr>p_Stats := stats\<rparr>
           in case bk_Create b p s of
                (Some err, s1) \<Rightarrow> None
              | (None, s1) \<Rightarrow>
                  (case bk_Save b p s1 of
                     (Some err, s2) \<Rightarrow> None
                   | (None, s2) \<Rightarrow> seed_loop b rest s2)))"

definition seed :: "(string \<times> string \<times> Stats) list" where
  "seed =
     [(''p1'', ''carol'', \<lparr>Wins = 5, Losses = 4, Draws = 0\<rparr>),
      (''p2'', ''alice'', \<lparr>Wins = 5, Losses = 1, Draws = 0\<rparr>),
      (''p3'', ''bob'', \<lparr>Wins = 9, Losses = 0, Draws = 0\<rparr>),
      (''p4'', ''dave'', \<lparr>Wins = 0, Losses = 2, Draws = 0\<rparr>)]"

definition top_orders :: "'s Backend \<Rightarrow> 's \<Rightarrow> bool" where
  "top_orders b s =
     (case seed_loop b seed s of
        None \<Rightarrow> False
      | Some s1 \<Rightarrow>
          (case bk_Top b 10 s1 of
             Inl err \<Rightarrow> False
           | Inr got \<Rightarrow> map p_Name got = [''bob'', ''alice'', ''carol'', ''dave'']))"

fun create_loop :: "'s Backend \<Rightarrow> string list \<Rightarrow> 's \<Rightarrow> 's option" where
  "create_loop b [] s = Some s"
| "create_loop b (name # rest) s =
     (case newPlayer (''id-'' @ name) name of
        Inl err \<Rightarrow> None
      | Inr p \<Rightarrow>
          (case bk_Create b p s of (Some err, s1) \<Rightarrow> None | (None, s1) \<Rightarrow> create_loop b rest s1))"

definition top_respects_limit :: "'s Backend \<Rightarrow> 's \<Rightarrow> bool" where
  "top_respects_limit b s =
     (case create_loop b [''alice'', ''bob'', ''carol''] s of
        None \<Rightarrow> False
      | Some s1 \<Rightarrow> (case bk_Top b 2 s1 of Inl err \<Rightarrow> False | Inr got \<Rightarrow> length got = 2))"

definition RunPlayerStore :: "'s Backend \<Rightarrow> 's \<Rightarrow> bool" where
  "RunPlayerStore b s \<longleftrightarrow>
     create_then_read_back b s \<and> missing_player b s \<and> duplicate_name ''alice'' b s
     \<and> duplicate_name ''ALICE'' b s \<and> lookup_ignores_case b s \<and> save_persists_stats b s
     \<and> save_unknown b s \<and> reads_are_copies b s \<and> empty_leaderboard b s \<and> top_orders b s
     \<and> top_respects_limit b s"

section \<open>The subtests of the match store\<close>

definition test_record :: "Status \<Rightarrow> Move list \<Rightarrow> MatchRecord" where
  "test_record status moves =
     \<lparr>r_ID = ''m1'', r_X = ''p1'', r_O = ''p2'', r_Status = status, r_Moves = moves\<rparr>"

definition won_moves :: "Move list" where
  "won_moves =
     [\<lparr>mv_Mark = X, mv_Cell = 0\<rparr>, \<lparr>mv_Mark = Mark.O, mv_Cell = 3\<rparr>, \<lparr>mv_Mark = X, mv_Cell = 1\<rparr>,
      \<lparr>mv_Mark = Mark.O, mv_Cell = 4\<rparr>, \<lparr>mv_Mark = X, mv_Cell = 2\<rparr>]"

definition save_then_read :: "'s Backend \<Rightarrow> 's \<Rightarrow> bool" where
  "save_then_read b s =
     (let want = test_record StatusInProgress [\<lparr>mv_Mark = X, mv_Cell = 4\<rparr>, \<lparr>mv_Mark = Mark.O, mv_Cell = 0\<rparr>]
      in case bk_SaveMatch b want s of
           (Some err, s1) \<Rightarrow> False
         | (None, s1) \<Rightarrow>
             (case bk_MatchByID b ''m1'' s1 of
                Inl err \<Rightarrow> False
              | Inr None \<Rightarrow> False
              | Inr (Some got) \<Rightarrow>
                  r_ID got = r_ID want \<and> r_X got = r_X want \<and> r_O got = r_O want
                  \<and> r_Status got = r_Status want \<and> r_Moves got = r_Moves want))"

definition missing_match :: "'s Backend \<Rightarrow> 's \<Rightarrow> bool" where
  "missing_match b s = (case bk_MatchByID b ''nope'' s of Inl err \<Rightarrow> False | Inr r \<Rightarrow> r = None)"

text \<open>A record is saved and read back, or the test fails.\<close>

definition saved_and_read :: "'s Backend \<Rightarrow> MatchRecord \<Rightarrow> 's \<Rightarrow> (MatchRecord \<Rightarrow> bool) \<Rightarrow> bool" where
  "saved_and_read b r s k =
     (case bk_SaveMatch b r s of
        (Some err, s1) \<Rightarrow> False
      | (None, s1) \<Rightarrow>
          (case bk_MatchByID b ''m1'' s1 of
             Inl err \<Rightarrow> False
           | Inr None \<Rightarrow> False
           | Inr (Some got) \<Rightarrow> k got))"

definition save_upserts :: "'s Backend \<Rightarrow> 's \<Rightarrow> bool" where
  "save_upserts b s =
     (case bk_SaveMatch b (test_record StatusInProgress [\<lparr>mv_Mark = X, mv_Cell = 0\<rparr>]) s of
        (Some err, s1) \<Rightarrow> False
      | (None, s1) \<Rightarrow>
          saved_and_read b (test_record StatusXWon won_moves) s1
            (\<lambda>got. r_Status got = StatusXWon \<and> length (r_Moves got) = 5))"

definition no_moves_round_trip :: "'s Backend \<Rightarrow> 's \<Rightarrow> bool" where
  "no_moves_round_trip b s =
     saved_and_read b (test_record StatusInProgress []) s (\<lambda>got. length (r_Moves got) = 0)"

definition replays_into_position :: "'s Backend \<Rightarrow> 's \<Rightarrow> bool" where
  "replays_into_position b s =
     saved_and_read b (test_record StatusXWon won_moves) s
       (\<lambda>got. case RestoreMatch (r_ID got) (r_X got) (r_O got) (r_Moves got) of
          Inl err \<Rightarrow> False
        | Inr restored \<Rightarrow>
            Match_Status restored = StatusXWon \<and> Match_Winner restored = (''p1'', True))"

definition RunMatchStore :: "'s Backend \<Rightarrow> 's \<Rightarrow> bool" where
  "RunMatchStore b s \<longleftrightarrow>
     save_then_read b s \<and> missing_match b s \<and> save_upserts b s \<and> no_moves_round_trip b s
     \<and> replays_into_position b s"

section \<open>Every store that keeps the contract passes\<close>

lemma suite_names:
  "newPlayer i ''alice'' = Inr \<lparr>p_ID = i, p_Name = ''alice'', p_PasswordHash = ''hash-of-alice'', p_Stats = zero_stats\<rparr>"
  "newPlayer i ''ALICE'' = Inr \<lparr>p_ID = i, p_Name = ''ALICE'', p_PasswordHash = ''hash-of-ALICE'', p_Stats = zero_stats\<rparr>"
  "newPlayer i ''Alice'' = Inr \<lparr>p_ID = i, p_Name = ''Alice'', p_PasswordHash = ''hash-of-Alice'', p_Stats = zero_stats\<rparr>"
  "newPlayer i ''ghost'' = Inr \<lparr>p_ID = i, p_Name = ''ghost'', p_PasswordHash = ''hash-of-ghost'', p_Stats = zero_stats\<rparr>"
  "newPlayer i ''bob'' = Inr \<lparr>p_ID = i, p_Name = ''bob'', p_PasswordHash = ''hash-of-bob'', p_Stats = zero_stats\<rparr>"
  "newPlayer i ''carol'' = Inr \<lparr>p_ID = i, p_Name = ''carol'', p_PasswordHash = ''hash-of-carol'', p_Stats = zero_stats\<rparr>"
  "newPlayer i ''dave'' = Inr \<lparr>p_ID = i, p_Name = ''dave'', p_PasswordHash = ''hash-of-dave'', p_Stats = zero_stats\<rparr>"
proof -
  have "NormalizeName ''alice'' = Inr ''alice''" "NormalizeName ''ALICE'' = Inr ''ALICE''"
    "NormalizeName ''Alice'' = Inr ''Alice''" "NormalizeName ''ghost'' = Inr ''ghost''"
    "NormalizeName ''bob'' = Inr ''bob''" "NormalizeName ''carol'' = Inr ''carol''"
    "NormalizeName ''dave'' = Inr ''dave''"
    by code_simp+
  then show
    "newPlayer i ''alice'' = Inr \<lparr>p_ID = i, p_Name = ''alice'', p_PasswordHash = ''hash-of-alice'', p_Stats = zero_stats\<rparr>"
    "newPlayer i ''ALICE'' = Inr \<lparr>p_ID = i, p_Name = ''ALICE'', p_PasswordHash = ''hash-of-ALICE'', p_Stats = zero_stats\<rparr>"
    "newPlayer i ''Alice'' = Inr \<lparr>p_ID = i, p_Name = ''Alice'', p_PasswordHash = ''hash-of-Alice'', p_Stats = zero_stats\<rparr>"
    "newPlayer i ''ghost'' = Inr \<lparr>p_ID = i, p_Name = ''ghost'', p_PasswordHash = ''hash-of-ghost'', p_Stats = zero_stats\<rparr>"
    "newPlayer i ''bob'' = Inr \<lparr>p_ID = i, p_Name = ''bob'', p_PasswordHash = ''hash-of-bob'', p_Stats = zero_stats\<rparr>"
    "newPlayer i ''carol'' = Inr \<lparr>p_ID = i, p_Name = ''carol'', p_PasswordHash = ''hash-of-carol'', p_Stats = zero_stats\<rparr>"
    "newPlayer i ''dave'' = Inr \<lparr>p_ID = i, p_Name = ''dave'', p_PasswordHash = ''hash-of-dave'', p_Stats = zero_stats\<rparr>"
    by (simp_all add: newPlayer_def NewPlayer_def)
qed

lemma suite_keys:
  "nameKey u ''alice'' = ''alice''" "nameKey u ''ALICE'' = ''alice''" "nameKey u ''Alice'' = ''alice''"
  "nameKey u ''aLiCe'' = ''alice''" "nameKey u ''bob'' = ''bob''" "nameKey u ''carol'' = ''carol''"
  "nameKey u ''dave'' = ''dave''"
  by code_simp+

lemma storable_test_record:
  "(\<And>mv. mv \<in> set moves \<Longrightarrow> mv_Mark mv \<noteq> Empty \<and> int64 (mv_Cell mv)) \<Longrightarrow>
   storable_record (test_record status moves)"
  by (simp add: storable_record_def storable_def test_record_def)

lemma test_record_sel [simp]:
  "r_ID (test_record st mvs) = ''m1''" "r_X (test_record st mvs) = ''p1''"
  "r_O (test_record st mvs) = ''p2''" "r_Status (test_record st mvs) = st"
  "r_Moves (test_record st mvs) = mvs"
  by (simp_all add: test_record_def)

definition suite_player :: "string \<Rightarrow> string \<Rightarrow> Stats \<Rightarrow> Player" where
  "suite_player i n st = \<lparr>p_ID = i, p_Name = n, p_PasswordHash = ''hash-of-'' @ n, p_Stats = st\<rparr>"

locale empty_store = backend b "nameKey uni" good listing
  for b :: "'s Backend" and uni :: "string \<Rightarrow> string" and good :: "'s \<Rightarrow> bool"
    and listing :: "'s \<Rightarrow> Player list" +
  fixes s0 :: 's
  assumes fresh: "good s0" "bk_view b s0 = Map.empty" "bk_stored b s0 = Map.empty"
begin

lemma name_lookup:
  assumes "good s" and "bk_view b s i = Some p" and "nameKey uni (p_Name p) = nameKey uni n"
  shows "bk_ByName b n s = Inr p"
  by (rule reg.ByName_found [OF assms])

lemma id_lookup:
  "good s \<Longrightarrow> bk_view b s i = Some p \<Longrightarrow> bk_ByID b i s = Inr p"
  by (simp add: rec.ByID_view)

text \<open>One player is created in the empty store.\<close>

lemma created_first:
  assumes "newPlayer i name = Inr p" and "p_ID p = i"
    and "\<And>s. good s \<Longrightarrow> bk_view b s = [i \<mapsto> p] \<Longrightarrow> k p s"
  shows "created b i name s0 k"
proof -
  obtain s1 where "bk_Create b p s0 = (None, s1)" "bk_view b s1 = [i \<mapsto> p]" "good s1"
    using reg.Create_free [OF fresh(1), of p] fresh(2) assms(2) by auto
  with assms(1,3) show ?thesis by (simp add: created_def)
qed

lemma player_tests:
  "create_then_read_back b s0" "missing_player b s0" "lookup_ignores_case b s0"
  "save_unknown b s0" "reads_are_copies b s0" "empty_leaderboard b s0"
proof -
  show "create_then_read_back b s0"
    unfolding create_then_read_back_def
    by (rule created_first [OF suite_names(1)])
      (simp_all add: id_lookup name_lookup [where i = "''p1''"])
  show "missing_player b s0"
    using rec.ByID_view [OF fresh(1)] reg.ByName_missing [OF fresh(1), of "''nobody''"]
    by (simp add: missing_player_def fresh(2))
  show "lookup_ignores_case b s0"
    unfolding lookup_ignores_case_def
    by (rule created_first [OF suite_names(3)]) (simp_all add: name_lookup [where i = "''p1''"] suite_keys)
  show "save_unknown b s0"
    using rec.Save_unknown [OF fresh(1), of "\<lparr>p_ID = ''ghost'', p_Name = ''ghost'',
        p_PasswordHash = ''hash-of-ghost'', p_Stats = zero_stats\<rparr>"] fresh(2)
    by (auto simp: save_unknown_def suite_names)
  show "reads_are_copies b s0"
    unfolding reads_are_copies_def
    by (rule created_first [OF suite_names(1)]) (simp_all add: id_lookup zero_stats_def)
  have "bk_Top b 10 s0 = Inr (take 10 [])"
    using Top_determined [OF fresh(1), of 10 "[]"] fresh(2) by simp
  then show "empty_leaderboard b s0" by (simp add: empty_leaderboard_def)
qed

lemma duplicate_tests: "duplicate_name ''alice'' b s0" "duplicate_name ''ALICE'' b s0"
proof -
  have "duplicate_name n b s0"
    if "\<And>i. newPlayer i n = Inr \<lparr>p_ID = i, p_Name = n, p_PasswordHash = h, p_Stats = zero_stats\<rparr>"
      "nameKey uni n = ''alice''" for n h
    unfolding duplicate_name_def
  proof (rule created_first [OF suite_names(1)])
    fix s
    assume s: "good s" "bk_view b s = [''p1'' \<mapsto> \<lparr>p_ID = ''p1'', p_Name = ''alice'',
      p_PasswordHash = ''hash-of-alice'', p_Stats = zero_stats\<rparr>]"
    let ?p = "\<lparr>p_ID = ''p2'', p_Name = n, p_PasswordHash = h, p_Stats = zero_stats\<rparr>"
    have "fst (bk_Create b ?p s) = Some (Domain ErrNameTaken)"
      using reg.Create_taken [OF s(1), of "''p1''" _ ?p] s(2) that(2) by (fastforce simp: suite_keys)
    then show "case newPlayer ''p2'' n of Inl err \<Rightarrow> False
        | Inr p2 \<Rightarrow> fails_with (fst (bk_Create b p2 s)) ErrNameTaken"
      by (simp add: that(1))
  qed simp
  from this [OF suite_names(1) suite_keys(1)] this [OF suite_names(2) suite_keys(2)]
  show "duplicate_name ''alice'' b s0" "duplicate_name ''ALICE'' b s0" .
qed

lemma stats_test: "save_persists_stats b s0"
  unfolding save_persists_stats_def
proof (rule created_first [OF suite_names(1)])
  let ?p = "\<lparr>p_ID = ''p1'', p_Name = ''alice'', p_PasswordHash = ''hash-of-alice'', p_Stats = zero_stats\<rparr>"
  fix s
  assume s: "good s" "bk_view b s = [''p1'' \<mapsto> ?p]"
  let ?q = "Player_Record (Player_Record ?p OutcomeWin) OutcomeDraw"
  obtain s2 where s2: "bk_Save b ?q s = (None, s2)" "bk_view b s2 = (bk_view b s)(p_ID ?q \<mapsto> ?q)" "good s2"
    using rec.Save_known [OF s(1), of ?q ?p] s(2) by auto
  then have "bk_ByID b ''p1'' s2 = Inr ?q" by (intro id_lookup) simp_all
  then show "let p = ?q in case bk_Save b p s of (Some err, s2) \<Rightarrow> False
      | (None, s2) \<Rightarrow> (case bk_ByID b ''p1'' s2 of Inl err \<Rightarrow> False
          | Inr got \<Rightarrow> p_Stats got = \<lparr>Wins = 1, Losses = 0, Draws = 1\<rparr>)"
    by (simp add: s2(1) Let_def) (simp add: zero_stats_def int64_def)
qed simp

text \<open>
  The loops that fill a store: from players \<open>ps\<close> that are there, with identities and names that do
  not clash, every round adds one player.
\<close>

lemma map_of_free:
  assumes "nameKey uni n \<notin> set (map (\<lambda>(i, p). nameKey uni (p_Name p)) ps)"
  shows "map_of ps i = Some q \<Longrightarrow> nameKey uni (p_Name q) \<noteq> nameKey uni n"
  using assms by (force dest: map_of_SomeD)

lemma create_run:
  assumes "good s" and "bk_view b s = map_of ps"
    and "\<forall>n \<in> set ns. newPlayer (''id-'' @ n) n = Inr (suite_player (''id-'' @ n) n zero_stats)"
    and "distinct (map (\<lambda>n. ''id-'' @ n) ns)" and "(\<lambda>n. ''id-'' @ n) ` set ns \<inter> fst ` set ps = {}"
    and "distinct (map (nameKey uni) ns)"
    and "nameKey uni ` set ns \<inter> set (map (\<lambda>(i, p). nameKey uni (p_Name p)) ps) = {}"
  shows "\<exists>s'. create_loop b ns s = Some s' \<and> good s'
    \<and> bk_view b s' = map_of (rev (map (\<lambda>n. (''id-'' @ n, suite_player (''id-'' @ n) n zero_stats)) ns) @ ps)"
  using assms
proof (induction ns arbitrary: s ps)
  case (Cons n ns)
  let ?p = "suite_player (''id-'' @ n) n zero_stats"
  have p: "p_ID ?p = ''id-'' @ n" "p_Name ?p = n" by (simp_all add: suite_player_def)
  have "nameKey uni (p_Name ?p) \<notin> set (map (\<lambda>(i, p). nameKey uni (p_Name p)) ps)"
    using Cons.prems(7) p(2) by auto
  note free = map_of_free [OF this]
  have "map_of ps (''id-'' @ n) = None" using Cons.prems(5) by (simp add: map_of_eq_None_iff)
  then obtain s1 where s1: "bk_Create b ?p s = (None, s1)" "bk_view b s1 = (map_of ps)(''id-'' @ n \<mapsto> ?p)"
    "good s1"
    using reg.Create_free [OF Cons.prems(1), of ?p] free Cons.prems(2) p(1) by auto
  from Cons.IH [OF s1(3), of "(''id-'' @ n, ?p) # ps"] s1(2) Cons.prems p
  obtain s' where "create_loop b ns s1 = Some s'" "good s'"
    "bk_view b s' = map_of (rev (map (\<lambda>n. (''id-'' @ n, suite_player (''id-'' @ n) n zero_stats)) ns)
       @ (''id-'' @ n, ?p) # ps)"
    by auto
  with s1(1) Cons.prems(3) show ?case by simp
qed simp

lemma seed_run:
  assumes "good s" and "bk_view b s = map_of ps"
    and "\<forall>(i, n, st) \<in> set xs. newPlayer i n = Inr (suite_player i n zero_stats)"
    and "distinct (map fst xs)" and "fst ` set xs \<inter> fst ` set ps = {}"
    and "distinct (map (\<lambda>(i, n, st). nameKey uni n) xs)"
    and "(\<lambda>(i, n, st). nameKey uni n) ` set xs \<inter> set (map (\<lambda>(i, p). nameKey uni (p_Name p)) ps) = {}"
  shows "\<exists>s'. seed_loop b xs s = Some s' \<and> good s'
    \<and> bk_view b s' = map_of (rev (map (\<lambda>(i, n, st). (i, suite_player i n st)) xs) @ ps)"
  using assms
proof (induction xs arbitrary: s ps)
  case (Cons x xs)
  obtain i n st where x: "x = (i, n, st)" by (cases x)
  let ?p = "suite_player i n st"
  have p: "p_ID ?p = i" "p_Name ?p = n" "(suite_player i n zero_stats)\<lparr>p_Stats := st\<rparr> = ?p"
    by (simp_all add: suite_player_def)
  have "nameKey uni (p_Name ?p) \<notin> set (map (\<lambda>(i, p). nameKey uni (p_Name p)) ps)"
    using Cons.prems(7) p(2) by (auto simp: x)
  note free = map_of_free [OF this]
  have "map_of ps i = None" using Cons.prems(5) by (simp add: x map_of_eq_None_iff)
  then obtain s1 where s1: "bk_Create b ?p s = (None, s1)" "bk_view b s1 = (map_of ps)(i \<mapsto> ?p)" "good s1"
    using reg.Create_free [OF Cons.prems(1), of ?p] free Cons.prems(2) p(1) by auto
  obtain s2 where s2: "bk_Save b ?p s1 = (None, s2)" "bk_view b s2 = (map_of ps)(i \<mapsto> ?p)" "good s2"
    using rec.Save_known [OF s1(3), of ?p ?p] s1(2) p(1) by auto
  from Cons.IH [OF s2(3), of "(i, ?p) # ps"] s2(2) Cons.prems p
  obtain s' where "seed_loop b xs s2 = Some s'" "good s'"
    "bk_view b s' = map_of (rev (map (\<lambda>(i, n, st). (i, suite_player i n st)) xs) @ (i, ?p) # ps)"
    by (auto simp: x)
  with s1(1) s2(1) Cons.prems(3) p(3) show ?case by (simp add: x)
qed simp

lemma limit_test: "top_respects_limit b s0"
proof -
  obtain s1 where s1: "create_loop b [''alice'', ''bob'', ''carol''] s0 = Some s1" "good s1"
    "bk_view b s1 = map_of (rev (map (\<lambda>n. (''id-'' @ n, suite_player (''id-'' @ n) n zero_stats))
        [''alice'', ''bob'', ''carol'']) @ [])"
    using create_run [OF fresh(1), of "[]" "[''alice'', ''bob'', ''carol'']"] fresh(2)
    by (auto simp: suite_names suite_player_def suite_keys)
  have "dom (bk_view b s1) = {''id-alice'', ''id-bob'', ''id-carol''}"
    unfolding s1(3) dom_map_of_conv_image_fst by auto
  then have "length (listing s1) = 3" using listing_length [OF s1(2)] by simp
  with brd.Top_ranked [OF s1(2), of 2] show ?thesis unfolding top_respects_limit_def s1(1) by simp
qed

lemma order_test: "top_orders b s0"
proof -
  let ?p = suite_player
  let ?ps = "map (\<lambda>(i, n, st). (i, ?p i n st)) seed"
  obtain s1 where s1: "seed_loop b seed s0 = Some s1" "good s1" "bk_view b s1 = map_of (rev ?ps @ [])"
    using seed_run [OF fresh(1), of "[]" seed] fresh(2)
    by (auto simp: seed_def suite_names suite_player_def suite_keys)
  let ?top = "[?p ''p3'' ''bob'' \<lparr>Wins = 9, Losses = 0, Draws = 0\<rparr>,
    ?p ''p2'' ''alice'' \<lparr>Wins = 5, Losses = 1, Draws = 0\<rparr>,
    ?p ''p1'' ''carol'' \<lparr>Wins = 5, Losses = 4, Draws = 0\<rparr>,
    ?p ''p4'' ''dave'' \<lparr>Wins = 0, Losses = 2, Draws = 0\<rparr>]"
  have "bk_Top b 10 s1 = Inr (take (nat 10) ?top)"
  proof (rule Top_determined [OF s1(2)])
    have "distinct (map fst (rev ?ps))" by (simp add: seed_def)
    from ran_distinct [OF this] show "set ?top = ran (bk_view b s1)"
      by (simp add: s1(3)) (auto simp: seed_def)
  qed (simp_all add: suite_player_def rank_of_def less_eq_rank_key_def rank_tuple_def less_eq_prod_def)
  then show ?thesis by (simp add: top_orders_def s1(1)) (simp add: suite_player_def)
qed

lemma player_suite: "RunPlayerStore b s0"
  using player_tests duplicate_tests stats_test order_test limit_test by (simp add: RunPlayerStore_def)

lemma save_read:
  assumes "good s" and "storable_record r" and "same_match (bk_stored b s) r" and "r_ID r = ''m1''"
    and "k r"
  shows "saved_and_read b r s k"
  using mst.Save_then_ByID [OF assms(1-3)] assms(4,5)
  by (cases "bk_SaveMatch b r s") (auto simp: saved_and_read_def)

lemma won_storable: "storable_record (test_record st won_moves)"
  by (rule storable_test_record) (auto simp: won_moves_def int64_def)

lemma match_suite: "RunMatchStore b s0"
proof -
  have new: "same_match (bk_stored b s0) r" for r by (simp add: same_match_def fresh(3))
  let ?two = "test_record StatusInProgress [\<lparr>mv_Mark = X, mv_Cell = 4\<rparr>, \<lparr>mv_Mark = Mark.O, mv_Cell = 0\<rparr>]"
  let ?one = "test_record StatusInProgress [\<lparr>mv_Mark = X, mv_Cell = 0\<rparr>]"
  have sto: "storable_record ?two" "storable_record ?one" "storable_record (test_record StatusInProgress [])"
    by (auto intro!: storable_test_record simp: int64_def)
  have "save_then_read b s0"
    using mst.Save_then_ByID [OF fresh(1) sto(1) new]
    by (cases "bk_SaveMatch b ?two s0") (auto simp: save_then_read_def Let_def)
  moreover have "missing_match b s0" by (simp add: missing_match_def mst.ByID_stored [OF fresh(1)] fresh(3))
  moreover have "save_upserts b s0"
  proof -
    obtain s1 where s1: "bk_SaveMatch b ?one s0 = (None, s1)" "bk_stored b s1 = [''m1'' \<mapsto> ?one]" "good s1"
      using mst.Save_stores [OF fresh(1) sto(2) new] fresh(3) by auto
    have "saved_and_read b (test_record StatusXWon won_moves) s1
        (\<lambda>got. r_Status got = StatusXWon \<and> length (r_Moves got) = 5)"
      by (rule save_read [OF s1(3) won_storable]) (simp_all add: same_match_def s1(2) won_moves_def)
    then show ?thesis by (simp add: save_upserts_def s1(1))
  qed
  moreover have "no_moves_round_trip b s0"
    unfolding no_moves_round_trip_def by (rule save_read [OF fresh(1) sto(3) new]) simp_all
  moreover have "replays_into_position b s0"
  proof -
    have "case RestoreMatch ''m1'' ''p1'' ''p2'' won_moves of Inl err \<Rightarrow> False
        | Inr restored \<Rightarrow> Match_Status restored = StatusXWon \<and> Match_Winner restored = (''p1'', True)"
      by code_simp
    then show ?thesis
      unfolding replays_into_position_def by (intro save_read [OF fresh(1) won_storable new]) simp_all
  qed
  ultimately show ?thesis by (simp add: RunMatchStore_def)
qed

end

interpretation mem_suite: empty_store "mem_backend uni" uni "mem_ok uni" mem_listing NewStores for uni
  by (intro empty_store.intro empty_store_axioms.intro mem_stores.backend_axioms)
    (simp_all add: NewStores_def NewPlayerStore_def NewMatchStore_def mem_ok_def mem_good_def
      mem_view_def mem_stored_def name_index_def)

context sqlite_driver
begin

lemma empty_tables:
  assumes "healthy d" and "tables d = Some \<lparr>t_players = [], t_matches = []\<rparr>"
  shows "sql_ok healthy tables uni d" and "bk_view (sqlite_backend drv uni) d = Map.empty"
    and "bk_stored (sqlite_backend drv uni) d = Map.empty"
proof -
  have ok: "tables_ok uni \<lparr>t_players = [], t_matches = []\<rparr>"
    by (simp add: tables_ok_def matches_ok_def)
  show "sql_ok healthy tables uni d" by (rule sql_okI [OF assms ok])
  show "bk_view (sqlite_backend drv uni) d = Map.empty"
    "bk_stored (sqlite_backend drv uni) d = Map.empty"
    using sql_view [OF assms ok] by (simp_all add: players_in_def records_in_def fun_eq_iff)
qed

end

lemma sqlite_suite:
  assumes "sqlite_laws drv healthy tables" and "healthy d"
    and "tables d = Some \<lparr>t_players = [], t_matches = []\<rparr>"
  shows "empty_store (sqlite_backend drv uni) uni (sql_ok healthy tables uni) (sql_listing tables) d"
proof -
  have "sqlite_driver drv healthy tables" by unfold_locales (rule assms(1))
  note E = sqlite_driver.empty_tables [OF this assms(2,3)]
  show ?thesis
    by (intro empty_store.intro empty_store_axioms.intro sqlite_is_backend [OF assms(1)] E)
qed

interpretation table_suite:
  empty_store "sqlite_backend table_driver uni" uni "sql_ok (\<lambda>d. True) (\<lambda>d. d) uni"
    "sql_listing (\<lambda>d. d)" "Some \<lparr>t_players = [], t_matches = []\<rparr>" for uni
  by (rule sqlite_suite [OF table_sql.laws]) simp_all

end
