(* ===== verification/Server_Program.thy ===== *)
theory Server_Program
  imports Server_Inv Conformance
begin

text \<open>
  The server program: its configuration (\<open>cmd/server/config.go\<close>) and how it is put together
  (\<open>cmd/server/main.go\<close>). The environment is a function from names to values (\<open>os.Getenv\<close>, the
  empty string when a variable is not set); \<open>time.ParseDuration\<close> is a parameter, for its results
  on fractions are floating-point roundings. The steps of the theory \<open>Server_Inv\<close> are what happens
  while the program serves; listening, waiting for a signal and shutting down are calls of the
  standard library, of which the program uses the outcome (\<open>listen_and_stop\<close>, \<open>server_main\<close>).
\<close>

section \<open>config.go\<close>

definition minSecretLength :: nat where
  "minSecretLength = 32"

record config =
  cg_addr :: string
  cg_dbPath :: string
  cg_secret :: string
  cg_tokenTTL :: int

definition hours :: "int \<Rightarrow> int" where
  "hours n = n * 3600 * 10 ^ 9"

text \<open>The messages of the logger are the second result; \<open>ParseDuration\<close> gives a text when it fails.\<close>

definition loadConfig ::
  "(string \<Rightarrow> string + int) \<Rightarrow> (string \<Rightarrow> string) \<Rightarrow> (goerr + config) \<times> string list" where
  "loadConfig ParseDuration Getenv =
     (let addr = Getenv ''ADDR'';
          log1 = (if addr = [] then [''No ADDR variable set. Defaulting to :8080''] else []);
          addr = (if addr = [] then '':8080'' else addr);
          dbPath = Getenv ''DB_PATH'';
          log2 = log1 @ (if dbPath = [] then [''No DB_PATH variable set. Defaulting to gotic.db''] else []);
          dbPath = (if dbPath = [] then ''gotic.db'' else dbPath);
          secret = Getenv ''JWT_SECRET''
      in if secret = [] then (Inl (Opaque (''JWT_SECRET shouldn'' @ [CHR 0x27] @ ''t be empty'')), log2)
         else if length secret < minSecretLength
         then (Inl (Opaque (''JWT_SECRET should be at least '' @ Itoa (int minSecretLength) @ '' bytes'')), log2)
         else
           (let rawTTL = Getenv ''TOKEN_TTL''
            in if rawTTL = []
               then (Inr \<lparr>cg_addr = addr, cg_dbPath = dbPath, cg_secret = secret, cg_tokenTTL = hours 24\<rparr>,
                     log2 @ [''No TOKEN_TTL is set. Defaulting to 24 hours''])
               else (case ParseDuration rawTTL of
                   Inl err \<Rightarrow>
                     (Inl (Opaque ''TOKEN_TTL should be a duration like 24h or 30m''), log2 @ [err])
                 | Inr ttl \<Rightarrow>
                     (Inr \<lparr>cg_addr = addr, cg_dbPath = dbPath, cg_secret = secret, cg_tokenTTL = ttl\<rparr>, log2))))"

section \<open>main.go\<close>

text \<open>The libraries the program links.\<close>

record Libs =
  lib_uni :: "string \<Rightarrow> string"
  lib_uuid :: "nat \<Rightarrow> string"
  lib_bcrypt :: BcryptLib
  lib_jwt :: JwtLib
  lib_ParseDuration :: "string \<Rightarrow> string + int"

text \<open>The wiring of \<open>run\<close> over an opened database.\<close>

definition sqlite_wiring ::
  "'d Driver \<Rightarrow> Libs \<Rightarrow> AuthProvider \<Rightarrow> string \<Rightarrow> 'd \<Rightarrow> 'd Ext" where
  "sqlite_wiring drv libs tokens path db =
     \<lparr>ext_uni = lib_uni libs, ext_uuid = lib_uuid libs, ext_bcrypt = lib_bcrypt libs,
      ext_jwt = lib_jwt libs, ext_auth = tokens,
      ext_store = sqlite_backend drv (lib_uni libs),
      ext_health = Some (\<lambda>d. map_option db_error (dr_Ping drv d)),
      ext_db = db,
      ext_reopen = (\<lambda>d. snd (sqlite_Open drv path (dr_Close drv d)))\<rparr>"

text \<open>
  \<open>run\<close> up to the point where it listens: the error it returns with (the database closed again, if
  it was open), or the wired server.
\<close>

definition server_run ::
  "'d Driver \<Rightarrow> Libs \<Rightarrow> (string \<Rightarrow> string) \<Rightarrow> 'd \<Rightarrow> (goerr + config \<times> 'd Ext) \<times> 'd" where
  "server_run drv libs Getenv d =
     (case loadConfig (lib_ParseDuration libs) Getenv of
        (Inl e, log) \<Rightarrow> (Inl e, d)
      | (Inr env, log) \<Rightarrow>
      case sqlite_Open drv (cg_dbPath env) d of
        (Some e, d1) \<Rightarrow> (Inl e, d1)
      | (None, d1) \<Rightarrow>
      case NewAuthProvider (cg_secret env) (cg_tokenTTL env) of
        Inl e \<Rightarrow> (Inl e, dr_Close drv d1)
      | Inr tokens \<Rightarrow> (Inr (env, sqlite_wiring drv libs tokens (cg_dbPath env) d1), d1))"

text \<open>
  Serving comes to an end by a signal or because \<open>ListenAndServe\<close> fails, which is logged by the
  goroutine that called it. Either way \<open>run\<close> returns what \<open>Shutdown\<close> does.
\<close>

datatype ending = Signalled | ListenFails goerr

datatype log_line = Info string | Error goerr

definition listen_and_stop :: "ending \<Rightarrow> goerr option \<Rightarrow> goerr option \<times> log_line list" where
  "listen_and_stop cause shutdown =
     (shutdown,
      [Info ''Server started'']
        @ (case cause of Signalled \<Rightarrow> [] | ListenFails err \<Rightarrow> [Error err])
        @ [Info ''Stopping a server...''])"

text \<open>The exit code of the program; \<open>meanwhile\<close> is what serving does to the database.\<close>

definition server_main ::
  "'d Driver \<Rightarrow> Libs \<Rightarrow> (string \<Rightarrow> string) \<Rightarrow> ending \<Rightarrow> goerr option \<Rightarrow> ('d \<Rightarrow> 'd) \<Rightarrow> 'd \<Rightarrow> nat \<times> 'd" where
  "server_main drv libs Getenv cause shutdown meanwhile d =
     (case server_run drv libs Getenv d of
        (Inl e, d1) \<Rightarrow> (1, d1)
      | (Inr (env, x), d1) \<Rightarrow>
          (case listen_and_stop cause shutdown of
             (Some e, log) \<Rightarrow> (1, dr_Close drv (meanwhile d1))
           | (None, log) \<Rightarrow> (0, dr_Close drv (meanwhile d1))))"

text \<open>
  The program fails when it cannot start or cannot shut down. That it could not listen (the port
  is taken) does not make it fail.
\<close>

lemma exit_code:
  "fst (server_main drv libs env cause shutdown meanwhile d) = 0 \<longleftrightarrow>
     (\<exists>c x. fst (server_run drv libs env d) = Inr (c, x)) \<and> shutdown = None"
  by (auto simp: server_main_def listen_and_stop_def split: sum.splits option.splits prod.splits)

lemma listen_failure_exits_zero:
  "fst (server_run drv libs env d) = Inr (c, x) \<Longrightarrow>
   fst (server_main drv libs env (ListenFails err) None meanwhile d) = 0"
  by (simp add: exit_code)

section \<open>Configuration\<close>

lemma loadConfig_Inr:
  assumes "fst (loadConfig pd env) = Inr c"
  shows "32 \<le> length (cg_secret c)" and "cg_secret c = env ''JWT_SECRET''"
    and "cg_addr c = (if env ''ADDR'' = [] then '':8080'' else env ''ADDR'')"
    and "cg_dbPath c = (if env ''DB_PATH'' = [] then ''gotic.db'' else env ''DB_PATH'')"
    and "if env ''TOKEN_TTL'' = [] then cg_tokenTTL c = hours 24
         else pd (env ''TOKEN_TTL'') = Inr (cg_tokenTTL c)"
  using assms
  by (auto simp: loadConfig_def Let_def minSecretLength_def split: if_splits sum.splits)

section \<open>The servers of the repository\<close>

text \<open>
  The server of \<open>cmd/server\<close>: SQLite stores over a driver that does what SQL says and works, on a
  database that was opened for the first time. UUIDs are assumed not to repeat.
\<close>

definition sqlite_server :: "'d Ext \<Rightarrow> bool" where
  "sqlite_server x \<longleftrightarrow>
     inj (ext_uuid x)
     \<and> (\<exists>drv healthy tables path.
          sqlite_laws drv healthy tables
          \<and> ext_store x = sqlite_backend drv (ext_uni x)
          \<and> ext_reopen x = (\<lambda>d. snd (sqlite_Open drv path (dr_Close drv d)))
          \<and> healthy (ext_db x) \<and> tables (ext_db x) = Some \<lparr>t_players = [], t_matches = []\<rparr>)"

context sqlite_driver
begin

lemma reopened:
  assumes "sql_ok healthy tables uni d" and "d' = snd (sqlite_Open drv path (dr_Close drv d))"
  shows "sql_ok healthy tables uni d'"
    and "bk_view (sqlite_backend drv uni) d' = bk_view (sqlite_backend drv uni) d"
    and "bk_stored (sqlite_backend drv uni) d' = bk_stored (sqlite_backend drv uni) d"
proof -
  obtain t where t: "healthy d" "tables d = Some t" "tables_ok uni t"
    using assms(1) by (rule sql_okE)
  note closed = close_ok [OF t(1)]
  have d': "healthy d'" "tables d' = Some t"
    using sqlite_Open_ok [of "dr_Close drv d" path] closed t(2) assms(2) by auto
  show "sql_ok healthy tables uni d'" by (rule sql_okI [OF d' t(3)])
  show "bk_view (sqlite_backend drv uni) d' = bk_view (sqlite_backend drv uni) d"
    "bk_stored (sqlite_backend drv uni) d' = bk_stored (sqlite_backend drv uni) d"
    using sql_view [OF d' t(3)] sql_view [OF t] by simp_all
qed

end

lemma sqlite_server_wired:
  assumes "sqlite_server x"
  obtains good listing where "inj (ext_uuid x)" and "wired x good listing"
    and "\<And>s. good s \<Longrightarrow> bk_view (ext_store x) (ext_reopen x s) = bk_view (ext_store x) s
        \<and> bk_stored (ext_store x) (ext_reopen x s) = bk_stored (ext_store x) s"
proof -
  obtain drv healthy tables path where x: "inj (ext_uuid x)" "sqlite_laws drv healthy tables"
    "ext_store x = sqlite_backend drv (ext_uni x)"
    "ext_reopen x = (\<lambda>d. snd (sqlite_Open drv path (dr_Close drv d)))"
    "healthy (ext_db x)" "tables (ext_db x) = Some \<lparr>t_players = [], t_matches = []\<rparr>"
    using assms unfolding sqlite_server_def by blast
  have D: "sqlite_driver drv healthy tables" by unfold_locales (rule x(2))
  let ?good = "sql_ok healthy tables (ext_uni x)" and ?listing = "sql_listing tables"
  have "wired x ?good ?listing"
  proof (intro wired.intro wired_axioms.intro)
    show "backend (ext_store x) (nameKey (ext_uni x)) ?good ?listing"
      unfolding x(3) by (rule sqlite_is_backend [OF x(2)])
  qed (use sqlite_driver.empty_tables [OF D x(5,6)] sqlite_driver.reopened [OF D _ refl] in \<open>simp_all add: x(3,4)\<close>)
  with x(1) sqlite_driver.reopened(2,3) [OF D _ refl] show thesis
    by (intro that [of ?good ?listing]) (simp_all add: x(3,4))
qed

text \<open>The server of the transport's tests: stores in memory, gone after a restart.\<close>

definition mem_wiring :: "Libs \<Rightarrow> AuthProvider \<Rightarrow> MemStores Ext" where
  "mem_wiring libs tokens =
     \<lparr>ext_uni = lib_uni libs, ext_uuid = lib_uuid libs, ext_bcrypt = lib_bcrypt libs,
      ext_jwt = lib_jwt libs, ext_auth = tokens, ext_store = mem_backend (lib_uni libs),
      ext_health = None, ext_db = NewStores, ext_reopen = (\<lambda>s. NewStores)\<rparr>"

interpretation mem_server:
  wired "mem_wiring libs tokens" "mem_ok (lib_uni libs)" mem_listing for libs tokens
proof (intro wired.intro wired_axioms.intro)
  show "backend (ext_store (mem_wiring libs tokens)) (nameKey (ext_uni (mem_wiring libs tokens)))
      (mem_ok (lib_uni libs)) mem_listing"
    using mem_stores.backend_axioms by (simp add: mem_wiring_def)
qed (simp_all add: mem_wiring_def NewStores_def NewPlayerStore_def NewMatchStore_def mem_ok_def
    mem_good_def mem_view_def mem_stored_def name_index_def)

text \<open>A run of the program on a new database that gets to serve requests is such a server.\<close>

lemma server_run_wired:
  assumes "sqlite_laws drv healthy tables" and "healthy d" and "tables d = None"
    and "inj (lib_uuid libs)" and "server_run drv libs env d = (Inr (c, x), d')"
  shows "sqlite_server x \<and> provider_ok (ext_auth x) \<and> ap_secret (ext_auth x) = env ''JWT_SECRET''
    \<and> ap_ttl (ext_auth x) = cg_tokenTTL c \<and> 32 \<le> length (ap_secret (ext_auth x))"
proof -
  have D: "sqlite_driver drv healthy tables" by unfold_locales (rule assms(1))
  obtain log where c: "loadConfig (lib_ParseDuration libs) env = (Inr c, log)"
    using assms(5) by (auto simp: server_run_def split: prod.splits sum.splits option.splits)
  obtain d1 where d1: "sqlite_Open drv (cg_dbPath c) d = (None, d1)" "healthy d1"
    "tables d1 = Some \<lparr>t_players = [], t_matches = []\<rparr>"
    using sqlite_driver.sqlite_Open_ok [OF D assms(2), of "cg_dbPath c"] assms(3) by auto
  obtain tokens where tokens: "NewAuthProvider (cg_secret c) (cg_tokenTTL c) = Inr tokens"
    "x = sqlite_wiring drv libs tokens (cg_dbPath c) d1"
    using assms(5) c d1(1) by (auto simp: server_run_def split: sum.splits)
  have "sqlite_server x"
    unfolding sqlite_server_def
    using assms(1,4) d1(2,3)
    by (intro conjI exI [of _ drv] exI [of _ healthy] exI [of _ tables] exI [of _ "cg_dbPath c"])
      (simp_all add: tokens(2) sqlite_wiring_def)
  moreover have "fst (loadConfig (lib_ParseDuration libs) env) = Inr c" by (simp add: c)
  note C = loadConfig_Inr [OF this]
  ultimately show ?thesis
    using NewAuthProvider_ok [OF tokens(1)] tokens C(1,2)
    by (auto simp: sqlite_wiring_def NewAuthProvider_Inr)
qed

end
