(* ===== verification/Sample_Run.thy ===== *)
theory Sample_Run
  imports Server_Program
begin

text \<open>
  A concrete server for the witnesses: libraries that satisfy what is assumed of them, the server
  of \<open>cmd/server\<close> over the tables of SQL, and a short run (two players register, join and play).
\<close>

section \<open>A token library\<close>

text \<open>
  A token is the text of its times, the length of the key, the key and the subject. That gives
  the key away, which no law forbids: the laws are about which tokens are accepted.
\<close>

definition enc_time :: "int \<Rightarrow> string" where
  "enc_time t = (if t < 0 then CHR ''-'' else CHR ''+'') # decimal (nat \<bar>t\<bar>)"

definition dec_time :: "string \<Rightarrow> int" where
  "dec_time s = (if take 1 s = ''-'' then - int (parse_decimal (drop 1 s)) else int (parse_decimal (drop 1 s)))"

definition cut_comma :: "string \<Rightarrow> string \<times> string" where
  "cut_comma s = (takeWhile (\<lambda>c. c \<noteq> CHR '','') s, drop 1 (dropWhile (\<lambda>c. c \<noteq> CHR '','') s))"

definition token_text :: "int \<Rightarrow> int \<Rightarrow> string \<Rightarrow> string \<Rightarrow> string" where
  "token_text iat exp key i =
     enc_time iat @ '','' @ enc_time exp @ '','' @ decimal (length key) @ '','' @ key @ i"

definition read_token :: "string \<Rightarrow> Token \<times> string" where
  "read_token s =
     (let (a, s1) = cut_comma s; (b, s2) = cut_comma s1; (n, s3) = cut_comma s2; k = parse_decimal n
      in (\<lparr>tk_Method = SigningMethodHMAC ''HS256'',
           tk_Claims = \<lparr>cl_Subject = Inr (drop k s3), cl_IssuedAt = Some (dec_time a),
                        cl_ExpiresAt = Some (dec_time b)\<rparr>\<rparr>, take k s3))"

definition demo_jwt :: JwtLib where
  "demo_jwt =
     \<lparr>jwt_SignedString = (\<lambda>t key.
        case (tk_Method t, cl_Subject (tk_Claims t), cl_IssuedAt (tk_Claims t), cl_ExpiresAt (tk_Claims t)) of
          (SigningMethodHMAC n, Inr i, Some iat, Some exp) \<Rightarrow>
            if n = ''HS256'' then Inr (token_text iat exp key i) else Inl (Opaque ''key is of invalid type'')
        | _ \<Rightarrow> Inl (Opaque ''key is of invalid type'')),
      jwt_Parse = (\<lambda>opts kf now s.
        case read_token s of (t, key) \<Rightarrow>
          (case kf t of
             Inl e \<Rightarrow> Inl e
           | Inr k \<Rightarrow>
               if k = key \<and> Alg (tk_Method t) \<in> set (po_ValidMethods opts)
                  \<and> claims_valid opts now (tk_Claims t)
               then Inr t else Inl (Opaque ''token is unverifiable''))),
      jwt_NewNumericDate = (\<lambda>t. t - t mod 10 ^ 9),
      jwt_signed = (\<lambda>s key t. read_token s = (t, key))\<rparr>"

lemma enc_time_no_comma: "CHR '','' \<notin> set (enc_time t)"
proof -
  have "CHR '','' \<notin> set (decimal n)" for n
    using decimal_digits [of n] by (auto simp: list_all_iff dest!: bspec digit_not_sign)
  then show ?thesis by (simp add: enc_time_def)
qed

lemma dec_enc_time [simp]: "dec_time (enc_time t) = t"
  by (simp add: dec_time_def enc_time_def)

lemma cut_comma_eq:
  assumes "CHR '','' \<notin> set w"
  shows "cut_comma (w @ CHR '','' # s) = (w, s)"
proof -
  have "c \<in> set w \<Longrightarrow> c \<noteq> CHR '',''" for c using assms by auto
  then show ?thesis by (simp add: cut_comma_def takeWhile_append2 dropWhile_append2)
qed

lemma read_token_text:
  "read_token (token_text iat exp key i) =
     (\<lparr>tk_Method = SigningMethodHMAC ''HS256'',
       tk_Claims = \<lparr>cl_Subject = Inr i, cl_IssuedAt = Some iat, cl_ExpiresAt = Some exp\<rparr>\<rparr>, key)"
proof -
  have "CHR '','' \<notin> set (decimal n)" for n
    using decimal_digits [of n] by (auto simp: list_all_iff dest!: bspec digit_not_sign)
  then show ?thesis
    by (simp add: read_token_def token_text_def cut_comma_eq enc_time_no_comma)
qed

lemma demo_jwt_laws: "jwt_laws demo_jwt"
proof -
  have signed: "\<exists>s. jwt_SignedString demo_jwt (hs256_token demo_jwt i a b) key = Inr s
      \<and> jwt_signed demo_jwt s key (hs256_token demo_jwt i a b)" for i a b key
    by (simp add: demo_jwt_def hs256_token_def read_token_text)
  have time: "jwt_NewNumericDate demo_jwt t \<le> t \<and> t < jwt_NewNumericDate demo_jwt t + 10 ^ 9" for t
    by (simp add: demo_jwt_def)
  have parse: "jwt_Parse demo_jwt opts kf now s = Inr t \<longleftrightarrow>
      (\<exists>key. kf t = Inr key \<and> jwt_signed demo_jwt s key t)
      \<and> Alg (tk_Method t) \<in> set (po_ValidMethods opts) \<and> claims_valid opts now (tk_Claims t)"
    for opts kf now s t
    by (cases "read_token s") (auto simp: demo_jwt_def split: sum.splits)
  have det: "jwt_signed demo_jwt s key t \<Longrightarrow> jwt_signed demo_jwt s key' t' \<Longrightarrow> t = t'" for s key key' t t'
    by (simp add: demo_jwt_def)
  show ?thesis
    unfolding jwt_laws_def using signed time parse det by blast
qed

section \<open>The parameters\<close>

definition demo_bcrypt :: BcryptLib where
  "demo_bcrypt =
     \<lparr>bc_Generate = (\<lambda>n pw. if length pw \<le> 72 then Inr (CHR ''#'' # pw) else Inl (Opaque ''password too long'')),
      bc_Compare = (\<lambda>h pw. if h = CHR ''#'' # pw then None else Some (Opaque ''mismatch''))\<rparr>"

lemma demo_bcrypt_laws: "bcrypt_laws demo_bcrypt"
  by (simp add: bcrypt_laws_def demo_bcrypt_def split: if_splits)

definition demo_libs :: Libs where
  "demo_libs =
     \<lparr>lib_uni = (\<lambda>s. s), lib_uuid = decimal, lib_bcrypt = demo_bcrypt, lib_jwt = demo_jwt,
      lib_ParseDuration = (\<lambda>s. if s = ''1h'' then Inr (hours 1) else Inl ''time: invalid duration'')\<rparr>"

definition demo_secret :: string where
  "demo_secret = ''0123456789abcdef0123456789abcdef''"

definition demo_auth :: AuthProvider where
  "demo_auth =
     \<lparr>ap_secret = demo_secret, ap_encAlg = SigningMethodHMAC ''HS256'', ap_ttl = hours 24\<rparr>"

definition demo :: "Tables option Ext" where
  "demo = sqlite_wiring table_driver demo_libs demo_auth ''gotic.db'' (Some \<lparr>t_players = [], t_matches = []\<rparr>)"

lemma demo_sel [simp]:
  "ext_uni demo = (\<lambda>s. s)" "ext_uuid demo = decimal" "ext_bcrypt demo = demo_bcrypt"
  "ext_jwt demo = demo_jwt" "ext_auth demo = demo_auth"
  "ext_store demo = sqlite_backend table_driver (\<lambda>s. s)"
  "ext_db demo = Some \<lparr>t_players = [], t_matches = []\<rparr>"
  by (simp_all add: demo_def sqlite_wiring_def demo_libs_def)

lemma demo_uuid: "inj (ext_uuid demo)"
  by (rule inj_on_inverseI [where g = parse_decimal]) simp

lemma demo_server: "sqlite_server demo"
proof -
  have "sqlite_laws table_driver (\<lambda>d. True) (\<lambda>d. d)" by (rule table_sql.laws)
  then show ?thesis
    unfolding sqlite_server_def
    by (intro conjI demo_uuid exI [of _ table_driver] exI [of _ "\<lambda>d. True"] exI [of _ "\<lambda>d. d"]
        exI [of _ "''gotic.db''"]) (simp_all add: demo_def sqlite_wiring_def demo_libs_def)
qed

definition demo_good :: "Tables option \<Rightarrow> bool" where
  "demo_good = sql_ok (\<lambda>d. True) (\<lambda>d. d) (\<lambda>s. s)"

interpretation demo_wired: wired demo demo_good "sql_listing (\<lambda>d. d)"
proof (intro wired.intro wired_axioms.intro)
  show "backend (ext_store demo) (nameKey (ext_uni demo)) demo_good (sql_listing (\<lambda>d. d))"
    using table_stores.backend_axioms by (simp add: demo_good_def)
qed (use table_sql.empty_tables table_sql.reopened [OF _ refl] in
    \<open>simp_all add: demo_good_def demo_def sqlite_wiring_def demo_libs_def\<close>)

definition demo_token :: "PlayerID \<Rightarrow> string" where
  "demo_token i = token_text 0 (hours 24) demo_secret i"

definition demo_bearer :: "PlayerID \<Rightarrow> string" where
  "demo_bearer i = ''Bearer '' @ demo_token i"

lemma demo_issue: "AuthProvider_Issue demo_jwt demo_auth i 0 = Inr (demo_token i)"
  by (simp add: AuthProvider_Issue_def demo_jwt_def demo_auth_def demo_token_def hours_def)

lemma demo_provider: "provider_ok demo_auth"
  by (simp add: provider_ok_def demo_auth_def demo_secret_def)

lemma demo_verify: "i \<noteq> [] \<Longrightarrow> ascii i \<Longrightarrow> AuthProvider_Verify demo_jwt demo_auth (demo_token i) 0 = Inr i"
  using Issue_Verify [OF demo_jwt_laws demo_provider _ demo_issue, of i 0 i]
  by (simp add: demo_jwt_def demo_auth_def hours_def)

lemma demo_libraries: "libraries_ok demo_jwt demo_auth demo_bcrypt decimal"
proof -
  have "ascii (decimal n)" for n
    using decimal_digits [of n] by (auto simp: ascii_def list_all_iff is_digit_def)
  then show ?thesis
    using demo_jwt_laws demo_provider demo_bcrypt_laws by (simp add: libraries_ok_def)
qed

section \<open>Serving requests\<close>

definition serve :: "'s Ext \<Rightarrow> Request list \<Rightarrow> 's World Server \<Rightarrow> 's World Server" where
  "serve x rs s = fold (\<lambda>r s. snd (handle (srv_deps x) r s)) rs s"

lemma serve_reachable: "reachable_server x s \<Longrightarrow> reachable_server x (serve x rs s)"
  unfolding serve_def
  by (induction rs arbitrary: s) (simp_all add: reachable_server.step [OF _ server_step.request])

abbreviation post :: "string \<Rightarrow> string \<Rightarrow> credentials option \<Rightarrow> int option \<Rightarrow> Request" where
  "post path auth creds cell \<equiv>
     \<lparr>rq_Method = ''POST'', rq_Path = path, rq_Authorization = auth, rq_Limit = [],
      rq_Credentials = creds, rq_Cell = cell\<rparr>"

definition register_both :: "Request list" where
  "register_both =
     [post ''/register'' [] (Some \<lparr>cr_Name = '' Ann '', cr_Password = ''password''\<rparr>) None,
      post ''/register'' [] (Some \<lparr>cr_Name = ''bob'', cr_Password = ''passw0rd''\<rparr>) None]"

definition join_both :: "Request list" where
  "join_both = [post ''/matchmaking/join'' (demo_bearer ''1'') None None,
                post ''/matchmaking/join'' (demo_bearer ''3'') None None]"

definition registered :: "Tables option World Server" where
  "registered = serve demo register_both (new_server demo 0)"

definition playing :: "Tables option World Server" where
  "playing = serve demo join_both registered"

lemma registered_reachable: "reachable_server demo registered"
  unfolding registered_def by (rule serve_reachable [OF reachable_server.boot])

lemma playing_reachable: "reachable_server demo playing"
  unfolding playing_def by (rule serve_reachable [OF registered_reachable])


section \<open>The states of the run\<close>

text \<open>A token starts with a sign and ends with the subject, so there is nothing to trim.\<close>

lemma demo_token_trimmed:
  "TrimSpace (demo_token ''1'') = demo_token ''1''" "TrimSpace (demo_token ''3'') = demo_token ''3''"
  "demo_token i \<noteq> []"
proof -
  have sign: "\<not> starts_with_any utf8_spaces (CHR ''+'' # s)" for s
    by (simp add: starts_with_any_def utf8_spaces_def)
  have digit: "\<not> starts_with_any (map rev utf8_spaces) (c # s)" if "c \<in> {CHR ''1'', CHR ''3''}" for c s
    using that by (auto simp: starts_with_any_def utf8_spaces_def)
  obtain s where s: "demo_token i = CHR ''+'' # s @ i" for i
    by (simp add: demo_token_def token_text_def enc_time_def hours_def)
  show "TrimSpace (demo_token ''1'') = demo_token ''1''" "TrimSpace (demo_token ''3'') = demo_token ''3''"
    by (rule TrimSpace_fixed; simp add: s sign digit)+
  show "demo_token i \<noteq> []" by (simp add: s)
qed

text \<open>The string functions are evaluated once, here; the rest is rewriting.\<close>

lemma sample_strings:
  "NormalizeName '' Ann '' = Inr ''Ann''" "NormalizeName ''Ann'' = Inr ''Ann''"
  "NormalizeName ''bob'' = Inr ''bob''"
  "nameKey u ''Ann'' = ''ann''" "nameKey u ''bob'' = ''bob''"
  "decimal (Suc 0) = ''1''" "decimal (Suc (Suc (Suc 0))) = ''3''" "decimal 4 = ''4''"
  by code_simp+

definition ann :: Player where
  "ann = \<lparr>p_ID = ''1'', p_Name = ''Ann'', p_PasswordHash = ''#password'', p_Stats = zero_stats\<rparr>"

definition bob :: Player where
  "bob = \<lparr>p_ID = ''3'', p_Name = ''bob'', p_PasswordHash = ''#passw0rd'', p_Stats = zero_stats\<rparr>"

definition two_players :: Tables where
  "two_players = \<lparr>t_players = [player_row (\<lambda>s. s) ann, player_row (\<lambda>s. s) bob], t_matches = []\<rparr>"

definition two_players_world :: "Tables option World" where
  "two_players_world =
     \<lparr>w_store = Some two_players, w_hub = NewHub, w_entropy = 4, w_now = 0, w_log = []\<rparr>"

lemma NewPlayer_sample:
  "NewPlayer i ''Ann'' h = Inr \<lparr>p_ID = i, p_Name = ''Ann'', p_PasswordHash = h, p_Stats = zero_stats\<rparr>"
  "NewPlayer i ''bob'' h = Inr \<lparr>p_ID = i, p_Name = ''bob'', p_PasswordHash = h, p_Stats = zero_stats\<rparr>"
  by (simp_all add: NewPlayer_def sample_strings)

text \<open>The operations of the store on the driver of tables.\<close>

lemmas table_ops =
  sqlite_backend_def sql_ByName_def sql_ByID_def sql_Create_def sql_Save_def sql_SaveMatch_def
  sql_MatchByID_def queryOne_def QueryRow_Scan_def table_driver_def

lemma sample_bcrypt:
  "HashProvider_Hash demo_bcrypt n ''password'' = Inr ''#password''"
  "HashProvider_Hash demo_bcrypt n ''passw0rd'' = Inr ''#passw0rd''"
  by (simp_all add: HashProvider_Hash_def demo_bcrypt_def)

lemma registered_eq:
  "registered = \<lparr>sv_mm = NewMatchmaking, sv_games = NewGames, sv_world = two_players_world\<rparr>"
  by (simp add: registered_def serve_def register_both_def handle_def route_of_def patterns_def
      method_matches_def new_server_def new_world_def handleRegister_def decode_body_def srv_defs
      Auth_Register_def sample_strings table_ops sample_bcrypt demo_issue player_row_def
      Let_def errors_Is.simps MinPasswordLength_def MaxPasswordLength_def NewPlayer_sample
      ann_def bob_def two_players_world_def two_players_def zero_stats_def)

definition first_match :: activeMatch where
  "first_match = started ''4'' ann bob ''1'' ''3''"

definition playing_games :: Games where
  "playing_games = \<lparr>active = [''4'' \<mapsto> first_match], byPlayer = [''1'' \<mapsto> ''4'', ''3'' \<mapsto> ''4'']\<rparr>"

definition playing_world :: "Tables option World" where
  "playing_world =
     two_players_world\<lparr>w_entropy := 5,
       w_store := Some (two_players\<lparr>t_matches := [match_row (am_record first_match)]\<rparr>)\<rparr>"

lemma sample_players:
  "rec_ByID (d_players (srv_games demo)) ''1'' two_players_world = Inr ann"
  "rec_ByID (d_players (srv_games demo)) ''3'' two_players_world = Inr bob"
  by (simp_all add: srv_defs two_players_world_def two_players_def table_ops)
    (simp_all add: ann_def bob_def)

lemma sample_tokens:
  assumes "w_now w = 0"
  shows "playerOf (srv_deps demo) (post p (demo_bearer ''1'') c m) w = Inr ''1''"
    "playerOf (srv_deps demo) (post p (demo_bearer ''3'') c m) w = Inr ''3''"
  using assms by (simp_all add: playerOf_def CutPrefix_def bearer_def demo_bearer_def demo_token_trimmed
      Auth_Authenticate_def srv_defs demo_verify ascii_def)

lemma sample_newid:
  "g_NewID (d_ids (srv_games demo)) two_players_world = (''4'', two_players_world\<lparr>w_entropy := 5\<rparr>)"
  by (simp add: srv_defs two_players_world_def sample_strings)

lemma sample_start:
  "Games_Start (srv_games demo) ''1'' ''3'' (NewGames, two_players_world) =
     (None, playing_games, playing_world)"
  using Start_ok [OF sample_players sample_newid, of NewGames]
  by (simp add: NewGames_def Games_InMatch_def first_match_def Games_dispatch_def am_events_def
        Games_persist_def Let_def srv_defs table_ops two_players_world_def Hub_Notify_def
        NewHub_def playing_games_def playing_world_def two_players_def)

lemma sample_now: "w_now two_players_world = 0"
  by (simp add: two_players_world_def)

lemma playing_eq:
  "playing = \<lparr>sv_mm = NewMatchmaking, sv_games = playing_games, sv_world = playing_world\<rparr>"
proof -
  have deps: "dp_games (srv_deps demo) = srv_games demo" by (simp add: srv_deps_def)
  show ?thesis
    by (simp add: playing_def registered_eq serve_def join_both_def handle_def route_of_def
        patterns_def method_matches_def authenticated_def sample_tokens sample_now handleJoin_def
        server_join_def Matchmaking_Join_def NewMatchmaking_def slices_Contains_def Let_def
        slices_Delete_def sample_start [unfolded NewGames_def] deps NewGames_def Games_InMatch_def)
qed

section \<open>Later in the match\<close>

text \<open>The same server after the moves \<open>hs\<close> of the first match, nobody being online.\<close>

definition mid_match :: "nat list \<Rightarrow> activeMatch" where
  "mid_match hs = first_match\<lparr>am_match := match_of ''4'' ''1'' ''3'' hs\<rparr>"

definition mid_games :: "nat list \<Rightarrow> Games" where
  "mid_games hs = playing_games\<lparr>active := [''4'' \<mapsto> mid_match hs]\<rparr>"

definition mid_world :: "nat list \<Rightarrow> Tables option World" where
  "mid_world hs =
     playing_world\<lparr>w_store := Some (two_players\<lparr>t_matches := [match_row (am_record (mid_match hs))]\<rparr>)\<rparr>"

definition mid_server :: "nat list \<Rightarrow> Tables option World Server" where
  "mid_server hs = \<lparr>sv_mm = NewMatchmaking, sv_games = mid_games hs, sv_world = mid_world hs\<rparr>"

lemma first_match_sel [simp]:
  "am_match first_match = match_of ''4'' ''1'' ''3'' []" "am_X first_match = ''1''"
  "am_O first_match = ''3''"
  by (simp_all add: first_match_def)

lemma mid_match_sel [simp]:
  "am_match (mid_match hs) = match_of ''4'' ''1'' ''3'' hs" "am_X (mid_match hs) = ''1''"
  "am_O (mid_match hs) = ''3''" "mid_match [] = first_match"
  by (simp_all add: mid_match_def am_X_def am_O_def first_match_def started_def)

lemma playing_lookup [simp]:
  "Games_lookup playing_games ''1'' = Some first_match"
  "Games_lookup playing_games ''3'' = Some first_match"
  "byPlayer playing_games ''1'' = Some ''4''" "byPlayer playing_games ''3'' = Some ''4''"
  by (simp_all add: playing_games_def Games_lookup_def)

lemma mid_lookup [simp]:
  "Games_lookup (mid_games hs) ''1'' = Some (mid_match hs)"
  "Games_lookup (mid_games hs) ''3'' = Some (mid_match hs)"
  "byPlayer (mid_games hs) = byPlayer playing_games" "active (mid_games hs) = [''4'' \<mapsto> mid_match hs]"
  by (simp_all add: mid_games_def playing_games_def Games_lookup_def)

lemma mid_update: "(mid_games hs)\<lparr>active := [''4'' \<mapsto> mid_match hs']\<rparr> = mid_games hs'"
  by (simp add: mid_games_def)

lemma mid_server_sel [simp]:
  "sv_mm (mid_server hs) = NewMatchmaking" "sv_games (mid_server hs) = mid_games hs"
  "sv_world (mid_server hs) = mid_world hs"
  by (simp_all add: mid_server_def)

lemma mid_world_sel [simp]:
  "w_now (mid_world hs) = 0" "w_hub (mid_world hs) = NewHub" "w_log (mid_world hs) = []"
  "w_store (mid_world hs) = Some (two_players\<lparr>t_matches := [match_row (am_record (mid_match hs))]\<rparr>)"
  by (simp_all add: mid_world_def playing_world_def two_players_world_def)

lemma mid_start: "mid_server [] = playing"
  by (simp add: playing_eq mid_server_def mid_games_def mid_world_def playing_games_def
      playing_world_def)

text \<open>An accepted move that does not end the match leads from one such state to the next.\<close>

lemma sample_save:
  assumes "w_store w = Some (two_players\<lparr>t_matches := [match_row r]\<rparr>)"
    and "r_ID r' = r_ID r" and "r_X r' = r_X r" and "r_O r' = r_O r"
  shows "Games_persist (srv_games demo) r' w =
    w\<lparr>w_store := Some (two_players\<lparr>t_matches := [match_row r']\<rparr>)\<rparr>"
  using assms by (simp add: Games_persist_def srv_defs table_ops match_row_def)

lemma offline_dispatch:
  "h_clients (w_hub w) = [] \<Longrightarrow> Games_dispatch (srv_games x) evs w = w"
  by (induction evs) (simp_all add: Games_dispatch_def srv_games_def srv_notifier_def Hub_Notify_def)

lemma mid_after:
  "after_move (mid_match hs) (match_of ''4'' ''1'' ''3'' hs') = mid_match hs'"
  "after_move first_match (match_of ''4'' ''1'' ''3'' hs') = mid_match hs'"
  by (simp_all add: mid_match_def)

text \<open>Reading the record of the match back.\<close>

lemma sample_MatchByID:
  assumes "w_store w = Some (two_players\<lparr>t_matches := [match_row r]\<rparr>)"
    and "storable_record r" and "r_ID r = i"
  shows "srv_MatchByID demo i w = Inr (Some r)"
proof -
  let ?t = "two_players\<lparr>t_matches := [match_row r]\<rparr>"
  note rec = record_of_match_row [OF assms(2)]
  have "matches_ok (t_matches ?t)" using rec by (simp add: matches_ok_def)
  from table_sql.sql_MatchByID_eq [OF _ _ this, of "w_store w" i] assms(1)
  have "srv_MatchByID demo i w = Inr (records_in ?t i)" by (simp add: srv_MatchByID_def)
  with rec assms(3) show ?thesis by (simp add: records_in_def)
qed

lemma mid_move:
  assumes "legal hs" and "move_error ''1'' ''3'' hs p c = None"
    and "\<not> Status_IsFinished (status_of (hs @ [nat c]))"
  shows "server_move (srv_deps demo) p c (mid_server hs) =
    (Inr (am_stateFor (mid_match (hs @ [nat c])) p), mid_server (hs @ [nat c]))"
proof -
  have p: "p = ''1'' \<or> p = ''3''"
    using assms(2) by (auto simp: move_error_None mover_of_def split: if_splits)
  have apply_ok: "Match_ApplyMove (am_match (mid_match hs)) p c =
      (None, match_of ''4'' ''1'' ''3'' (hs @ [nat c]))"
    using ApplyMove_match_of [of "''1''" "''3''" hs "''4''" p c] assms(1,2) by simp
  have save: "Games_persist (srv_games demo) (am_record (mid_match (hs @ [nat c]))) (mid_world hs) =
      mid_world (hs @ [nat c])"
    by (subst sample_save [where r = "am_record (mid_match hs)"]) (simp_all add: mid_world_def)
  have "Games_Move (srv_games demo) p c (mid_games hs, mid_world hs) =
      (Inr (am_stateFor (mid_match (hs @ [nat c])) p), mid_games (hs @ [nat c]), mid_world (hs @ [nat c]))"
    using p Move_running [where am = "mid_match hs" and mid = "''4''" and d = "srv_games demo"
        and g = "mid_games hs" and w = "mid_world hs", OF _ _ apply_ok] assms(3)
    by (auto simp: mid_after move_effect_def save offline_dispatch NewHub_def mid_update)
  then show ?thesis by (simp add: server_move_def srv_deps_def mid_server_def)
qed

lemma mid_step:
  assumes "reachable_server demo (mid_server hs)" and "legal hs"
    and "move_error ''1'' ''3'' hs p c = None" and "\<not> Status_IsFinished (status_of (hs @ [nat c]))"
  shows "reachable_server demo (mid_server (hs @ [nat c]))"
proof -
  let ?r = "post ''/match/move'' (demo_bearer p) None (Some c)"
  have p: "p = ''1'' \<or> p = ''3''"
    using assms(3) by (auto simp: move_error_None mover_of_def split: if_splits)
  have "route_of ?r = Inr Move" by (simp add: route_of_def patterns_def method_matches_def)
  moreover have "playerOf (srv_deps demo) ?r (mid_world hs) = Inr p"
    using p sample_tokens [of "mid_world hs"] by auto
  ultimately have "snd (handle (srv_deps demo) ?r (mid_server hs)) = mid_server (hs @ [nat c])"
    using mid_move [OF assms(2-4)]
    by (simp add: handle_def authenticated_def handleMove_def decode_body_def)
  with reachable_server.step [OF assms(1) server_step.request, of ?r] show ?thesis by simp
qed

text \<open>One move before \<open>1\<close> completes the top row.\<close>

definition late_server :: "Tables option World Server" where
  "late_server = mid_server [0, 4, 1, 8]"

lemma late_reachable: "reachable_server demo late_server"
proof -
  have ok: "legal []" "legal [0]" "legal [0, 4]" "legal [0, 4, 1]"
    "\<not> Status_IsFinished (status_of [0])" "\<not> Status_IsFinished (status_of [0, 4])"
    "\<not> Status_IsFinished (status_of [0, 4, 1])" "\<not> Status_IsFinished (status_of [0, 4, 1, 8])"
    "move_error ''1'' ''3'' [] ''1'' 0 = None" "move_error ''1'' ''3'' [0] ''3'' 4 = None"
    "move_error ''1'' ''3'' [0, 4] ''1'' 1 = None" "move_error ''1'' ''3'' [0, 4, 1] ''3'' 8 = None"
    by code_simp+
  have "reachable_server demo (mid_server [])" using playing_reachable by (simp add: mid_start)
  from mid_step [OF this ok(1,9)] ok(5) have "reachable_server demo (mid_server [0])" by simp
  from mid_step [OF this ok(2,10)] ok(6) have "reachable_server demo (mid_server [0, 4])" by simp
  from mid_step [OF this ok(3,11)] ok(7) have "reachable_server demo (mid_server [0, 4, 1])" by simp
  from mid_step [OF this ok(4,12)] ok(8) show ?thesis by (simp add: late_server_def)
qed

lemma last_move:
  "Match_ApplyMove (match_of ''4'' ''1'' ''3'' [0, 4, 1, 8]) ''1'' 2 =
     (None, match_of ''4'' ''1'' ''3'' [0, 4, 1, 8, 2])"
  "Status_IsFinished (m_status (match_of ''4'' ''1'' ''3'' [0, 4, 1, 8, 2]))"
  "status_of [0, 4, 1, 8] = StatusInProgress"
  by (code_simp, code_simp, code_simp)

lemma late_server_sel [simp]:
  "sv_mm late_server = NewMatchmaking" "sv_games late_server = mid_games [0, 4, 1, 8]"
  "sv_world late_server = mid_world [0, 4, 1, 8]"
  by (simp_all add: late_server_def)

text \<open>Who is registered in these states.\<close>

lemma sample_row:
  "scanPlayer (player_columns (player_row u p)) = Inr p"
  by (simp add: scanPlayer_def player_columns_def player_row_def)

lemma sample_view:
  assumes "w_store w = Some (two_players\<lparr>t_matches := ms\<rparr>)"
  shows "srv_view demo w = [''1'' \<mapsto> ann, ''3'' \<mapsto> bob]"
  using assms
  by (auto simp: srv_view_def bk_view_def table_ops two_players_def fun_eq_iff sample_row)
    (simp_all add: player_row_def ann_def bob_def)

lemma sample_views:
  "srv_view demo two_players_world = [''1'' \<mapsto> ann, ''3'' \<mapsto> bob]"
  "srv_view demo (mid_world hs) = [''1'' \<mapsto> ann, ''3'' \<mapsto> bob]"
proof -
  show "srv_view demo two_players_world = [''1'' \<mapsto> ann, ''3'' \<mapsto> bob]"
    by (rule sample_view [of _ "[]"]) (simp add: two_players_world_def two_players_def)
  show "srv_view demo (mid_world hs) = [''1'' \<mapsto> ann, ''3'' \<mapsto> bob]"
    by (rule sample_view [OF mid_world_sel(4)])
qed

section \<open>A socket\<close>

definition ws_request :: Request where
  "ws_request = (post ''/ws'' (demo_bearer ''1'') None None)\<lparr>rq_Method := ''GET''\<rparr>"

lemma ws_token: "w_now w = 0 \<Longrightarrow> playerOf (srv_deps demo) ws_request w = Inr ''1''"
  by (simp add: ws_request_def playerOf_def CutPrefix_def bearer_def demo_bearer_def demo_token_trimmed
      Auth_Authenticate_def srv_defs demo_verify ascii_def)

text \<open>Ann opens a socket during her match.\<close>

definition one_socket :: "Tables option World Server" where
  "one_socket = snd (handleWS demo ws_request 0 playing)"

lemma one_socket_sel:
  "w_hub (sv_world one_socket) = Hub_connect 0 ''1'' NewHub" "sv_games one_socket = playing_games"
  "w_now (sv_world one_socket) = 0"
  by (simp_all add: one_socket_def handleWS_def ws_token playing_eq playing_world_def two_players_world_def)

lemma one_socket_reachable: "reachable_server demo one_socket"
  unfolding one_socket_def
  by (rule reachable_server.step [OF playing_reachable server_step.socket])
    (simp add: playing_eq playing_world_def two_players_world_def NewHub_def)

end
