(* ===== verification/Server_Props.thy ===== *)
theory Server_Props
  imports Server_Program
begin

text \<open>
  The use cases on the wired server, whatever its store is: lemmas of the locale \<open>wired\<close>, from
  which the properties of the server over SQLite follow by \<open>reachable_sqlite\<close>.
\<close>

lemma reachable_sqlite:
  assumes "sqlite_server x" and "reachable_server x s"
  obtains good listing where "inj (ext_uuid x)" and "wired x good listing"
    and "queue_inv (\<lambda>p. Games_InMatch p (sv_games s)) (sv_mm s)"
    and "world_inv x good (sv_games s) (sv_world s)"
proof -
  obtain good listing where W: "inj (ext_uuid x)" "wired x good listing"
    using sqlite_server_wired [OF assms(1)] by metis
  note S = server_invD [OF wired.reachable_server_inv [OF W(2,1) assms(2)]]
  show thesis by (rule that [OF W S])
qed

definition name_taken :: "'s Ext \<Rightarrow> string \<Rightarrow> 's World \<Rightarrow> bool" where
  "name_taken x n w \<longleftrightarrow>
     (\<exists>q \<in> ran (srv_view x w). nameKey (ext_uni x) (p_Name q) = nameKey (ext_uni x) n)"

context wired
begin

section \<open>Moves\<close>

lemma final_move:
  assumes "world_inv x good g w" and "Games_lookup g p = Some am"
    and "Match_ApplyMove (am_match am) p c = (None, m)" and "Status_IsFinished (m_status m)"
    and "Games_Move (srv_games x) p c (g, w) = (r, g', w')"
  shows "r = Inr (am_stateFor (am\<lparr>am_match := m\<rparr>) p)
    \<and> (\<forall>q. Games_InMatch q g' \<longleftrightarrow> Games_InMatch q g \<and> q \<noteq> am_X am \<and> q \<noteq> am_O am)
    \<and> (\<forall>q. srv_view x w' q =
         (if q = am_X am \<or> q = am_O am
          then map_option (\<lambda>pl. Player_Record pl (Match_OutcomeFor m q)) (srv_view x w q)
          else srv_view x w q))
    \<and> srv_MatchByID x (m_id m) w' = Inr (Some
         \<lparr>r_ID = m_id m, r_X = am_X am, r_O = am_O am, r_Status = m_status m, r_Moves = m_moves m\<rparr>)"
proof -
  note I = world_invD [OF assms(1)]
  obtain mid where mid: "byPlayer g p = Some mid" "active g mid = Some am" "live mid am"
    using lookup_Some [OF I(1) assms(2)] .
  have move: "r = Inr (am_stateFor (after_move am m) p)" "g' = Games_forget g am"
    "w' = move_effect (srv_games x) (after_move am m) EventMatchEnded (am_results (after_move am m)) w"
    using Move_finishing [OF I(1) assms(2-4), of "srv_games x" w] assms(5) by simp_all
  have players: "am_X (after_move am m) = am_X am" "am_O (after_move am m) = am_O am" "m_id m = mid"
    using after_move_players [OF assms(3)] live_id [OF mid(3)] by simp_all
  have "am_X am \<noteq> am_O am" using live_players [OF mid(3)] by (simp add: two_players_def)
  with server_games.move_effect_results [OF I(2) after_move_storable [OF mid(3) assms(3)], of EventMatchEnded]
    players
  have view: "srv_view x w' = (\<lambda>q. if q = am_X am \<or> q = am_O am
      then map_option (\<lambda>pl. Player_Record pl (Match_OutcomeFor m q)) (srv_view x w q) else srv_view x w q)"
    and good: "srv_good good w'"
    by (simp_all add: move cong: if_cong)
  have rec: "am_record (after_move am m) =
      \<lparr>r_ID = m_id m, r_X = am_X am, r_O = am_O am, r_Status = m_status m, r_Moves = m_moves m\<rparr>"
    using players by (simp add: MatchRecord.equality)
  have "srv_stored x w' mid = Some (am_record (after_move am m))"
    using server_games.after_move_stored [OF I(2,4) mid(2,3) assms(3)] by (simp add: move)
  with server_games.mst.ByID_stored [OF good, of mid]
  have "srv_MatchByID x mid w' = Inr (Some (am_record (after_move am m)))" by simp
  with view move(1) rec players(3) show ?thesis
    using forget_InMatch [OF I(1) mid(1,2)] same_game_participants [OF I(1) mid(1,2)]
    by (simp add: move(2))
qed

section \<open>Starting, joining and abandoning\<close>

lemma Start_iff:
  assumes "srv_good good w" and "Games_Start (srv_games x) px po (g, w) = (e, g', w')"
  shows "(e = None \<longleftrightarrow> srv_view x w px \<noteq> None \<and> srv_view x w po \<noteq> None \<and> px \<noteq> po
        \<and> \<not> Games_InMatch px g \<and> \<not> Games_InMatch po g)
    \<and> (if e = None
       then \<exists>mid am. Games_lookup g' px = Some am \<and> Games_lookup g' po = Some am
           \<and> am_match am = match_of mid px po [] \<and> active g' = (active g)(mid \<mapsto> am)
           \<and> mid = ext_uuid x (w_entropy w)
       else g' = g \<and> srv_view x w' = srv_view x w \<and> srv_stored x w' = srv_stored x w)"
proof (cases "srv_view x w px \<noteq> None \<and> srv_view x w po \<noteq> None \<and> px \<noteq> po
    \<and> \<not> Games_InMatch px g \<and> \<not> Games_InMatch po g")
  case True
  then obtain xp op where players:
    "rec_ByID (d_players (srv_games x)) px w = Inr xp" "rec_ByID (d_players (srv_games x)) po w = Inr op"
    using server_games.rec.ByID_view [OF assms(1)] by fastforce
  have newid: "g_NewID (d_ids (srv_games x)) w =
      (ext_uuid x (w_entropy w), w\<lparr>w_entropy := Suc (w_entropy w)\<rparr>)"
    by (simp add: srv_defs)
  show ?thesis
    using Start_ok [OF players newid] True assms(2) by (auto simp: Games_lookup_def)
next
  case False
  have "e \<noteq> None"
  proof
    assume "e = None"
    with assms False Start_registered [OF assms(1)] show False
      by (auto elim: Start_success)
  qed
  moreover from this have "g' = g" using assms(2) by (cases e) (auto dest: Start_error_frame)
  moreover have "srv_stored x w' = srv_stored x w"
    using assms(2) \<open>e \<noteq> None\<close>
    by (auto simp: Games_Start_def Let_def srv_defs srv_view_defs split: sum.splits if_splits)
  ultimately show ?thesis
    using False server_games.Start_statistics [OF assms] by auto
qed

lemma Abandon_exact:
  assumes "games_inv g" and "srv_good good w" and "Games_Abandon (srv_games x) p (g, w) = (g', w')"
  shows "(\<forall>q. Games_lookup g' q = (if same_game g p q then None else Games_lookup g q))
    \<and> w_store w' = w_store w
    \<and> (case Games_lookup g p of
         None \<Rightarrow> g' = g \<and> w' = w
       | Some am \<Rightarrow>
           (let q = if p = am_X am then am_O am else am_X am
            in w' = w\<lparr>w_hub := Hub_Notify q \<lparr>ev_Type = EventOpponentLeft,
                 ev_MatchID = m_id (am_match am), ev_State = am_stateFor am q\<rparr> (w_hub w)\<rparr>))"
proof -
  have "case Games_lookup g p of
      None \<Rightarrow> g' = g \<and> w' = w
    | Some am \<Rightarrow>
        (let q = if p = am_X am then am_O am else am_X am
         in w' = w\<lparr>w_hub := Hub_Notify q \<lparr>ev_Type = EventOpponentLeft,
              ev_MatchID = m_id (am_match am), ev_State = am_stateFor am q\<rparr> (w_hub w)\<rparr>)"
  proof (cases "Games_lookup g p")
    case None
    with assms(3) show ?thesis by (simp add: Abandon_None)
  next
    case (Some am)
    obtain mid where "live mid am" "p = am_X am \<or> p = am_O am"
      using lookup_Some [OF assms(1) Some] .
    with Some assms(3) show ?thesis
      by (simp add: Abandon_Some Opponent_live Let_def) (auto simp: srv_games_def srv_notifier_def)
  qed
  moreover from this have "w_store w' = w_store w"
    by (cases "Games_lookup g p") (simp_all add: Let_def)
  ultimately show ?thesis using Abandon_isolated [OF assms(1,3)] by blast
qed

lemma join_cases:
  assumes "queue_inv (\<lambda>p. Games_InMatch p (sv_games s)) (sv_mm s)" and "srv_good good (sv_world s)"
    and "server_join (srv_deps x) p s = (e, s')"
  shows "if Games_InMatch p (sv_games s) then e = Some (Domain ErrAlreadyInMatch) \<and> s' = s
    else case queue (sv_mm s) of
      [] \<Rightarrow> e = None \<and> s' = s\<lparr>sv_mm := \<lparr>queue = [p]\<rparr>\<rparr>
    | q # _ \<Rightarrow>
        if p = q then e = Some (Domain ErrAlreadyQueued) \<and> s' = s
        else queue (sv_mm s') = []
          \<and> (if e = None
             then \<exists>mid am. Games_lookup (sv_games s') q = Some am \<and> Games_lookup (sv_games s') p = Some am
                  \<and> am_match am = match_of mid q p []
             else sv_games s' = sv_games s)"
proof -
  obtain m g w where join:
    "Matchmaking_Join (games_matches (srv_games x)) p (sv_mm s, sv_games s, sv_world s) = (e, m, g, w)"
    and s': "s' = s\<lparr>sv_mm := m, sv_games := g, sv_world := w\<rparr>"
    using assms(3) by (auto simp: server_join_def srv_deps_def split: prod.splits)
  show ?thesis
  proof (cases "Games_InMatch p (sv_games s)")
    case True
    with join games_port.Join_busy [of "srv_games x" p "(sv_games s, sv_world s)"] show ?thesis
      by (simp add: s')
  next
    case free: False
    from assms(1) have "queue (sv_mm s) = [] \<or> (\<exists>q. queue (sv_mm s) = [q])"
      by (cases "queue (sv_mm s)") (auto simp: queue_inv_def)
    then consider "queue (sv_mm s) = []" | q where "queue (sv_mm s) = [q]" "p = q"
      | q where "queue (sv_mm s) = [q]" "p \<noteq> q"
      by blast
    then show ?thesis
    proof cases
      case 1
      with free join games_port.Join_first [of "srv_games x" p "(sv_games s, sv_world s)"]
      show ?thesis by (auto simp: s')
    next
      case (2 q)
      with free join games_port.Join_queued [of "srv_games x" p "(sv_games s, sv_world s)" "sv_mm s"]
      show ?thesis by (simp add: s')
    next
      case (3 q)
      with free join games_port.Join_second [of "srv_games x" p "(sv_games s, sv_world s)" "sv_mm s" q]
      have start: "Games_Start (srv_games x) q p (sv_games s, sv_world s) = (e, g, w)"
        and "m = (sv_mm s)\<lparr>queue := []\<rparr>"
        by (simp_all add: prod_eq_iff)
      with Start_pair [OF assms(2) start] free 3 show ?thesis by (cases e) (auto simp: s')
    qed
  qed
qed

section \<open>Stored matches\<close>

lemma MatchByID_stored: "srv_good good w \<Longrightarrow> srv_MatchByID x i w = Inr (srv_stored x w i)"
  by (rule server_games.mst.ByID_stored)

lemma durable_match:
  assumes "games_inv g" and "srv_good good w" and "durable (srv_stored x w) g"
    and "Games_lookup g p = Some am"
  shows "\<exists>r. srv_MatchByID x (m_id (am_match am)) w = Inr (Some r)
    \<and> RestoreMatch (r_ID r) (r_X r) (r_O r) (r_Moves r) = Inr (am_match am)
    \<and> r_Status r = m_status (am_match am)"
  using server_games.durable_restores [OF assms] by blast

section \<open>Accounts\<close>

lemma Register_taken:
  assumes "srv_good good w" and "srv_view x w i = Some q" and "NormalizeName name = Inr n"
    and "password_ok pw" and "nameKey (ext_uni x) n = nameKey (ext_uni x) (p_Name q)"
  shows "Auth_Register (srv_auth x) name pw w = (Inl (Domain ErrNameTaken), w)"
proof -
  have "reg_ByName (srv_registry x) n w = Inr q"
    by (rule server_names.ByName_found [OF assms(1,2)]) (simp add: assms(5))
  with assms(3,4) show ?thesis by (simp add: Auth_Register_def srv_auth_def password_ok_def)
qed

text \<open>A free name: everything succeeds, as long as the libraries keep their promises.\<close>

lemma Register_free:
  assumes "inj (ext_uuid x)" and "bcrypt_laws (ext_bcrypt x)" and "jwt_laws (ext_jwt x)"
    and "provider_ok (ext_auth x)" and inv: "world_inv x good g w"
    and "NormalizeName name = Inr n" and "password_ok pw"
    and "\<not> name_taken x n w"
  shows "\<exists>tok p w'. Auth_Register (srv_auth x) name pw w = (Inr tok, w')
    \<and> p_ID p = ext_uuid x (Suc (w_entropy w)) \<and> p_Name p = n \<and> p_Stats p = zero_stats
    \<and> HashProvider_Compare (ext_bcrypt x) (p_PasswordHash p) pw = None
    \<and> srv_view x w (p_ID p) = None \<and> srv_view x w' = (srv_view x w)(p_ID p \<mapsto> p)
    \<and> srv_good good w' \<and> w_now w' = w_now w
    \<and> AuthProvider_Issue (ext_jwt x) (ext_auth x) (p_ID p) (w_now w) = Inr tok"
proof -
  note I = world_invD [OF inv]
  have free: "nameKey (ext_uni x) (p_Name q) \<noteq> nameKey (ext_uni x) n" if "srv_view x w i = Some q" for i q
    using assms(8) that by (auto simp: name_taken_def ran_def)
  have missing: "reg_ByName (srv_registry x) n w = Inl (Domain ErrPlayerNotFound)"
    by (rule server_names.ByName_missing [OF I(2)]) (rule free)
  obtain hash where hash: "HashProvider_Hash (ext_bcrypt x) (w_entropy w) pw = Inr hash"
    using bcrypt_lawsD(1) [OF assms(2)] assms(7) by (auto simp: password_ok_def MaxPasswordLength_def)
  let ?p = "\<lparr>p_ID = ext_uuid x (Suc (w_entropy w)), p_Name = n, p_PasswordHash = hash, p_Stats = zero_stats\<rparr>"
  let ?w2 = "w\<lparr>w_entropy := Suc (Suc (w_entropy w))\<rparr>"
  have view2: "srv_view x ?w2 = srv_view x w" by (simp add: srv_view_defs)
  have "ext_uuid x (Suc (w_entropy w)) \<notin> used_ids x w"
    using assms(1) by (auto simp: used_ids_def dest: injD)
  then have new: "srv_view x w (p_ID ?p) = None" using I(6) by auto
  have good2: "srv_good good ?w2" using I(2) by (simp add: srv_good_def)
  obtain w' where create: "reg_Create (srv_registry x) ?p ?w2 = (None, w')"
    "srv_view x w' = (srv_view x ?w2)(p_ID ?p \<mapsto> ?p)" "srv_good good w'"
    using server_names.Create_free [OF good2, of ?p] free new view2 by fastforce
  obtain tok where tok: "AuthProvider_Issue (ext_jwt x) (ext_auth x) (p_ID ?p) (w_now w) = Inr tok"
    using Issue_total [OF assms(3,4)] by blast
  have now: "w_now w' = w_now w" using create(1) by (auto simp: srv_registry_def split: prod.splits)
  have "Auth_Register (srv_auth x) name pw w = (Inr tok, w')"
    using assms(6,7) missing hash create(1) tok now NewPlayer_normalized [OF assms(6)]
    by (simp add: Auth_Register_def srv_auth_def srv_hasher_def srv_ids_def srv_tokens_def
        password_ok_def UUID_NewID_def not_less errors_Is.simps)
  with create(2,3) new tok now view2 bcrypt_lawsD(2) [OF assms(2) hash] show ?thesis
    by (intro exI [of _ tok] exI [of _ ?p] exI [of _ w']) simp
qed

lemma Login_known:
  assumes "srv_good good w" and "srv_view x w i = Some p" and "NormalizeName name = Inr n"
    and "nameKey (ext_uni x) (p_Name p) = nameKey (ext_uni x) n"
  shows "Auth_Login (srv_auth x) name pw w =
    (if HashProvider_Compare (ext_bcrypt x) (p_PasswordHash p) pw = None
     then AuthProvider_Issue (ext_jwt x) (ext_auth x) i (w_now w)
     else Inl (Domain ErrInvalidCredentials))"
proof -
  have "reg_ByName (srv_registry x) n w = Inr p"
    by (rule server_names.ByName_found [OF assms(1,2,4)])
  moreover have "p_ID p = i" by (rule server_names.view_ID [OF assms(1,2)])
  ultimately show ?thesis
    using assms(3)
    by (cases "HashProvider_Compare (ext_bcrypt x) (p_PasswordHash p) pw")
      (simp_all add: Auth_Login_def srv_auth_def srv_hasher_def srv_tokens_def)
qed

lemma Login_cases:
  assumes "srv_good good w"
  shows "Auth_Login (srv_auth x) name pw w = Inl (Domain ErrInvalidCredentials)
    \<or> (\<exists>i p. srv_view x w i = Some p \<and> HashProvider_Compare (ext_bcrypt x) (p_PasswordHash p) pw = None
         \<and> Auth_Login (srv_auth x) name pw w = AuthProvider_Issue (ext_jwt x) (ext_auth x) i (w_now w))"
proof (cases "NormalizeName name")
  case (Inl e)
  then show ?thesis by (simp add: Auth_Login_def)
next
  case (Inr n)
  show ?thesis
  proof (rule server_names.ByName_cases [OF assms, of n])
    fix i p
    assume p: "srv_view x w i = Some p" "nameKey (ext_uni x) (p_Name p) = nameKey (ext_uni x) n"
    from Login_known [OF assms p(1) Inr p(2)] p(1) show ?thesis by auto
  next
    assume "reg_ByName (srv_registry x) n w = Inl (Domain ErrPlayerNotFound)"
    with Inr show ?thesis by (simp add: Auth_Login_def srv_auth_def errors_Is.simps)
  qed
qed

lemma same_account:
  assumes "srv_good good w" and "srv_view x w i = Some p" and "srv_view x w j = Some q"
    and "nameKey (ext_uni x) (p_Name p) = nameKey (ext_uni x) (p_Name q)"
  shows "i = j \<and> p_ID p = i \<and> reg_ByName (srv_registry x) (p_Name q) w = Inr p"
  using server_names.names_unique [OF assms] server_names.view_ID [OF assms(1,2)]
    server_names.ByName_found [OF assms(1,2,4)] by blast

section \<open>The leaderboard\<close>

lemma leaderboard_best:
  assumes "srv_good good w"
  shows "\<exists>ps. Leaderboard_Top (srv_standings x) limit w = Inr (standings_loop 0 ps)
    \<and> ranked_board (standings_loop 0 ps)
    \<and> length ps = min (nat (clamp_limit limit)) (card (dom (srv_view x w)))
    \<and> distinct ps \<and> set ps \<subseteq> ran (srv_view x w)
    \<and> (\<forall>p \<in> set ps. \<forall>q \<in> ran (srv_view x w) - set ps. rank_of p \<le> rank_of q)"
proof -
  have good: "good (w_store w)" using assms by (simp add: srv_good_def)
  let ?all = "listing (w_store w)" and ?n = "nat (clamp_limit limit)"
  have pos: "0 < clamp_limit limit" using clamp_limit_range [of limit] by simp
  let ?ps = "take ?n (sort_key rank_of ?all)"
  have top: "std_Top (srv_standings x) (clamp_limit limit) w = Inr ?ps"
    by (rule server_board.Top_ranked [OF assms pos])
  have players: "set ?all = ran (srv_view x w)" "distinct ?all" "length ?all = card (dom (srv_view x w))"
    using sto.listing [OF good] sto.listing_length [OF good] by (simp_all add: srv_view_def)
  have "rank_of p \<le> rank_of q"
    if "p \<in> set ?ps" "q \<in> ran (srv_view x w) - set ?ps" for p q
  proof -
    have "set ?all = set ?ps \<union> set (drop ?n (sort_key rank_of ?all))"
      by (metis append_take_drop_id set_append set_sort)
    with that(2) players(1) have "q \<in> set (drop ?n (sort_key rank_of ?all))" by blast
    with server_board.Top_best [OF assms pos top that(1)] show ?thesis .
  qed
  moreover have board: "Leaderboard_Top (srv_standings x) limit w = Inr (standings_loop 0 ?ps)"
    using top by (simp add: Leaderboard_Top_def)
  moreover have "ranked_board (standings_loop 0 ?ps)"
    using server_board.leaderboard_ranked [OF assms, of limit "standings_loop 0 ?ps"] board
    by (simp add: srv_standings_def)
  moreover have "distinct ?ps" using players(2) by simp
  moreover have "set ?ps \<subseteq> ran (srv_view x w)"
    using set_take_subset [of ?n "sort_key rank_of ?all"] players(1) by simp
  ultimately show ?thesis using players(3) by (intro exI [of _ ?ps]) simp
qed

end

section \<open>Registering and coming in\<close>

lemma libraries_okD:
  assumes "libraries_ok jwt a bc uuid"
  shows "jwt_laws jwt" "provider_ok a" "bcrypt_laws bc" "uuid n \<noteq> []" "ascii (uuid n)"
  using assms by (simp_all add: libraries_ok_def)

text \<open>A token authenticates as the one it was issued to, at the time it was issued.\<close>

lemma issued_authenticates:
  assumes "libraries_ok (ext_jwt x) (ext_auth x) (ext_bcrypt x) (ext_uuid x)"
    and "10 ^ 9 \<le> ap_ttl (ext_auth x)"
    and "AuthProvider_Issue (ext_jwt x) (ext_auth x) (ext_uuid x n) (w_now w) = Inr tok"
  shows "Auth_Authenticate (srv_auth x) tok w = Inr (ext_uuid x n)"
proof -
  note L = libraries_okD [OF assms(1)]
  have "w_now w < jwt_NewNumericDate (ext_jwt x) (w_now w + ap_ttl (ext_auth x))"
    using jwt_lawsD(5) [OF L(1), of "w_now w + ap_ttl (ext_auth x)"] assms(2) by simp
  with Issue_Verify [OF L(1,2,5) assms(3)] jwt_lawsD(4) [OF L(1)] L(4)
  have "AuthProvider_Verify (ext_jwt x) (ext_auth x) tok (w_now w) = Inr (ext_uuid x n)" by blast
  then show ?thesis by (simp add: Auth_Authenticate_def srv_auth_def srv_tokens_def)
qed

lemma register_succeeds:
  assumes "sqlite_server x" and "reachable_server x s"
    and "libraries_ok (ext_jwt x) (ext_auth x) (ext_bcrypt x) (ext_uuid x)"
    and "NormalizeName name = Inr n" and "password_ok pw" and "\<not> name_taken x n (sv_world s)"
  obtains tok p w' where "Auth_Register (srv_auth x) name pw (sv_world s) = (Inr tok, w')"
    and "p_Name p = n" and "p_Stats p = zero_stats" and "srv_view x (sv_world s) (p_ID p) = None"
    and "srv_view x w' = (srv_view x (sv_world s))(p_ID p \<mapsto> p)"
    and "Auth_Login (srv_auth x) name pw w' = Inr tok"
    and "10 ^ 9 \<le> ap_ttl (ext_auth x) \<longrightarrow> Auth_Authenticate (srv_auth x) tok w' = Inr (p_ID p)"
    and "p_ID p = ext_uuid x (Suc (w_entropy (sv_world s)))"
    and "AuthProvider_Issue (ext_jwt x) (ext_auth x) (p_ID p) (w_now (sv_world s)) = Inr tok"
proof (rule reachable_sqlite [OF assms(1,2)])
  fix good listing
  assume W: "wired x good listing" and inj: "inj (ext_uuid x)"
    and inv: "world_inv x good (sv_games s) (sv_world s)"
  let ?w = "sv_world s"
  note L = libraries_okD [OF assms(3)]
  obtain tok p w1 where reg: "Auth_Register (srv_auth x) name pw ?w = (Inr tok, w1)"
    and p: "p_ID p = ext_uuid x (Suc (w_entropy ?w))" "p_Name p = n" "p_Stats p = zero_stats"
      "HashProvider_Compare (ext_bcrypt x) (p_PasswordHash p) pw = None"
      "srv_view x ?w (p_ID p) = None" "srv_view x w1 = (srv_view x ?w)(p_ID p \<mapsto> p)"
    and w1: "srv_good good w1" "w_now w1 = w_now ?w"
    and tok: "AuthProvider_Issue (ext_jwt x) (ext_auth x) (p_ID p) (w_now ?w) = Inr tok"
    using wired.Register_free [OF W inj L(3,1,2) inv assms(4-6)] by blast
  have "srv_view x w1 (p_ID p) = Some p" using p(6) by simp
  from wired.Login_known [OF W w1(1) this assms(4)] p(2,4) tok w1(2)
  have login: "Auth_Login (srv_auth x) name pw w1 = Inr tok" by simp
  have auth: "10 ^ 9 \<le> ap_ttl (ext_auth x) \<longrightarrow> Auth_Authenticate (srv_auth x) tok w1 = Inr (p_ID p)"
    using issued_authenticates [OF assms(3), of "Suc (w_entropy ?w)" w1] tok p(1) w1(2) by simp
  show thesis by (rule that [OF reg p(2,3,5,6) login auth p(1) tok])
qed

end
