(* ===== verification/Service_Theorems.thy ===== *)
theory Service_Theorems
  imports Sample_Run Server_Props
begin

text \<open>
  The properties of the use cases that play: the game service, the queue and the leaderboard, on
  the server of \<open>cmd/server\<close> in any state it reaches (\<open>sqlite_server x\<close>, \<open>reachable_server x s\<close>).
  Properties that hold for any collaborators are stated for any.
\<close>

section \<open>Moves\<close>





text \<open>A player's operations do not reach other games: moving or abandoning changes nothing in
  the match of anybody who is not in the same match, and only the players of that match can
  leave it.\<close>

lemma games_isolated:
  assumes "games_inv g" and "\<not> same_game g p q"
    and "Games_Move d p c (g, w) = (r, g1, w1)" and "Games_Abandon d p (g, w) = (g2, w2)"
  shows "Games_lookup g1 q = Games_lookup g q \<and> Games_lookup g2 q = Games_lookup g q"
  using Move_isolated [OF assms(1,3,2)] Abandon_isolated [OF assms(1,4)] assms(2) by simp

text \<open>C6. A move that ends a match settles it on the server: the mover is answered with the final
  state, both players are free and nobody else is affected, each has exactly its outcome of the
  match added to its statistics and nobody else's change, and the database has the record of the
  match with the final status and all the moves.\<close>

theorem final_move_settles:
  assumes "sqlite_server x" and "reachable_server x s" and "Games_lookup (sv_games s) p = Some am"
    and "Match_ApplyMove (am_match am) p c = (None, m)" and "Status_IsFinished (m_status m)"
    and "server_move (srv_deps x) p c s = (r, s')"
  shows "r = Inr (am_stateFor (am\<lparr>am_match := m\<rparr>) p)
    \<and> (\<forall>q. Games_InMatch q (sv_games s') \<longleftrightarrow> Games_InMatch q (sv_games s) \<and> q \<noteq> am_X am \<and> q \<noteq> am_O am)
    \<and> (\<forall>q. srv_view x (sv_world s') q =
         (if q = am_X am \<or> q = am_O am
          then map_option (\<lambda>pl. Player_Record pl (Match_OutcomeFor m q)) (srv_view x (sv_world s) q)
          else srv_view x (sv_world s) q))
    \<and> srv_MatchByID x (m_id m) (sv_world s') = Inr (Some
         \<lparr>r_ID = m_id m, r_X = am_X am, r_O = am_O am, r_Status = m_status m, r_Moves = m_moves m\<rparr>)"
proof (rule reachable_sqlite [OF assms(1,2)])
  fix good listing
  assume W: "wired x good listing" and inv: "world_inv x good (sv_games s) (sv_world s)"
  obtain g w where "Games_Move (srv_games x) p c (sv_games s, sv_world s) = (r, g, w)"
    "s' = s\<lparr>sv_games := g, sv_world := w\<rparr>"
    using assms(6) by (auto simp: server_move_def srv_deps_def split: prod.splits)
  with wired.final_move [OF W inv assms(3-5)] show ?thesis by simp
qed

theorem final_move_settles_witness:
  "map_option p_Stats (srv_view demo (sv_world (snd (server_move (srv_deps demo) ''1'' 2 late_server))) ''1'') =
     Some \<lparr>Wins = 1, Losses = 0, Draws = 0\<rparr>
   \<and> \<not> Games_InMatch ''3'' (sv_games (snd (server_move (srv_deps demo) ''1'' 2 late_server)))"
proof -
  obtain r s1 where run: "server_move (srv_deps demo) ''1'' 2 late_server = (r, s1)"
    by (metis surj_pair)
  have lookup: "Games_lookup (sv_games late_server) ''1'' = Some (mid_match [0, 4, 1, 8])" by simp
  have "srv_view demo (sv_world late_server) ''1'' = Some ann"
    by (simp add: sample_views)
  moreover have "Match_OutcomeFor (match_of ''4'' ''1'' ''3'' [0, 4, 1, 8, 2]) ''1'' = OutcomeWin"
    by code_simp
  ultimately show ?thesis
    using final_move_settles [OF demo_server late_reachable lookup _ last_move(2) run] run last_move(1)
    by (simp add: ann_def zero_stats_def int64_def)
qed

section \<open>Starting and abandoning\<close>

text \<open>\<open>Games.Start\<close> on the server succeeds exactly when both players are registered,
  different and free. It then puts one new match, with nothing played and the first player as X,
  under both of them; otherwise the games, the players and the stored records stay as they were.\<close>

lemma Start_behaviour:
  assumes "sqlite_server x" and "reachable_server x s"
    and "Games_Start (srv_games x) px po (sv_games s, sv_world s) = (e, g', w')"
  shows "(e = None \<longleftrightarrow> srv_view x (sv_world s) px \<noteq> None \<and> srv_view x (sv_world s) po \<noteq> None \<and> px \<noteq> po
        \<and> \<not> Games_InMatch px (sv_games s) \<and> \<not> Games_InMatch po (sv_games s))
    \<and> (if e = None
       then \<exists>mid am. Games_lookup g' px = Some am \<and> Games_lookup g' po = Some am
           \<and> am_match am = match_of mid px po [] \<and> active g' = (active (sv_games s))(mid \<mapsto> am)
           \<and> mid = ext_uuid x (w_entropy (sv_world s))
       else g' = sv_games s \<and> srv_view x w' = srv_view x (sv_world s)
         \<and> srv_stored x w' = srv_stored x (sv_world s))"
proof (rule reachable_sqlite [OF assms(1,2)])
  fix good listing
  assume W: "wired x good listing" and inv: "world_inv x good (sv_games s) (sv_world s)"
  show ?thesis by (rule wired.Start_iff [OF W world_invD(2) [OF inv] assms(3)])
qed

text \<open>C22. Resigning drops the match for both players whatever its position, tells the player
  who stays, and records nothing: the database stays as it is, so the record of an
  abandoned match says it is in progress for ever. Without a match it does nothing.\<close>

theorem Abandon_behaviour:
  assumes "sqlite_server x" and "reachable_server x s"
    and "Games_Abandon (srv_games x) p (sv_games s, sv_world s) = (g', w')"
  shows "(\<forall>q. Games_lookup g' q =
           (if same_game (sv_games s) p q then None else Games_lookup (sv_games s) q))
    \<and> w_store w' = w_store (sv_world s)
    \<and> (case Games_lookup (sv_games s) p of
         None \<Rightarrow> g' = sv_games s \<and> w' = sv_world s
       | Some am \<Rightarrow>
           (let q = if p = am_X am then am_O am else am_X am
            in w' = (sv_world s)\<lparr>w_hub := Hub_Notify q \<lparr>ev_Type = EventOpponentLeft,
                 ev_MatchID = m_id (am_match am), ev_State = am_stateFor am q\<rparr> (w_hub (sv_world s))\<rparr>))"
proof (rule reachable_sqlite [OF assms(1,2)])
  fix good listing
  assume W: "wired x good listing" and inv: "world_inv x good (sv_games s) (sv_world s)"
  show ?thesis by (rule wired.Abandon_exact [OF W world_invD(1,2) [OF inv] assms(3)])
qed

theorem Abandon_behaviour_witness:
  "Games_lookup (fst (Games_Abandon (srv_games demo) ''1'' (sv_games late_server, sv_world late_server))) ''3'' = None
   \<and> w_store (snd (Games_Abandon (srv_games demo) ''1'' (sv_games late_server, sv_world late_server))) =
       w_store (sv_world late_server)"
proof -
  obtain g1 w1 where run: "Games_Abandon (srv_games demo) ''1'' (sv_games late_server, sv_world late_server) = (g1, w1)"
    by fastforce
  have "same_game (sv_games late_server) ''1'' ''3''" by (simp add: same_game_def)
  then show ?thesis using Abandon_behaviour [OF demo_server late_reachable run] run by simp
qed

section \<open>The queue\<close>

text \<open>C21. Joining the queue of the server, on every branch. Who plays or waits already is
  refused and nothing changes. The first to join waits. The second to join empties the queue; if
  the match can be started, the one who waited longer is X and the joiner is O of one new match
  with nothing played, and if it cannot, the games stay as they were.\<close>

theorem join_behaviour:
  assumes "sqlite_server x" and "reachable_server x s" and "server_join (srv_deps x) p s = (e, s')"
  shows "if Games_InMatch p (sv_games s) then e = Some (Domain ErrAlreadyInMatch) \<and> s' = s
    else case queue (sv_mm s) of
      [] \<Rightarrow> e = None \<and> s' = s\<lparr>sv_mm := \<lparr>queue = [p]\<rparr>\<rparr>
    | q # _ \<Rightarrow>
        if p = q then e = Some (Domain ErrAlreadyQueued) \<and> s' = s
        else queue (sv_mm s') = []
          \<and> (if e = None
             then \<exists>mid am. Games_lookup (sv_games s') q = Some am \<and> Games_lookup (sv_games s') p = Some am
                  \<and> am_match am = match_of mid q p []
             else sv_games s' = sv_games s)"
proof (rule reachable_sqlite [OF assms(1,2)])
  fix good listing
  assume W: "wired x good listing" and Q: "queue_inv (\<lambda>p. Games_InMatch p (sv_games s)) (sv_mm s)"
    and inv: "world_inv x good (sv_games s) (sv_world s)"
  show ?thesis by (rule wired.join_cases [OF W Q world_invD(2) [OF inv] assms(3)])
qed

theorem join_behaviour_witness:
  "fst (server_join (srv_deps demo) ''1'' registered) = None
   \<and> queue (sv_mm (snd (server_join (srv_deps demo) ''1'' registered))) = [''1'']"
proof -
  obtain e s1 where run: "server_join (srv_deps demo) ''1'' registered = (e, s1)" by fastforce
  show ?thesis
    using join_behaviour [OF demo_server registered_reachable run] run
    by (simp add: registered_eq NewMatchmaking_def)
qed

text \<open>A pairing that fails loses the player who waited: both are taken off the queue before the
  match is started, the error goes to the joiner only, and the one who waited is left neither
  waiting nor playing, without being told.\<close>

lemma failed_pairing_loses_waiter:
  assumes "queue (sv_mm s) = [q]" and "\<not> Games_InMatch q (sv_games s)"
    and "\<not> Games_InMatch p (sv_games s)" and "p \<noteq> q"
    and "fst (Games_Start (srv_games x) q p (sv_games s, sv_world s)) = Some e"
    and "server_join (srv_deps x) p s = (r, s')"
  shows "r = Some e \<and> queue (sv_mm s') = [] \<and> \<not> Games_InMatch q (sv_games s')
    \<and> w_hub (sv_world s') = w_hub (sv_world s)"
proof -
  obtain g w where start: "Games_Start (srv_games x) q p (sv_games s, sv_world s) = (Some e, g, w)"
    using assms(5) by (metis prod.collapse)
  have "w_hub w = w_hub (sv_world s)"
    using start by (auto simp: Games_Start_def Let_def srv_defs split: sum.splits if_splits)
  moreover have "g = sv_games s" by (rule Start_error_frame [OF start])
  ultimately show ?thesis
    using assms(2,6) games_port.Join_second [of "srv_games x" p "(sv_games s, sv_world s)" "sv_mm s" q]
      assms(1,3,4) start
    by (auto simp: server_join_def srv_deps_def)
qed

text \<open>Ann waits; somebody with a token of an account the database does not have joins.\<close>

section \<open>The leaderboard\<close>



end
