(* ===== verification/Account_Theorems.thy ===== *)
theory Account_Theorems
  imports Sample_Run Server_Props
begin

text \<open>
  The properties of accounts and tokens on the server of \<open>cmd/server\<close>: registering, logging in,
  how long a token works, and that accounts are kept apart. The libraries behind the adapters are
  assumed to keep what they document (\<open>libraries_ok\<close>).
\<close>

section \<open>Registration and login\<close>

lemma sample_ran: "ran [''1'' \<mapsto> ann, ''3'' \<mapsto> bob] = {ann, bob}"
  by (simp add: ran_map_upd insert_commute)

text \<open>C18. Registering on the server, on every branch. A name that is empty or too long, a password
  shorter than 8 or longer than 72 bytes, and a name that is taken (in whatever case, with whatever
  spaces around it) are refused, in this order, and nothing is written. Otherwise the
  registration succeeds: it creates exactly one account, under an identity nobody had, with the
  trimmed name and empty statistics; logging in with the same name and password gives the same
  token, and the token authenticates as the new account, if tokens live a second or longer.\<close>

theorem register_behaviour:
  assumes "sqlite_server x" and "reachable_server x s"
    and "libraries_ok (ext_jwt x) (ext_auth x) (ext_bcrypt x) (ext_uuid x)"
    and "Auth_Register (srv_auth x) name pw (sv_world s) = (r, w')"
  shows "case NormalizeName name of
      Inl e \<Rightarrow> r = Inl (Domain e) \<and> w' = sv_world s
    | Inr n \<Rightarrow>
        if length pw < 8 then r = Inl (Domain ErrPasswordTooShort) \<and> w' = sv_world s
        else if 72 < length pw then r = Inl (Domain ErrPasswordTooLong) \<and> w' = sv_world s
        else if name_taken x n (sv_world s) then r = Inl (Domain ErrNameTaken) \<and> w' = sv_world s
        else \<exists>tok p. r = Inr tok \<and> p_Name p = n \<and> p_Stats p = zero_stats
          \<and> srv_view x (sv_world s) (p_ID p) = None
          \<and> srv_view x w' = (srv_view x (sv_world s))(p_ID p \<mapsto> p)
          \<and> Auth_Login (srv_auth x) name pw w' = Inr tok
          \<and> (10 ^ 9 \<le> ap_ttl (ext_auth x) \<longrightarrow> Auth_Authenticate (srv_auth x) tok w' = Inr (p_ID p))"
proof (rule reachable_sqlite [OF assms(1,2)])
  fix good listing
  assume W: "wired x good listing" and inj: "inj (ext_uuid x)"
    and inv: "world_inv x good (sv_games s) (sv_world s)"
  let ?w = "sv_world s"
  note good = world_invD(2) [OF inv]
  consider e where "NormalizeName name = Inl e"
    | n where "NormalizeName name = Inr n" "length pw < 8"
    | n where "NormalizeName name = Inr n" "72 < length pw"
    | n where "NormalizeName name = Inr n" "password_ok pw" "name_taken x n ?w"
    | n where "NormalizeName name = Inr n" "password_ok pw" "\<not> name_taken x n ?w"
    unfolding password_ok_def MinPasswordLength_def MaxPasswordLength_def
    by (cases "NormalizeName name") (auto, metis not_less)
  then show ?thesis
  proof cases
    case (4 n)
    then obtain i q where "srv_view x ?w i = Some q" "nameKey (ext_uni x) n = nameKey (ext_uni x) (p_Name q)"
      by (auto simp: name_taken_def ran_def)
    from wired.Register_taken [OF W good this(1) 4(1,2) this(2)] 4 assms(4) show ?thesis
      by (simp add: password_ok_def MinPasswordLength_def MaxPasswordLength_def)
  next
    case (5 n)
    obtain tok p w1 where reg: "Auth_Register (srv_auth x) name pw ?w = (Inr tok, w1)"
      and p: "p_Name p = n" "p_Stats p = zero_stats" "srv_view x ?w (p_ID p) = None"
        "srv_view x w1 = (srv_view x ?w)(p_ID p \<mapsto> p)"
      and login: "Auth_Login (srv_auth x) name pw w1 = Inr tok"
      and auth: "10 ^ 9 \<le> ap_ttl (ext_auth x) \<longrightarrow> Auth_Authenticate (srv_auth x) tok w1 = Inr (p_ID p)"
      by (rule register_succeeds [OF assms(1-3) 5]) blast
    have run: "r = Inr tok" "w' = w1" using reg assms(4) by simp_all
    with p login auth run reg 5 assms(4) show ?thesis
      by (auto simp: password_ok_def MinPasswordLength_def MaxPasswordLength_def)
  qed (use assms(4) in \<open>simp_all add: Auth_Register_def MinPasswordLength_def MaxPasswordLength_def\<close>)
qed

theorem register_behaviour_witness:
  "fst (Auth_Register (srv_auth demo) '' ANN'' ''password'' (sv_world registered)) = Inl (Domain ErrNameTaken)
   \<and> (\<exists>tok. fst (Auth_Register (srv_auth demo) ''eve'' ''password'' (sv_world registered)) = Inr tok)"
proof -
  have view: "srv_view demo (sv_world registered) = [''1'' \<mapsto> ann, ''3'' \<mapsto> bob]"
    by (simp add: registered_eq sample_views)
  have names: "NormalizeName '' ANN'' = Inr ''ANN''" "NormalizeName ''eve'' = Inr ''eve''"
    "nameKey u ''ANN'' = ''ann''" "nameKey u ''eve'' = ''eve''" for u
    by code_simp+
  have taken: "name_taken demo ''ANN'' (sv_world registered)" "\<not> name_taken demo ''eve'' (sv_world registered)"
    using sample_ran names
    by (simp_all add: name_taken_def view sample_strings) (simp_all add: ann_def bob_def sample_strings)
  have libs: "libraries_ok (ext_jwt demo) (ext_auth demo) (ext_bcrypt demo) (ext_uuid demo)"
    by (simp add: demo_libraries)
  obtain r1 w1 r2 w2 where run:
    "Auth_Register (srv_auth demo) '' ANN'' ''password'' (sv_world registered) = (r1, w1)"
    "Auth_Register (srv_auth demo) ''eve'' ''password'' (sv_world registered) = (r2, w2)"
    by (metis surj_pair)
  from register_behaviour [OF demo_server registered_reachable libs run(1)]
    register_behaviour [OF demo_server registered_reachable libs run(2)] names taken run
  show ?thesis by auto
qed

text \<open>C24. A login that fails does not tell why: an unknown name, a malformed name and a wrong
  password all give \<open>ErrInvalidCredentials\<close>, so the answer does not tell which names exist. The only
  other answers come from issuing the token, after the password was found right.\<close>

theorem login_reveals_nothing:
  assumes "sqlite_server x" and "reachable_server x s"
  shows "Auth_Login (srv_auth x) name pw (sv_world s) = Inl (Domain ErrInvalidCredentials)
    \<or> (\<exists>i p. srv_view x (sv_world s) i = Some p
         \<and> HashProvider_Compare (ext_bcrypt x) (p_PasswordHash p) pw = None
         \<and> Auth_Login (srv_auth x) name pw (sv_world s) =
             AuthProvider_Issue (ext_jwt x) (ext_auth x) i (w_now (sv_world s)))"
proof (rule reachable_sqlite [OF assms])
  fix good listing
  assume W: "wired x good listing" and inv: "world_inv x good (sv_games s) (sv_world s)"
  show ?thesis by (rule wired.Login_cases [OF W world_invD(2) [OF inv]])
qed

theorem login_reveals_nothing_witness:
  "Auth_Login (srv_auth demo) ''ann'' ''wrong'' (sv_world registered) = Inl (Domain ErrInvalidCredentials)"
proof -
  have "HashProvider_Compare (ext_bcrypt demo) (p_PasswordHash p) ''wrong'' \<noteq> None"
    if "srv_view demo (sv_world registered) i = Some p" for i p
    using that by (auto simp: registered_eq sample_views HashProvider_Compare_def demo_bcrypt_def
        ann_def bob_def split: if_splits)
  with login_reveals_nothing [OF demo_server registered_reachable, of "''ann''" "''wrong''"]
  show ?thesis by blast
qed

section \<open>Tokens\<close>

text \<open>C25. A token lives for the configured time and no longer. What \<open>Issue\<close> signs is accepted for
  exactly its player, from the second it was issued until the lifetime is over, up to a second
  of rounding; a lifetime that is not positive gives tokens that are never accepted. A text that
  is accepted at all carries a signature by the server's own key with HS256.\<close>

theorem token_lifetime:
  assumes "jwt_laws lib" and "NewAuthProvider key ttl = Inr a" and "i \<noteq> []" and "ascii i"
  shows "\<exists>tok. AuthProvider_Issue lib a i t0 = Inr tok
    \<and> (\<forall>t j. AuthProvider_Verify lib a tok t = Inr j \<longrightarrow> j = i \<and> t < t0 + ttl)
    \<and> (\<forall>t. t0 \<le> t \<and> t + 10 ^ 9 \<le> t0 + ttl \<longrightarrow> AuthProvider_Verify lib a tok t = Inr i)
    \<and> (ttl \<le> 0 \<longrightarrow> (\<forall>t \<ge> t0. \<exists>e. AuthProvider_Verify lib a tok t = Inl e))
    \<and> (\<forall>raw t j. AuthProvider_Verify lib a raw t = Inr j \<longrightarrow>
         (\<exists>tk. jwt_signed lib raw key tk \<and> tk_Method tk = SigningMethodHMAC ''HS256''
            \<and> cl_Subject (tk_Claims tk) = Inr j))"
proof -
  have a: "provider_ok a" "ap_ttl a = ttl" "ap_secret a = key"
    using assms(2) NewAuthProvider_ok by (auto simp: NewAuthProvider_Inr)
  obtain tok where tok: "AuthProvider_Issue lib a i t0 = Inr tok"
    using Issue_total [OF assms(1) a(1)] by blast
  note V = Issue_Verify [OF assms(1) a(1) assms(4) tok, unfolded a(2)]
  have dates: "jwt_NewNumericDate lib t0 \<le> t0" "jwt_NewNumericDate lib (t0 + ttl) \<le> t0 + ttl"
    "t0 + ttl < jwt_NewNumericDate lib (t0 + ttl) + 10 ^ 9"
    using jwt_lawsD(4,5) [OF assms(1)] by simp_all
  have "j = i \<and> t < t0 + ttl" if "AuthProvider_Verify lib a tok t = Inr j" for t j
    using that dates(2) unfolding V by simp
  moreover have "AuthProvider_Verify lib a tok t = Inr i" if "t0 \<le> t \<and> t + 10 ^ 9 \<le> t0 + ttl" for t
    using that dates assms(3) unfolding V by simp
  moreover have "\<exists>e. AuthProvider_Verify lib a tok t = Inl e" if "ttl \<le> 0" "t0 \<le> t" for t
    using that dates(2) V by (cases "AuthProvider_Verify lib a tok t") auto
  moreover have "\<exists>tk. jwt_signed lib raw key tk \<and> tk_Method tk = SigningMethodHMAC ''HS256''
      \<and> cl_Subject (tk_Claims tk) = Inr j" if "AuthProvider_Verify lib a raw t = Inr j" for raw t j
    using that a(3) unfolding Verify_Inr [OF assms(1)] by blast
  ultimately show ?thesis using tok by blast
qed

theorem token_lifetime_witness:
  "\<exists>tok. AuthProvider_Issue demo_jwt demo_auth ''7'' 0 = Inr tok
     \<and> AuthProvider_Verify demo_jwt demo_auth tok (hours 23) = Inr ''7''"
proof -
  have "NewAuthProvider demo_secret (hours 24) = Inr demo_auth"
    by (simp add: NewAuthProvider_def demo_auth_def demo_secret_def)
  from token_lifetime [OF demo_jwt_laws this, of "''7''" 0] show ?thesis
    by (auto simp: ascii_def hours_def)
qed

section \<open>Accounts\<close>

text \<open>In every state the server reaches, an account is stored under its own id, and no two
  accounts have names that differ in case or surrounding spaces only: looking a name up finds
  the one account that has it.\<close>

lemma accounts_unique:
  assumes "sqlite_server x" and "reachable_server x s"
    and "srv_view x (sv_world s) i = Some p" and "srv_view x (sv_world s) j = Some q"
    and "nameKey (ext_uni x) (p_Name p) = nameKey (ext_uni x) (p_Name q)"
  shows "i = j \<and> p_ID p = i
    \<and> reg_ByName (srv_registry x) (p_Name q) (sv_world s) = Inr p"
proof (rule reachable_sqlite [OF assms(1,2)])
  fix good listing
  assume W: "wired x good listing" and inv: "world_inv x good (sv_games s) (sv_world s)"
  show ?thesis by (rule wired.same_account [OF W world_invD(2) [OF inv] assms(3-5)])
qed

text \<open>C33. Every account the server has stored, in every state it reaches, is well typed: its name is
  what \<open>NormalizeName\<close> returns (trimmed, 1 to 32 bytes), and its three counters are values of Go's
  64-bit \<open>int\<close>, wrapped around if they had to be.\<close>

theorem accounts_typed:
  assumes "sqlite_server x" and "reachable_server x s" and "bk_ByID (ext_store x) i (w_store (sv_world s)) = Inr p"
  shows "TrimSpace (p_Name p) = p_Name p \<and> 1 \<le> length (p_Name p) \<and> length (p_Name p) \<le> 32
    \<and> (\<forall>n \<in> {Wins (p_Stats p), Losses (p_Stats p), Draws (p_Stats p)}. - (2 ^ 63) \<le> n \<and> n < 2 ^ 63)"
proof (rule reachable_sqlite [OF assms(1,2)])
  fix good listing
  assume inv: "world_inv x good (sv_games s) (sv_world s)"
  have "p \<in> ran (srv_view x (sv_world s))"
    using assms(3) by (intro ranI [of _ i]) (simp add: srv_view_def bk_view_def)
  with world_invD(8) [OF inv] have "typed_player p" by (simp add: accounts_ok_def)
  then show ?thesis
    by (auto simp: typed_player_def NormalizeName_Inr MaxNameLength_def int64_def Suc_le_eq)
qed

theorem accounts_typed_witness:
  "1 \<le> length (p_Name ann) \<and> length (p_Name ann) \<le> 32 \<and> Wins (p_Stats ann) < 2 ^ 63"
proof -
  have "bk_ByID (ext_store demo) ''1'' (w_store (sv_world registered)) = Inr ann"
    by (simp add: registered_eq two_players_world_def two_players_def table_ops)
      (simp add: ann_def)
  from accounts_typed [OF demo_server registered_reachable this] show ?thesis by simp
qed

end
