(* ===== verification/Pumps.thy ===== *)
theory Pumps
  imports Hub_Model
begin

text \<open>
  The two goroutines of a socket (\<open>internal/adapter/transport/conn.go\<close>) as far as they do more than
  run operations of the server: the rounds of \<open>writePump\<close> with its pings and its end, and the
  deadline \<open>readPump\<close> reads under. Which case of the \<open>select\<close> is taken, and whether a write
  succeeds, are inputs; times are in nanoseconds.
\<close>

definition seconds :: "int \<Rightarrow> int" where
  "seconds n = n * 10 ^ 9"

definition writeWait :: int where "writeWait = seconds 10"
definition pongWait :: int where "pongWait = seconds 60"
definition pingPeriod :: int where "pingPeriod = pongWait * 9 div 10"

section \<open>writePump\<close>

datatype message = TextMessage frame | PingMessage | CloseMessage

text \<open>The case the \<open>select\<close> takes; a frame can be taken if there is one, \<open>done\<close> if it was closed.\<close>

datatype ready = SendReady | TickReady | DoneReady

fun can_select :: "ready \<Rightarrow> client \<Rightarrow> bool" where
  "can_select SendReady c = (c_send c \<noteq> [])"
| "can_select TickReady c = True"
| "can_select DoneReady c = c_done c"

text \<open>
  One round: the message written and its deadline, whether the loop goes on, and the client; the
  deferred close runs when it does not.
\<close>

fun writePump_round :: "ready \<Rightarrow> bool \<Rightarrow> int \<Rightarrow> client \<Rightarrow> (message \<times> int) \<times> bool \<times> client" where
  "writePump_round SendReady ok now c =
     ((TextMessage (hd (c_send c)), now + writeWait), ok,
      if ok then c\<lparr>c_send := tl (c_send c)\<rparr> else client_close (c\<lparr>c_send := tl (c_send c)\<rparr>))"
| "writePump_round TickReady ok now c =
     ((PingMessage, now + writeWait), ok, if ok then c else client_close c)"
| "writePump_round DoneReady ok now c = ((CloseMessage, now + writeWait), False, client_close c)"

text \<open>
  The life of a client: frames are pushed, the pump runs its rounds until it returns, somebody
  closes the client.
\<close>

datatype client_event = Pushed frame | Pumped ready bool int | Closed

record pump =
  pm_client :: client
  pm_running :: bool
  pm_written :: "message list"
  pm_accepted :: "frame list"

definition new_pump :: "PlayerID \<Rightarrow> pump" where
  "new_pump i = \<lparr>pm_client = new_client i, pm_running = True, pm_written = [], pm_accepted = []\<rparr>"

fun pump_event :: "client_event \<Rightarrow> pump \<Rightarrow> pump" where
  "pump_event (Pushed f) p =
     (case client_push f (pm_client p) of
        (ok, c) \<Rightarrow> p\<lparr>pm_client := c, pm_accepted := pm_accepted p @ (if ok then [f] else [])\<rparr>)"
| "pump_event Closed p = p\<lparr>pm_client := client_close (pm_client p)\<rparr>"
| "pump_event (Pumped r ok now) p =
     (if pm_running p \<and> can_select r (pm_client p)
      then (case writePump_round r ok now (pm_client p) of
              ((m, deadline), goes_on, c) \<Rightarrow>
                p\<lparr>pm_client := c, pm_running := goes_on, pm_written := pm_written p @ [m]\<rparr>)
      else p)"

definition run_pump :: "client_event list \<Rightarrow> pump \<Rightarrow> pump" where
  "run_pump es p = fold pump_event es p"

definition texts :: "message list \<Rightarrow> frame list" where
  "texts ms = concat (map (\<lambda>m. case m of TextMessage f \<Rightarrow> [f] | _ \<Rightarrow> []) ms)"

lemma texts_simps [simp]:
  "texts [] = []" "texts (ms @ ns) = texts ms @ texts ns" "texts [TextMessage f] = [f]"
  "texts [PingMessage] = []" "texts [CloseMessage] = []"
  by (simp_all add: texts_def)

text \<open>What was accepted is what was written, in order, and what is still buffered.\<close>

definition pump_inv :: "pump \<Rightarrow> bool" where
  "pump_inv p \<longleftrightarrow>
     texts (pm_written p) @ c_send (pm_client p) = pm_accepted p
     \<and> length (c_send (pm_client p)) \<le> sendBuffer
     \<and> (pm_running p \<or> c_done (pm_client p))
     \<and> (CloseMessage \<in> set (pm_written p) \<longrightarrow> \<not> pm_running p \<and> last (pm_written p) = CloseMessage)
     \<and> CloseMessage \<notin> set (butlast (pm_written p))"

lemma pump_inv_new: "pump_inv (new_pump i)"
  by (simp add: pump_inv_def new_pump_def new_client_def)

lemma pump_event_inv:
  assumes "pump_inv p"
  shows "pump_inv (pump_event e p)"
proof (cases e)
  case (Pushed f)
  with assms show ?thesis
    by (auto simp: pump_inv_def client_push_def split: if_splits)
next
  case (Pumped r ok now)
  show ?thesis
  proof (cases "pm_running p \<and> can_select r (pm_client p)")
    case True
    with assms Pumped show ?thesis
      by (cases r; cases "c_send (pm_client p)") (auto simp: pump_inv_def client_close_def butlast_append dest: in_set_butlastD)
  qed (use assms Pumped in auto)
next
  case Closed
  with assms show ?thesis by (simp add: pump_inv_def client_close_def)
qed

lemma run_pump_inv: "pump_inv p \<Longrightarrow> pump_inv (run_pump es p)"
  unfolding run_pump_def by (induction es arbitrary: p) (simp_all add: pump_event_inv)

text \<open>A pump that has returned writes nothing, a closed client accepts nothing, and both are final.\<close>

lemma returned_pump:
  assumes "\<not> pm_running p"
  shows "pm_written (run_pump es p) = pm_written p \<and> \<not> pm_running (run_pump es p)"
  using assms unfolding run_pump_def
proof (induction es arbitrary: p)
  case (Cons e es)
  then have "pm_written (pump_event e p) = pm_written p" "\<not> pm_running (pump_event e p)"
    by (cases e; simp split: prod.split)+
  with Cons.IH show ?case by simp
qed simp

lemma closed_client:
  assumes "c_done (pm_client p)"
  shows "pm_accepted (run_pump es p) = pm_accepted p \<and> c_done (pm_client (run_pump es p))"
  using assms unfolding run_pump_def
proof (induction es arbitrary: p)
  case (Cons e es)
  then have "pm_accepted (pump_event e p) = pm_accepted p \<and> c_done (pm_client (pump_event e p))"
  proof (cases e)
    case (Pumped r ok now)
    with Cons.prems show ?thesis by (cases r) (simp_all add: client_close_def)
  qed (simp_all add: client_push_def client_close_def)
  with Cons.IH show ?case by simp
qed simp

text \<open>The step of the server is the round that writes a frame; a failed write closes the socket.\<close>

lemma writePump_step_round:
  assumes "h_heap h k = Some c" and "can_select SendReady c"
  shows "writePump_step k h =
    (Some (hd (c_send c)), h\<lparr>h_heap := (h_heap h)(k \<mapsto> snd (snd (writePump_round SendReady True now c)))\<rparr>)"
  using assms by (cases "c_send c") (simp_all add: writePump_step_def)

section \<open>The deadline of readPump\<close>

text \<open>
  The deadline after the pongs at the given times, in order; a pong after the deadline comes too
  late. Commands do not extend it.
\<close>

fun read_deadline :: "int \<Rightarrow> int list \<Rightarrow> int" where
  "read_deadline d [] = d"
| "read_deadline d (t # ts) = (if t < d then read_deadline (t + pongWait) ts else d)"

text \<open>The socket opened at \<open>t0\<close> can still be read at \<open>t\<close>.\<close>

definition readable :: "int \<Rightarrow> int list \<Rightarrow> int \<Rightarrow> bool" where
  "readable t0 pongs t \<longleftrightarrow> t < read_deadline (t0 + pongWait) (takeWhile (\<lambda>p. p \<le> t) pongs)"

lemma read_deadline_snoc:
  assumes "\<forall>i < length ts. ts ! i < (if i = 0 then d else ts ! (i - 1) + pongWait)"
  shows "read_deadline d ts = (if ts = [] then d else last ts + pongWait)"
  using assms
proof (induction ts arbitrary: d)
  case (Cons t ts)
  have "t < d" using Cons.prems by force
  moreover have "\<forall>i < length ts. ts ! i < (if i = 0 then t + pongWait else ts ! (i - 1) + pongWait)"
  proof (intro allI impI)
    fix i
    assume "i < length ts"
    then have "Suc i < length (t # ts)" by simp
    from Cons.prems [rule_format, OF this]
    show "ts ! i < (if i = 0 then t + pongWait else ts ! (i - 1) + pongWait)"
      by (cases i) simp_all
  qed
  ultimately show ?case using Cons.IH [of "t + pongWait"] by simp
qed simp

text \<open>The ticker of \<open>writePump\<close> ticks every \<open>pingPeriod\<close>; a client that answers every ping within six
  seconds.\<close>

definition ping_at :: "int \<Rightarrow> nat \<Rightarrow> int" where
  "ping_at t0 k = t0 + int (Suc k) * pingPeriod"

definition answers_pings :: "int \<Rightarrow> int list \<Rightarrow> bool" where
  "answers_pings t0 pongs \<longleftrightarrow>
     (\<forall>k < length pongs. ping_at t0 k \<le> pongs ! k \<and> pongs ! k < ping_at t0 k + seconds 6)"

lemma ping_times:
  "pongWait = 60000000000" "pingPeriod = 54000000000" "seconds 6 = 6000000000"
  "ping_at t0 k = t0 + int k * 54000000000 + 54000000000"
  by (simp_all add: ping_at_def pingPeriod_def pongWait_def seconds_def algebra_simps)

lemma answered_readable:
  assumes "answers_pings t0 pongs" and "t < t0 + int (length pongs) * pingPeriod + pongWait"
  shows "readable t0 pongs t"
proof -
  define ts where "ts = takeWhile (\<lambda>p. p \<le> t) pongs"
  have len: "length ts \<le> length pongs" unfolding ts_def by (rule length_takeWhile_le)
  have nth: "ts ! k = pongs ! k" if "k < length ts" for k
    using that unfolding ts_def by (rule takeWhile_nth)
  have pong: "ping_at t0 k \<le> pongs ! k" "pongs ! k < ping_at t0 k + seconds 6" if "k < length pongs" for k
    using assms(1) that by (auto simp: answers_pings_def)
  have "ts ! i < (if i = 0 then t0 + pongWait else ts ! (i - 1) + pongWait)" if "i < length ts" for i
  proof -
    have "i < length pongs" using that len by simp
    with that show ?thesis
      using pong(2) [of i] pong(1) [of "i - 1"] nth [of i] nth [of "i - 1"]
      by (cases i) (simp_all add: ping_times)
  qed
  then have deadline: "read_deadline (t0 + pongWait) ts =
      (if ts = [] then t0 + pongWait else last ts + pongWait)"
    by (intro read_deadline_snoc) blast
  have late: "t0 + int (length ts) * pingPeriod + pongWait \<le> read_deadline (t0 + pongWait) ts"
  proof (cases ts rule: rev_cases)
    case (snoc us u)
    then have "u = pongs ! length us" using nth [of "length us"] by simp
    moreover have "read_deadline (t0 + pongWait) ts = u + pongWait" using deadline snoc by simp
    ultimately show ?thesis using pong(1) [of "length us"] snoc len by (simp add: ping_times)
  qed (simp add: deadline)
  have "t < t0 + int (length ts) * pingPeriod + pongWait"
  proof (cases "length ts = length pongs")
    case False
    then have "length ts < length pongs" using len by simp
    moreover from this have "\<not> pongs ! length ts \<le> t"
      unfolding ts_def by (rule nth_length_takeWhile)
    ultimately show ?thesis using pong(2) [of "length ts"] by (simp add: ping_times)
  qed (use assms(2) in simp)
  with late show ?thesis unfolding readable_def ts_def by linarith
qed

lemma read_deadline_cases:
  "read_deadline d ts = d \<or> (\<exists>p \<in> set ts. read_deadline d ts = p + pongWait)"
  by (induction d ts rule: read_deadline.induct) auto

lemma readable_sign_of_life:
  assumes "readable t0 pongs t"
  shows "t < t0 + pongWait \<or> (\<exists>p \<in> set pongs. p \<le> t \<and> t < p + pongWait)"
  using assms read_deadline_cases [of "t0 + pongWait" "takeWhile (\<lambda>p. p \<le> t) pongs"]
  unfolding readable_def by (auto dest: set_takeWhileD)

end
