(* ===== verification/Transport_Theorems.thy ===== *)
theory Transport_Theorems
  imports Sample_Run Server_Props Pumps
begin

text \<open>
  The properties of the transport: what errors and states look like on the wire, which requests
  reach the use cases, that HTTP and sockets are two ways to the same operations, and how the hub
  delivers events.
\<close>

section \<open>On the wire\<close>

text \<open>C36. However deep an error is wrapped, a client sees the code and the message of the domain
  error at its root with a 4xx status, and of any other error nothing but a general internal
  error with status 500. Every error has one of these two forms.\<close>

theorem errors_on_wire:
  "classify (foldr Wrap ctxs (Domain de)) =
     (statusFor (Code de), \<lparr>er_Code = Code de, er_Message = Message de\<rparr>)
   \<and> statusFor (Code de) \<in> {400, 401, 404, 409}
   \<and> classify (foldr Wrap ctxs (Opaque msg)) = (500, internal_error)
   \<and> (\<exists>ctxs de msg. err = foldr Wrap ctxs (Domain de) \<or> err = foldr Wrap ctxs (Opaque msg))"
proof (intro conjI)
  have root: "errors_As (foldr Wrap ctxs e) = errors_As e" for e
    by (induction ctxs) simp_all
  show "classify (foldr Wrap ctxs (Domain de)) =
      (statusFor (Code de), \<lparr>er_Code = Code de, er_Message = Message de\<rparr>)"
    by (simp add: classify_def root)
  show "classify (foldr Wrap ctxs (Opaque msg)) = (500, internal_error)"
    by (simp add: classify_def root)
  show "\<exists>ctxs de msg. err = foldr Wrap ctxs (Domain de) \<or> err = foldr Wrap ctxs (Opaque msg)"
  proof (induction err)
    case (Domain de)
    show ?case by (rule exI [of _ "[]"]) auto
  next
    case (Opaque msg)
    show ?case by (rule exI [of _ "[]"]) auto
  next
    case (Wrap ctx e)
    then obtain ctxs de msg where "e = foldr Wrap ctxs (Domain de) \<or> e = foldr Wrap ctxs (Opaque msg)"
      by blast
    then show ?case by (intro exI [of _ "ctx # ctxs"] exI [of _ de] exI [of _ msg]) auto
  qed
qed (rule statusFor_range)

text \<open>Nothing of a match state is lost on the wire: two states with boards of nine cells that
  look the same to a client are the same state.\<close>

lemma wire_state_faithful:
  assumes "wf_board (s_Cells s)" and "wf_board (s_Cells t)" and "newMatchState s = newMatchState t"
  shows "s = t"
  using assms(3) cells_inj [OF assms(1,2)]
  by (intro MatchState.equality)
    (auto simp: newMatchState_def dest: markString_inj Status_String_inj outcomeString_inj)

section \<open>Requests\<close>

text \<open>C35. The routes that act for a player let nothing through without a token that verifies: the
  answer is 401 with \<open>MISSING_TOKEN\<close> or \<open>INVALID_TOKEN\<close>, and the queue, the games, the stores
  and the sockets stay as they were.\<close>

theorem protected_routes:
  assumes "route_of r = Inr rt" and "protected rt" and "playerOf dp r (sv_world s) = Inl e"
  shows "\<exists>err \<in> {errMissingToken, ErrInvalidToken}.
    handle dp r s =
      (\<lparr>rs_Status = 401, rs_Body = ErrorBody \<lparr>er_Code = Code err, er_Message = Message err\<rparr>\<rparr>, s)"
proof -
  have "handle dp r s = (writeError e, s)"
    using protected_rejects [OF assms(2,3)] assms(1) by (simp add: handle_def)
  with playerOf_Inl [OF assms(3)] show ?thesis
    by (auto simp: writeError_Domain statusFor_def)
qed

theorem protected_routes_witness:
  "rs_Status (fst (handle (srv_deps demo) (post ''/match/move'' ''Basic x'' None (Some 4)) playing)) = 401
   \<and> snd (handle (srv_deps demo) (post ''/match/move'' ''Basic x'' None (Some 4)) playing) = playing"
proof -
  let ?r = "post ''/match/move'' ''Basic x'' None (Some 4)"
  have "route_of ?r = Inr Move" by (simp add: route_of_def patterns_def method_matches_def)
  moreover have "playerOf (srv_deps demo) ?r (sv_world playing) = Inl (Domain errMissingToken)"
    by (simp add: playerOf_def CutPrefix_def bearer_def)
  ultimately show ?thesis using protected_routes [of ?r Move] by fastforce
qed

text \<open>Asking changes nothing: health checks, logins, the leaderboard, the state of the own match
  and every request no route answers leave the queue, the games, the stores and the sockets as
  they are.\<close>

lemma queries_change_nothing:
  assumes "case route_of r of Inl status \<Rightarrow> True | Inr rt \<Rightarrow> rt \<in> {Health, Login, LeaderboardR, State}"
  shows "snd (handle dp r s) = s \<and> (\<forall>status. route_of r = Inl status \<longrightarrow> status \<in> {404, 405})"
proof (cases "route_of r")
  case (Inl status)
  then have "status \<in> {404, 405}" by (simp add: route_of_def split: option.splits prod.splits if_splits)
  with Inl show ?thesis by (simp add: handle_def)
next
  case (Inr rt)
  with assms show ?thesis
    by (auto simp: handle_def handleHealth_def handleLogin_def handleLeaderboard_def
        authenticated_def handleState_def Let_def split: option.split sum.split)
qed

definition same_answer :: "(goerr + frame) \<times> 's \<Rightarrow> Response \<times> 's \<Rightarrow> bool" where
  "same_answer sock http \<longleftrightarrow>
     snd sock = snd http
     \<and> (case fst sock of Inl e \<Rightarrow> fst http = writeError e | Inr f \<Rightarrow> rs_Status (fst http) < 300)"

text \<open>C34. A command on a socket and the request on its HTTP route are the same operation: they
  leave the same state, the socket is sent an error exactly when the request is answered with
  the response for that error, and otherwise the response has a success status.\<close>

theorem socket_agrees_with_http:
  "same_answer (client_dispatch dp i \<lparr>cmd_Type = cmdJoin, cmd_Cell = c\<rparr> s) (handleJoin dp i s)
   \<and> same_answer (client_dispatch dp i \<lparr>cmd_Type = cmdLeave, cmd_Cell = c\<rparr> s) (handleLeave i s)
   \<and> same_answer (client_dispatch dp i \<lparr>cmd_Type = cmdMove, cmd_Cell = c\<rparr> s)
       (handleMove dp (r\<lparr>rq_Cell := Some c\<rparr>) i s)
   \<and> same_answer (client_dispatch dp i \<lparr>cmd_Type = cmdResign, cmd_Cell = c\<rparr> s) (handleResign dp i s)
   \<and> same_answer (client_dispatch dp i \<lparr>cmd_Type = cmdState, cmd_Cell = c\<rparr> s) (handleState i s)"
proof (intro conjI)
  show "same_answer (client_dispatch dp i \<lparr>cmd_Type = cmdJoin, cmd_Cell = c\<rparr> s) (handleJoin dp i s)"
    by (cases "server_join dp i s"; cases "fst (server_join dp i s)")
      (simp_all add: same_answer_def client_dispatch_def handleJoin_def cmd_defs writeJSON_def)
  show "same_answer (client_dispatch dp i \<lparr>cmd_Type = cmdLeave, cmd_Cell = c\<rparr> s) (handleLeave i s)"
    by (simp add: same_answer_def client_dispatch_def handleLeave_def cmd_defs writeJSON_def Let_def)
  show "same_answer (client_dispatch dp i \<lparr>cmd_Type = cmdMove, cmd_Cell = c\<rparr> s)
      (handleMove dp (r\<lparr>rq_Cell := Some c\<rparr>) i s)"
    by (cases "server_move dp i c s"; cases "fst (server_move dp i c s)")
      (simp_all add: same_answer_def client_dispatch_def handleMove_def decode_body_def cmd_defs
        writeJSON_def)
  show "same_answer (client_dispatch dp i \<lparr>cmd_Type = cmdResign, cmd_Cell = c\<rparr> s) (handleResign dp i s)"
    by (simp add: same_answer_def client_dispatch_def handleResign_def cmd_defs)
  show "same_answer (client_dispatch dp i \<lparr>cmd_Type = cmdState, cmd_Cell = c\<rparr> s) (handleState i s)"
    by (cases "Games_State i (sv_games s)")
      (simp_all add: same_answer_def client_dispatch_def handleState_def cmd_defs writeJSON_def)
qed

section \<open>Events\<close>

text \<open>Notifying never blocks and touches no socket but the one the player is registered with:
  a socket with room in its buffer has the frame appended, one whose buffer of sixteen is full is
  closed instead, a closed one stays as it is, and a player who is offline misses the event.\<close>

lemma notify_effect:
  assumes "hub_inv h"
  shows "h_clients (Hub_Notify i ev h) = h_clients h
    \<and> h_heap (Hub_Notify i ev h) =
        (case map_of (h_clients h) i of
           None \<Rightarrow> h_heap h
         | Some k \<Rightarrow>
             (h_heap h)(k := map_option (\<lambda>c.
                if c_done c then c
                else if length (c_send c) < 16 then c\<lparr>c_send := c_send c @ [eventFrame ev]\<rparr>
                else c\<lparr>c_done := True\<rparr>) (h_heap h k)))"
proof (cases "map_of (h_clients h) i")
  case None
  then show ?thesis by (simp add: Hub_Notify_def)
next
  case (Some k)
  then obtain c where "h_heap h k = Some c" using hub_invD(2) [OF assms] by blast
  with Some show ?thesis
    by (auto simp: Hub_Notify_def heap_push_def client_push_def heap_close_def client_close_def
        sendBuffer_def)
qed

section \<open>The pumps\<close>

text \<open>C37. What reaches a player keeps its order and loses nothing in the middle: whenever frames are
  pushed, the writing goroutine runs and somebody closes the socket, the frames handed to the
  connection are the accepted ones in their order up to the at most sixteen still buffered. The
  closing message is sent at most once and last, the goroutine returns only with the socket
  closed, a returned goroutine writes nothing more, and a closed socket accepts nothing more.\<close>

theorem frames_in_order:
  "let p = run_pump es (new_pump i); q = run_pump (es @ es') (new_pump i) in
    pm_accepted p = texts (pm_written p) @ c_send (pm_client p)
    \<and> length (c_send (pm_client p)) \<le> 16
    \<and> CloseMessage \<notin> set (butlast (pm_written p))
    \<and> (CloseMessage \<notin> set (pm_written p) \<or> last (pm_written p) = CloseMessage \<and> \<not> pm_running p)
    \<and> (pm_running p \<or> c_done (pm_client p) \<and> pm_written q = pm_written p)
    \<and> (\<not> c_done (pm_client p) \<or> pm_accepted q = pm_accepted p)"
proof -
  define p where "p = run_pump es (new_pump i)"
  have "pump_inv p" unfolding p_def by (rule run_pump_inv [OF pump_inv_new])
  moreover have "run_pump (es @ es') (new_pump i) = run_pump es' p"
    by (simp add: p_def run_pump_def)
  ultimately show ?thesis
    using returned_pump [of p es'] closed_client [of p es']
    by (auto simp: Let_def pump_inv_def sendBuffer_def simp flip: p_def)
qed

text \<open>Two frames are pushed, one is written, the socket is closed, and the goroutine returns.\<close>

theorem frames_in_order_witness:
  "let p = run_pump [Pushed (ack cmdJoin), Pushed (ack cmdLeave), Pumped SendReady True 0, Closed,
        Pumped DoneReady True 0] (new_pump ''1'')
   in pm_written p = [TextMessage (ack cmdJoin), CloseMessage] \<and> c_send (pm_client p) = [ack cmdLeave]
     \<and> pm_accepted p = [ack cmdJoin] @ [ack cmdLeave]
     \<and> pm_written (run_pump [Pumped SendReady True 1] p) = pm_written p"
proof -
  define es where "es = [Pushed (ack cmdJoin), Pushed (ack cmdLeave), Pumped SendReady True 0, Closed,
    Pumped DoneReady True 0]"
  have p: "pm_written (run_pump es (new_pump ''1'')) = [TextMessage (ack cmdJoin), CloseMessage]"
    "c_send (pm_client (run_pump es (new_pump ''1''))) = [ack cmdLeave]"
    "\<not> pm_running (run_pump es (new_pump ''1''))"
    by (simp_all add: es_def run_pump_def new_pump_def new_client_def client_push_def
        client_close_def sendBuffer_def)
  have "run_pump (es @ [Pumped SendReady True 1]) (new_pump ''1'') =
      run_pump [Pumped SendReady True 1] (run_pump es (new_pump ''1''))"
    by (simp add: run_pump_def)
  with frames_in_order [of es "''1''" "[Pumped SendReady True 1]"] p show ?thesis
    unfolding es_def [symmetric] by (auto simp: Let_def texts_def)
qed

text \<open>A socket lives as long as its player answers. Opened at a time, it stays readable for
  ever on a client that answers each ping within six seconds, up to a minute after the last ping
  it answered; and it is readable only within a minute of the opening or of a pong, whatever
  commands the player sends, so a peer that is gone is found out.\<close>

lemma keepalive:
  "(answers_pings t0 pongs \<and> t < t0 + int (length pongs) * pingPeriod + pongWait \<longrightarrow> readable t0 pongs t)
   \<and> (readable t0 others t \<longrightarrow> t < t0 + seconds 60 \<or> (\<exists>p \<in> set others. p \<le> t \<and> t < p + seconds 60))"
  using answered_readable [of t0 pongs t] readable_sign_of_life [of t0 others t]
  by (simp add: pongWait_def)

text \<open>C30. When a player reconnects, the new socket replaces the old one in the hub, and the end of
  the old socket leaves that entry alone. But the teardown of the old socket also leaves the
  queue and abandons the match of the player, who is connected: the match is gone for both
  players although nobody is.\<close>

theorem old_socket_ends_match:
  assumes "sqlite_server x" and "reachable_server x s"
    and "h_heap (w_hub (sv_world s)) old = Some c" and "c_id c = i"
    and "map_of (h_clients (w_hub (sv_world s))) i = Some new" and "new \<noteq> old"
  shows "map_of (h_clients (w_hub (sv_world (readPump_exit x old i s)))) i = Some new
    \<and> queue (sv_mm (readPump_exit x old i s)) = remove1 i (queue (sv_mm s))
    \<and> (\<forall>q. Games_lookup (sv_games (readPump_exit x old i s)) q =
         (if same_game (sv_games s) i q then None else Games_lookup (sv_games s) q))"
proof (rule reachable_sqlite [OF assms(1,2)])
  fix good listing
  assume W: "wired x good listing" and inv: "world_inv x good (sv_games s) (sv_world s)"
  note I = world_invD [OF inv]
  let ?s1 = "server_leave i (on_hub (\<lambda>h. heap_close old (Hub_unregister old i h)) s)"
  have exit: "readPump_exit x old i s = server_abandon (srv_deps x) i ?s1"
    by (rule wired.readPump_exit_eq [OF W I(3) assms(3,4)])
  obtain g w where run: "Games_Abandon (srv_games x) i (sv_games ?s1, sv_world ?s1) = (g, w)"
    by fastforce
  have s1: "sv_games ?s1 = sv_games s" "h_clients (w_hub (sv_world ?s1)) = h_clients (w_hub (sv_world s))"
    "queue (sv_mm ?s1) = remove1 i (queue (sv_mm s))"
    using assms(5,6)
    by (simp_all add: server_leave_def on_hub_def Hub_unregister_def Leave_remove1)
  have "h_clients (w_hub w) = h_clients (w_hub (sv_world ?s1))"
    using run by (auto simp: Games_Abandon_def Let_def srv_games_def srv_notifier_def split: option.splits)
  with run s1 assms(5) Abandon_isolated [OF I(1), of "srv_games x" i "sv_world ?s1" g w] show ?thesis
    by (simp add: exit server_abandon_def srv_deps_def)
qed

text \<open>Ann opens a second socket during her match, and then the first one ends.\<close>

theorem old_socket_ends_match_witness:
  "\<exists>s. reachable_server demo s \<and> Games_lookup (sv_games s) ''1'' = Some first_match
     \<and> map_of (h_clients (w_hub (sv_world s))) ''1'' = Some 1
     \<and> map_of (h_clients (w_hub (sv_world (readPump_exit demo 0 ''1'' s)))) ''1'' = Some 1
     \<and> Games_lookup (sv_games (readPump_exit demo 0 ''1'' s)) ''1'' = None"
proof -
  define s2 where "s2 = snd (handleWS demo ws_request 1 one_socket)"
  have hub2: "w_hub (sv_world s2) = Hub_connect 1 ''1'' (Hub_connect 0 ''1'' NewHub)"
    "sv_games s2 = playing_games"
    by (simp_all add: s2_def handleWS_def ws_token one_socket_sel)
  have reach: "reachable_server demo s2"
    unfolding s2_def
    by (rule reachable_server.step [OF one_socket_reachable server_step.socket])
      (simp add: one_socket_sel connect_sel NewHub_def Let_def)
  have new: "map_of (h_clients (w_hub (sv_world s2))) ''1'' = Some 1"
    by (simp add: hub2 connect_sel)
  have old: "h_heap (w_hub (sv_world s2)) 0 = Some (client_close (new_client ''1''))"
    by (simp add: hub2 connect_sel Let_def NewHub_def)
  have "c_id (client_close (new_client ''1'')) = ''1''"
    by (simp add: client_close_def new_client_def)
  from old_socket_ends_match [OF demo_server reach old this new]
  have "map_of (h_clients (w_hub (sv_world (readPump_exit demo 0 ''1'' s2)))) ''1'' = Some 1"
    "Games_lookup (sv_games (readPump_exit demo 0 ''1'' s2)) ''1'' = None"
    by (simp_all add: hub2 same_game_def playing_games_def)
  with reach new show ?thesis
    by (intro exI [of _ s2]) (simp add: hub2 playing_games_def Games_lookup_def)
qed

end
