(* ===== verification/Interleavings.thy ===== *)
theory Interleavings
  imports Server_Inv
begin

text \<open>
  Joins, moves and abandons that overlap. \<open>Matchmaking\<close> and \<open>Games\<close> each have one mutex; an
  operation is a sequence of critical sections and of calls made with no lock held:

  \<^item> \<open>Join\<close>: the check \<open>InMatch\<close>; the section on the queue; \<open>Start\<close>.
  \<^item> \<open>Start\<close>: reading both players and drawing an id; one section that inserts the match,
    saves it and notifies (the source holds the lock to the end).
  \<^item> \<open>Move\<close>: one section that plays, decides and snapshots; then, unlocked, the save of the
    match, for each result the load and the save of the player, and the notifications.
  \<^item> \<open>Abandon\<close>: one section that drops the match; then the notification.

  What an operation still has to do is a \<open>task\<close>; a step starts an operation or runs the next
  piece of any task. The equations \<open>Join_sections\<close>, \<open>Start_sections\<close>, \<open>Move_sections\<close> and
  \<open>Abandon_sections\<close> say that the pieces run one after the other are the operations of the
  theories \<open>Games_Model\<close> and \<open>Matchmaking_Model\<close>.
\<close>

section \<open>The critical sections\<close>

definition Join_section ::
  "PlayerID \<Rightarrow> Matchmaking \<Rightarrow> goerr option \<times> (PlayerID \<times> PlayerID) option \<times> Matchmaking" where
  "Join_section p m =
     (if slices_Contains (queue m) p then (Some (Domain ErrAlreadyQueued), None, m)
      else (let m1 = m\<lparr>queue := queue m @ [p]\<rparr>
            in if length (queue m1) < 2 then (None, None, m1)
               else (None, Some (queue m1 ! 0, queue m1 ! 1),
                     m1\<lparr>queue := slices_Delete (queue m1) 0 2\<rparr>)))"

definition Start_section ::
  "'w GamesDeps \<Rightarrow> MatchID \<Rightarrow> Player \<Rightarrow> Player \<Rightarrow> PlayerID \<Rightarrow> PlayerID \<Rightarrow> Games \<times> 'w \<Rightarrow>
   goerr option \<times> Games \<times> 'w" where
  "Start_section d mid xPlayer oPlayer px po gw =
     (case gw of (g, w) \<Rightarrow>
      case NewMatch mid px po of
        Inl e \<Rightarrow> (Some (Domain e), g, w)
      | Inr m \<Rightarrow>
          (let am = \<lparr>am_match = m, am_names = [px \<mapsto> p_Name xPlayer, po \<mapsto> p_Name oPlayer]\<rparr>
           in if byPlayer g px \<noteq> None then (Some (Domain ErrAlreadyInMatch), g, w)
              else if byPlayer g po \<noteq> None then (Some (Domain ErrAlreadyInMatch), g, w)
              else (None,
                    g\<lparr>active := (active g)(Match_ID m \<mapsto> am),
                      byPlayer := (byPlayer g)(px \<mapsto> Match_ID m, po \<mapsto> Match_ID m)\<rparr>,
                    Games_dispatch d (am_events am EventMatchStarted)
                      (Games_persist d (am_record am) w))))"

definition Move_section ::
  "PlayerID \<Rightarrow> int \<Rightarrow> Games \<Rightarrow>
   (goerr + MatchState \<times> MatchRecord \<times> result list \<times> addressed list) \<times> Games" where
  "Move_section p cell g =
     (case byPlayer g p of
        None \<Rightarrow> (Inl (Domain ErrNoActiveMatch), g)
      | Some mid \<Rightarrow>
      case active g mid of
        None \<Rightarrow> (Inl (Domain ErrNoActiveMatch), g)
      | Some am \<Rightarrow>
      case Match_ApplyMove (am_match am) p cell of
        (Some e, m1) \<Rightarrow> (Inl (Domain e), g\<lparr>active := (active g)(mid \<mapsto> am\<lparr>am_match := m1\<rparr>)\<rparr>)
      | (None, m1) \<Rightarrow>
          (let am1 = am\<lparr>am_match := m1\<rparr>;
               g1 = g\<lparr>active := (active g)(mid \<mapsto> am1)\<rparr>;
               finished = Status_IsFinished (Match_Status m1)
           in (Inr (am_stateFor am1 p, am_record am1, if finished then am_results am1 else [],
                    am_events am1 (if finished then EventMatchEnded else EventStateChanged)),
               if finished then Games_forget g1 am1 else g1)))"

definition Abandon_section :: "PlayerID \<Rightarrow> Games \<Rightarrow> addressed option \<times> Games" where
  "Abandon_section p g =
     (case Games_lookup g p of
        None \<Rightarrow> (None, g)
      | Some am \<Rightarrow>
          (let opponent = Match_Opponent (am_match am) p
           in (Some \<lparr>a_to = opponent, a_ev = \<lparr>ev_Type = EventOpponentLeft,
                 ev_MatchID = Match_ID (am_match am), ev_State = am_stateFor am opponent\<rparr>\<rparr>,
               Games_forget g am)))"

lemma Join_sections:
  "Matchmaking_Join ms p (m, v) =
     (if mm_InMatch ms p v then (Some (Domain ErrAlreadyInMatch), m, v)
      else case Join_section p m of
        (e, None, m1) \<Rightarrow> (e, m1, v)
      | (e, Some (px, po), m1) \<Rightarrow> (case mm_Start ms px po v of (e, v1) \<Rightarrow> (e, m1, v1)))"
  by (simp add: Matchmaking_Join_def Join_section_def Let_def)

lemma Start_sections:
  "Games_Start d px po (g, w) =
     (case rec_ByID (d_players d) px w of
        Inl e \<Rightarrow> (Some e, g, w)
      | Inr xp \<Rightarrow>
      case rec_ByID (d_players d) po w of
        Inl e \<Rightarrow> (Some e, g, w)
      | Inr op \<Rightarrow>
      case g_NewID (d_ids d) w of (mid, w1) \<Rightarrow> Start_section d mid xp op px po (g, w1))"
  by (simp add: Games_Start_def Start_section_def Let_def split: sum.split prod.split)

lemma Move_sections:
  "Games_Move d p c (g, w) =
     (case Move_section p c g of
        (Inl e, g1) \<Rightarrow> (Inl e, g1, w)
      | (Inr (st, r, results, evs), g1) \<Rightarrow>
          (Inr st, g1, Games_dispatch d evs (fold (Games_record d) results (Games_persist d r w))))"
  by (simp add: Games_Move_def Move_section_def Let_def split: option.split prod.split)

lemma Abandon_sections:
  "Games_Abandon d p (g, w) =
     (case Abandon_section p g of
        (None, g1) \<Rightarrow> (g1, w)
      | (Some a, g1) \<Rightarrow> (g1, n_Notify (d_notifier d) (a_to a) (a_ev a) w))"
  by (simp add: Games_Abandon_def Abandon_section_def Let_def split: option.split)

section \<open>Tasks\<close>

datatype task =
  Enqueue PlayerID
| ReadPlayers PlayerID PlayerID
| LockedStart MatchID Player Player PlayerID PlayerID
| SaveMatch MatchRecord "result list" "addressed list"
| LoadPlayer result "result list" "addressed list"
| SavePlayer result Player "result list" "addressed list"
| NotifyAll "addressed list"

definition after_save :: "result list \<Rightarrow> addressed list \<Rightarrow> task" where
  "after_save results evs =
     (case results of [] \<Rightarrow> NotifyAll evs | r # rs \<Rightarrow> LoadPlayer r rs evs)"

text \<open>The next piece of a task: the tasks that remain of it, and the state it leaves.\<close>

fun run_task ::
  "'w GamesDeps \<Rightarrow> task \<Rightarrow> Matchmaking \<times> Games \<times> 'w \<Rightarrow> task list \<times> Matchmaking \<times> Games \<times> 'w" where
  "run_task d (Enqueue p) (m, g, w) =
     (case Join_section p m of
        (e, None, m1) \<Rightarrow> ([], m1, g, w)
      | (e, Some (px, po), m1) \<Rightarrow> ([ReadPlayers px po], m1, g, w))"
| "run_task d (ReadPlayers px po) (m, g, w) =
     (case rec_ByID (d_players d) px w of
        Inl e \<Rightarrow> ([], m, g, w)
      | Inr xp \<Rightarrow>
      case rec_ByID (d_players d) po w of
        Inl e \<Rightarrow> ([], m, g, w)
      | Inr op \<Rightarrow>
      case g_NewID (d_ids d) w of (mid, w1) \<Rightarrow> ([LockedStart mid xp op px po], m, g, w1))"
| "run_task d (LockedStart mid xp op px po) (m, g, w) =
     (case Start_section d mid xp op px po (g, w) of (e, g1, w1) \<Rightarrow> ([], m, g1, w1))"
| "run_task d (SaveMatch r results evs) (m, g, w) =
     ([after_save results evs], m, g, Games_persist d r w)"
| "run_task d (LoadPlayer r results evs) (m, g, w) =
     (case rec_ByID (d_players d) (res_player r) w of
        Inl e \<Rightarrow> ([after_save results evs], m, g,
          log_Error (d_log d) ''load player for stats'' (res_player r) e w)
      | Inr p \<Rightarrow> ([SavePlayer r (Player_Record p (res_outcome r)) results evs], m, g, w))"
| "run_task d (SavePlayer r p results evs) (m, g, w) =
     (case rec_Save (d_players d) p w of
        (None, w1) \<Rightarrow> ([after_save results evs], m, g, w1)
      | (Some e, w1) \<Rightarrow> ([after_save results evs], m, g,
          log_Error (d_log d) ''save player stats'' (res_player r) e w1))"
| "run_task d (NotifyAll []) (m, g, w) = ([], m, g, w)"
| "run_task d (NotifyAll (e # evs)) (m, g, w) =
     ([NotifyAll evs], m, g, n_Notify (d_notifier d) (a_to e) (a_ev e) w)"

record 's Conf =
  cf_mm :: Matchmaking
  cf_games :: Games
  cf_world :: "'s World"
  cf_tasks :: "task list"

inductive cstep :: "'s Ext \<Rightarrow> 's Conf \<Rightarrow> 's Conf \<Rightarrow> bool" for x where
  join: "\<not> Games_InMatch p (cf_games k) \<Longrightarrow> cstep x k (k\<lparr>cf_tasks := cf_tasks k @ [Enqueue p]\<rparr>)"
| leave: "cstep x k (k\<lparr>cf_mm := Matchmaking_Leave p (cf_mm k)\<rparr>)"
| move: "Move_section p c (cf_games k) = (Inr (st, r, results, evs), g1) \<Longrightarrow>
    cstep x k (k\<lparr>cf_games := g1, cf_tasks := cf_tasks k @ [SaveMatch r results evs]\<rparr>)"
| abandon: "Abandon_section p (cf_games k) = (Some a, g1) \<Longrightarrow>
    cstep x k (k\<lparr>cf_games := g1, cf_tasks := cf_tasks k @ [NotifyAll [a]]\<rparr>)"
| run: "cf_tasks k = before @ t # after \<Longrightarrow>
    run_task (srv_games x) t (cf_mm k, cf_games k, cf_world k) = (ts, m1, g1, w1) \<Longrightarrow>
    cstep x k \<lparr>cf_mm = m1, cf_games = g1, cf_world = w1, cf_tasks = before @ ts @ after\<rparr>"

definition quiet :: "'s World Server \<Rightarrow> 's Conf" where
  "quiet s = \<lparr>cf_mm = sv_mm s, cf_games = sv_games s, cf_world = sv_world s, cf_tasks = []\<rparr>"

text \<open>
  A step that only refuses (a player who is in a match already, a move the match rejects, an
  abandon without a match) changes nothing and is left out. Runs start from a state the
  server reaches, with no operation under way.
\<close>

inductive reachable_conf :: "'s Ext \<Rightarrow> 's Conf \<Rightarrow> bool" for x where
  quiet: "reachable_server x s \<Longrightarrow> reachable_conf x (quiet s)"
| step: "reachable_conf x k \<Longrightarrow> cstep x k k' \<Longrightarrow> reachable_conf x k'"

section \<open>What holds under every interleaving\<close>

fun task_ids :: "task \<Rightarrow> MatchID list" where
  "task_ids (LockedStart mid xp op px po) = [mid]"
| "task_ids _ = []"

definition pending :: "task list \<Rightarrow> MatchID list" where
  "pending ts = concat (map task_ids ts)"

lemma pending_simps [simp]:
  "pending [] = []" "pending (t # ts) = task_ids t @ pending ts"
  "pending (ts @ us) = pending ts @ pending us"
  by (simp_all add: pending_def)

lemma after_save_ids [simp]: "task_ids (after_save rs evs) = []"
  by (simp add: after_save_def split: list.split)

text \<open>Ids drawn for matches about to start are different and in no match yet.\<close>

definition conf_inv :: "'s Ext \<Rightarrow> 's Conf \<Rightarrow> bool" where
  "conf_inv x k \<longleftrightarrow>
     games_inv (cf_games k) \<and> length (queue (cf_mm k)) \<le> 1
     \<and> distinct (pending (cf_tasks k))
     \<and> set (pending (cf_tasks k)) \<inter> dom (active (cf_games k)) = {}
     \<and> set (pending (cf_tasks k)) \<union> dom (active (cf_games k)) \<subseteq> used_ids x (cf_world k)"

lemma Move_active_dom:
  assumes "games_inv g" and "Games_Move d p c (g, w) = (r, g', w')"
  shows "dom (active g') \<subseteq> dom (active g)"
  using assms
proof (cases rule: Move_cases)
  case Running
  then show ?thesis by auto
next
  case Finishing
  then show ?thesis by (auto simp: forget_unfold)
qed auto

lemma Move_section_inv:
  assumes "games_inv g" and "Move_section p c g = (Inr (st, r, rs, evs), g1)"
  shows "games_inv g1 \<and> dom (active g1) \<subseteq> dom (active g)"
proof -
  have run: "Games_Move d p c (g, w) = (Inr st, g1,
      Games_dispatch d evs (fold (Games_record d) rs (Games_persist d r w)))" for d :: "'w GamesDeps" and w
    using assms(2) by (simp add: Move_sections)
  from Move_inv [OF assms(1) run] Move_active_dom [OF assms(1) run] show ?thesis ..
qed

lemma Abandon_section_inv:
  assumes "games_inv g" and "Abandon_section p g = (a, g1)"
  shows "games_inv g1 \<and> dom (active g1) \<subseteq> dom (active g)"
proof (cases "Games_lookup g p")
  case None
  with assms show ?thesis by (simp add: Abandon_section_def)
next
  case (Some am)
  obtain mid where "active g mid = Some am" using lookup_Some [OF assms(1) Some] .
  with Some assms forget_inv [OF assms(1)] show ?thesis
    by (auto simp: Abandon_section_def Let_def forget_unfold split: if_splits)
qed

lemma Start_section_cases:
  assumes "Start_section d mid xp op px po (g, w) = (e, g1, w1)"
  obtains "g1 = g" and "w1 = w"
  | "px \<noteq> po" and "byPlayer g px = None" and "byPlayer g po = None" and
      "g1 = g\<lparr>active := (active g)(mid \<mapsto> started mid xp op px po),
              byPlayer := (byPlayer g)(px \<mapsto> mid, po \<mapsto> mid)\<rparr>" and
      "w1 = Games_dispatch d (am_events (started mid xp op px po) EventMatchStarted)
              (Games_persist d (am_record (started mid xp op px po)) w)"
proof (cases "px \<noteq> po \<and> byPlayer g px = None \<and> byPlayer g po = None")
  case True
  with assms show thesis
    by (intro that(2))
      (auto simp: Start_section_def NewMatch_match_of Let_def match_simps started_def)
next
  case False
  with assms show thesis
    by (intro that(1)) (auto simp: Start_section_def NewMatch_def Let_def split: if_splits)
qed

lemma Join_section_length:
  "length (queue m) \<le> 1 \<Longrightarrow> length (queue (snd (snd (Join_section p m)))) \<le> 1"
  by (cases "queue m") (auto simp: Join_section_def slices_Delete_def Let_def)

lemma entropy_calls:
  "w_entropy w \<le> w_entropy (Games_persist (srv_games x) r w)"
  "w_entropy w \<le> w_entropy (Games_dispatch (srv_games x) evs w)"
  "w_entropy w \<le> w_entropy (n_Notify (d_notifier (srv_games x)) i ev w)"
  "w_entropy w \<le> w_entropy (log_Error (d_log (srv_games x)) msg i e w)"
  "rec_Save (d_players (srv_games x)) p w = (err, w1) \<Longrightarrow> w_entropy w \<le> w_entropy w1"
  using persist_keeps [OF srv_keeps_entropy order_refl] dispatch_keeps [OF srv_keeps_entropy order_refl]
  by (auto simp: srv_defs split: prod.splits)

lemma conf_inv_frame:
  assumes "conf_inv x k" and "games_inv g1" and "dom (active g1) \<subseteq> dom (active (cf_games k))"
    and "length (queue m1) \<le> 1" and "w_entropy (cf_world k) \<le> w_entropy w1"
    and "pending ts = pending (cf_tasks k)"
  shows "conf_inv x \<lparr>cf_mm = m1, cf_games = g1, cf_world = w1, cf_tasks = ts\<rparr>"
  using assms used_ids_mono [OF assms(5), of x] unfolding conf_inv_def
  by (simp add: subset_iff disjoint_iff) blast

lemma run_task_inv:
  assumes "inj (ext_uuid x)" and inv: "conf_inv x k" and tasks: "cf_tasks k = before @ t # after"
    and run: "run_task (srv_games x) t (cf_mm k, cf_games k, cf_world k) = (ts, m1, g1, w1)"
  shows "conf_inv x \<lparr>cf_mm = m1, cf_games = g1, cf_world = w1, cf_tasks = before @ ts @ after\<rparr>"
proof -
  have I: "games_inv (cf_games k)" "length (queue (cf_mm k)) \<le> 1"
    using inv by (simp_all add: conf_inv_def)
  note frame = conf_inv_frame [OF inv]
  show ?thesis
  proof (cases t)
    case (Enqueue p)
    then have "m1 = snd (snd (Join_section p (cf_mm k)))" "g1 = cf_games k" "w1 = cf_world k"
      "pending ts = []"
      using run by (auto split: prod.splits option.splits)
    with I Join_section_length [OF I(2)] show ?thesis
      by (intro frame) (simp_all add: tasks Enqueue)
  next
    case (ReadPlayers px po)
    let ?id = "ext_uuid x (w_entropy (cf_world k))"
    have newid: "g_NewID (d_ids (srv_games x)) (cf_world k) =
        (?id, (cf_world k)\<lparr>w_entropy := Suc (w_entropy (cf_world k))\<rparr>)"
      by (simp add: srv_defs)
    have kept: "m1 = cf_mm k" "g1 = cf_games k"
      using run newid by (auto simp: ReadPlayers split: sum.splits)
    have "ts = [] \<and> w1 = cf_world k \<or> (\<exists>xp op. ts = [LockedStart ?id xp op px po]
        \<and> w1 = (cf_world k)\<lparr>w_entropy := Suc (w_entropy (cf_world k))\<rparr>)"
      using run newid by (auto simp: ReadPlayers split: sum.splits)
    then consider "ts = []" "w1 = cf_world k"
      | xp op where "ts = [LockedStart ?id xp op px po]"
          "w1 = (cf_world k)\<lparr>w_entropy := Suc (w_entropy (cf_world k))\<rparr>"
      by blast
    then show ?thesis
    proof cases
      case 1
      with I kept show ?thesis by (intro frame) (simp_all add: tasks ReadPlayers)
    next
      case 2
      have fresh: "?id \<notin> used_ids x (cf_world k)" by (rule fresh_uuid [OF assms(1)])
      have used: "used_ids x w1 = insert ?id (used_ids x (cf_world k))"
        by (auto simp: used_ids_def 2 lessThan_Suc)
      have old: "distinct (pending before @ pending after)"
        "set (pending before) \<union> set (pending after) \<subseteq> used_ids x (cf_world k)"
        "dom (active (cf_games k)) \<subseteq> used_ids x (cf_world k)"
        "(set (pending before) \<union> set (pending after)) \<inter> dom (active (cf_games k)) = {}"
        using inv by (simp_all add: conf_inv_def tasks ReadPlayers)
      have "distinct (pending before @ ?id # pending after)"
        using old(1,2) fresh by auto
      moreover have "?id \<notin> dom (active (cf_games k))" using old(3) fresh by blast
      ultimately show ?thesis
        using I old used 2 kept unfolding conf_inv_def by simp blast
    qed
  next
    case (LockedStart mid xp op px po)
    from run obtain e where
      start: "Start_section (srv_games x) mid xp op px po (cf_games k, cf_world k) = (e, g1, w1)"
      and rest: "m1 = cf_mm k" "ts = []"
      by (auto simp: LockedStart split: prod.splits)
    from start show ?thesis
    proof (cases rule: Start_section_cases)
      case 1
      have "conf_inv x (k\<lparr>cf_tasks := before @ after\<rparr>)"
        using inv by (auto simp: conf_inv_def tasks LockedStart)
      with 1 rest show ?thesis by (simp add: conf_inv_def)
    next
      case 2
      have fresh: "active (cf_games k) mid = None"
        using inv by (auto simp: conf_inv_def tasks LockedStart)
      have "games_inv g1"
        using insert_inv [OF I(1) fresh started_live [OF 2(1), of mid xp op]] 2(2-4) by simp
      moreover have "used_ids x (cf_world k) \<subseteq> used_ids x w1"
        unfolding 2(5) by (rule used_ids_mono) (rule order_trans [OF entropy_calls(1,2)])
      ultimately show ?thesis
        using inv rest 2(4) by (auto simp: conf_inv_def tasks LockedStart)
    qed
  next
    case (SaveMatch r rs evs)
    with run I entropy_calls show ?thesis by (intro frame) (auto simp: tasks)
  next
    case (LoadPlayer r rs evs)
    with run I entropy_calls show ?thesis by (intro frame) (auto simp: tasks split: sum.splits)
  next
    case (SavePlayer r p rs evs)
    obtain err w2 where save: "rec_Save (d_players (srv_games x)) p (cf_world k) = (err, w2)"
      by fastforce
    with run I entropy_calls(5) [OF save] SavePlayer show ?thesis
      by (intro frame)
        (auto simp: tasks split: option.splits intro: order_trans [OF _ entropy_calls(4)])
  next
    case (NotifyAll evs)
    with run I entropy_calls show ?thesis by (intro frame; cases evs) (auto simp: tasks)
  qed
qed

lemma cstep_inv:
  assumes "inj (ext_uuid x)" and "conf_inv x k" and "cstep x k k'"
  shows "conf_inv x k'"
  using assms(3)
proof cases
  case (join p)
  with assms(2) show ?thesis by (simp add: conf_inv_def)
next
  case (leave p)
  with assms(2) show ?thesis by (simp add: conf_inv_def Leave_remove1 length_remove1)
next
  case (move p c st r rs evs g1)
  have I: "games_inv (cf_games k)" "length (queue (cf_mm k)) \<le> 1"
    using assms(2) by (simp_all add: conf_inv_def)
  from conf_inv_frame [OF assms(2), of g1 "cf_mm k" "cf_world k" "cf_tasks k @ [SaveMatch r rs evs]"]
    Move_section_inv [OF I(1) move(2)] I(2) show ?thesis
    by (simp add: move(1) conf_inv_def)
next
  case (abandon p a g1)
  have I: "games_inv (cf_games k)" "length (queue (cf_mm k)) \<le> 1"
    using assms(2) by (simp_all add: conf_inv_def)
  from conf_inv_frame [OF assms(2), of g1 "cf_mm k" "cf_world k" "cf_tasks k @ [NotifyAll [a]]"]
    Abandon_section_inv [OF I(1) abandon(2)] I(2) show ?thesis
    by (simp add: abandon(1) conf_inv_def)
next
  case (run before t after ts m1 g1 w1)
  from run_task_inv [OF assms(1,2) run(2,3)] run(1) show ?thesis by simp
qed

context wired
begin

lemma reachable_conf_inv:
  assumes "inj (ext_uuid x)" and "reachable_conf x k"
  shows "conf_inv x k"
  using assms(2)
proof induction
  case (quiet s)
  note I = server_invD [OF reachable_server_inv [OF assms(1) quiet]]
  have "dom (active (sv_games s)) \<subseteq> dom (srv_stored x (sv_world s))"
    using world_invD(4) [OF I(2)] by (auto simp: durable_def)
  with world_invD(1,5) [OF I(2)] I(1) show ?case
    by (auto simp: conf_inv_def quiet_def queue_inv_def)
next
  case (step k k')
  from cstep_inv [OF assms(1) step(3,2)] show ?case .
qed

end

end
