(* ===== verification/Schedules.thy ===== *)
theory Schedules
  imports Interleavings
begin

text \<open>
  Two more views of the interleavings: configurations whose surroundings are arbitrary, for what
  holds whatever the stores do, and schedulers, for the claim that what is under way ends.
\<close>

section \<open>Arbitrary surroundings\<close>

text \<open>
  The queue and the games start empty; between two pieces of an operation the state behind the
  ports may become any other, as long as identifiers already drawn are not drawn again.
\<close>

inductive open_conf :: "'s Ext \<Rightarrow> 's Conf \<Rightarrow> bool" for x where
  boot: "open_conf x \<lparr>cf_mm = NewMatchmaking, cf_games = NewGames, cf_world = w, cf_tasks = []\<rparr>"
| step: "open_conf x k \<Longrightarrow> cstep x k k' \<Longrightarrow> open_conf x k'"
| outside: "open_conf x k \<Longrightarrow> w_entropy (cf_world k) \<le> w_entropy w \<Longrightarrow> open_conf x (k\<lparr>cf_world := w\<rparr>)"

lemma open_conf_inv:
  assumes "inj (ext_uuid x)" and "open_conf x k"
  shows "conf_inv x k"
  using assms(2)
proof induction
  case (boot w)
  show ?case
    by (simp add: conf_inv_def NewMatchmaking_def games_inv_new) (simp add: NewGames_def)
next
  case (step k k')
  from cstep_inv [OF assms(1) step(3,2)] show ?case .
next
  case (outside k w)
  from used_ids_mono [OF outside(2), of x] outside(3) show ?case by (auto simp: conf_inv_def)
qed

section \<open>Schedules\<close>

text \<open>A turn picks one of the pending tasks, by any number, and runs its next piece.\<close>

definition run_turn :: "'s Ext \<Rightarrow> nat \<Rightarrow> 's Conf \<Rightarrow> 's Conf" where
  "run_turn x n k =
     (if cf_tasks k = [] then k
      else let i = n mod length (cf_tasks k) in
        case run_task (srv_games x) (cf_tasks k ! i) (cf_mm k, cf_games k, cf_world k) of
          (ts, m1, g1, w1) \<Rightarrow>
            \<lparr>cf_mm = m1, cf_games = g1, cf_world = w1,
             cf_tasks = take i (cf_tasks k) @ ts @ drop (Suc i) (cf_tasks k)\<rparr>)"

definition run_turns :: "'s Ext \<Rightarrow> nat list \<Rightarrow> 's Conf \<Rightarrow> 's Conf" where
  "run_turns x turns k = fold (run_turn x) turns k"

lemma run_turn_cstep: "cf_tasks k \<noteq> [] \<Longrightarrow> cstep x k (run_turn x n k)"
  by (auto simp: run_turn_def Let_def id_take_nth_drop [symmetric] split: prod.split
      intro!: cstep.run [where before = "take (n mod length (cf_tasks k)) (cf_tasks k)"
        and t = "cf_tasks k ! (n mod length (cf_tasks k))"])

text \<open>An upper bound of the pieces a task still has.\<close>

fun task_size :: "task \<Rightarrow> nat" where
  "task_size (Enqueue p) = 3"
| "task_size (ReadPlayers px po) = 2"
| "task_size (LockedStart mid xp op px po) = 1"
| "task_size (SaveMatch r results evs) = 2 + 2 * length results + length evs"
| "task_size (LoadPlayer r results evs) = 3 + 2 * length results + length evs"
| "task_size (SavePlayer r p results evs) = 2 + 2 * length results + length evs"
| "task_size (NotifyAll evs) = 1 + length evs"

lemma task_size_pos [simp]: "task_size t \<noteq> 0"
  by (cases t) simp_all

lemma after_save_size: "task_size (after_save results evs) = 1 + 2 * length results + length evs"
  by (simp add: after_save_def split: list.split)

lemma run_task_size:
  "run_task d t (m, g, w) = (ts, m1, g1, w1) \<Longrightarrow> (\<Sum>t\<leftarrow>ts. task_size t) < task_size t"
  by (cases "(d, t, (m, g, w))" rule: run_task.cases)
    (auto simp: after_save_size split: prod.splits option.splits sum.splits)

lemma run_turn_size:
  "(\<Sum>t\<leftarrow>cf_tasks (run_turn x n k). task_size t) \<le> (\<Sum>t\<leftarrow>cf_tasks k. task_size t) - 1"
proof (cases "cf_tasks k = []")
  case True
  then show ?thesis by (simp add: run_turn_def)
next
  case False
  let ?i = "n mod length (cf_tasks k)"
  obtain ts m1 g1 w1 where run:
    "run_task (srv_games x) (cf_tasks k ! ?i) (cf_mm k, cf_games k, cf_world k) = (ts, m1, g1, w1)"
    by (metis surj_pair)
  have "?i < length (cf_tasks k)" using False by simp
  from arg_cong [OF id_take_nth_drop [OF this], of "\<lambda>l. \<Sum>t\<leftarrow>l. task_size t"] run_task_size [OF run]
  show ?thesis using False run by (simp add: run_turn_def Let_def)
qed

lemma run_turns_size:
  "(\<Sum>t\<leftarrow>cf_tasks (run_turns x turns k). task_size t)
     \<le> (\<Sum>t\<leftarrow>cf_tasks k. task_size t) - length turns"
  unfolding run_turns_def
proof (induction turns arbitrary: k)
  case (Cons n turns)
  from Cons [of "run_turn x n k"] run_turn_size [of x n k] show ?case by simp
qed simp

end
