(* ===== verification/Lobby.thy ===== *)
theory Lobby
  imports Server_Inv
begin

text \<open>
  The server as its users see it, and nothing else: who waits, which games are on and what was
  played in them, and everybody's name and statistics. This is the specification the whole server
  is proved against in the theory Lobby\_Refinement; tokens, sockets, stores, locks and errors are
  below it.

  An event is what one player does. The rules of the game come from \<open>Game_Spec\<close>.
\<close>

record Lobby =
  waiting :: "PlayerID option"
  games_on :: "MatchID \<rightharpoonup> PlayerID \<times> PlayerID \<times> nat list"
  accounts :: "PlayerID \<rightharpoonup> string \<times> Stats"

definition empty_lobby :: Lobby where
  "empty_lobby = \<lparr>waiting = None, games_on = Map.empty, accounts = Map.empty\<rparr>"

definition in_game :: "Lobby \<Rightarrow> PlayerID \<Rightarrow> bool" where
  "in_game l p \<longleftrightarrow> (\<exists>mid px po hs. games_on l mid = Some (px, po, hs) \<and> (p = px \<or> p = po))"

lemma in_gameI: "games_on l mid = Some (px, po, hs) \<Longrightarrow> p = px \<or> p = po \<Longrightarrow> in_game l p"
  unfolding in_game_def by blast

text \<open>What a finished game counts for the player with a mark, and the accounts after it.\<close>

definition counts_as :: "Mark \<Rightarrow> Status \<Rightarrow> Outcome" where
  "counts_as k st =
     (if st = StatusInProgress then OutcomeUndecided
      else if st = StatusDraw then OutcomeDraw
      else if st = StatusXWon \<longleftrightarrow> k = X then OutcomeWin
      else OutcomeLoss)"

definition settled ::
  "PlayerID \<Rightarrow> PlayerID \<Rightarrow> Status \<Rightarrow> (PlayerID \<rightharpoonup> string \<times> Stats) \<Rightarrow> PlayerID \<rightharpoonup> string \<times> Stats" where
  "settled px po st a =
     a(px := map_option (apsnd (\<lambda>s. Stats_Record s (counts_as X st))) (a px),
       po := map_option (apsnd (\<lambda>s. Stats_Record s (counts_as Mark.O st))) (a po))"

section \<open>Events\<close>

datatype event =
  Registers PlayerID string
| Waits PlayerID
| Leaves PlayerID
| Meets PlayerID PlayerID MatchID
| Misses PlayerID PlayerID
| Plays PlayerID MatchID nat
| Resigns PlayerID MatchID
| Restarts

text \<open>Who acts: in \<open>Meets p q mid\<close> it is \<open>p\<close>, who joins while \<open>q\<close> waits.\<close>

fun actor :: "event \<Rightarrow> PlayerID option" where
  "actor (Registers i n) = None"
| "actor (Waits p) = Some p"
| "actor (Leaves p) = Some p"
| "actor (Meets p q mid) = Some p"
| "actor (Misses p q) = Some p"
| "actor (Plays p mid c) = Some p"
| "actor (Resigns p mid) = Some p"
| "actor Restarts = None"

inductive lobby_step :: "(string \<Rightarrow> string) \<Rightarrow> Lobby \<Rightarrow> event \<Rightarrow> Lobby \<Rightarrow> bool" for key where
  registers: "accounts l i = None \<Longrightarrow> NormalizeName n = Inr n \<Longrightarrow>
    \<forall>(m, st) \<in> ran (accounts l). key m \<noteq> key n \<Longrightarrow>
    lobby_step key l (Registers i n) (l\<lparr>accounts := (accounts l)(i \<mapsto> (n, zero_stats))\<rparr>)"
| waits: "waiting l = None \<Longrightarrow> \<not> in_game l p \<Longrightarrow>
    lobby_step key l (Waits p) (l\<lparr>waiting := Some p\<rparr>)"
| leaves: "waiting l = Some p \<Longrightarrow>
    lobby_step key l (Leaves p) (l\<lparr>waiting := None\<rparr>)"
| meets: "waiting l = Some q \<Longrightarrow> p \<noteq> q \<Longrightarrow> \<not> in_game l p \<Longrightarrow> {p, q} \<subseteq> dom (accounts l) \<Longrightarrow>
    games_on l mid = None \<Longrightarrow>
    lobby_step key l (Meets p q mid)
      (l\<lparr>waiting := None, games_on := (games_on l)(mid \<mapsto> (q, p, []))\<rparr>)"
| misses: "waiting l = Some q \<Longrightarrow> p \<noteq> q \<Longrightarrow> \<not> in_game l p \<Longrightarrow> \<not> {p, q} \<subseteq> dom (accounts l) \<Longrightarrow>
    lobby_step key l (Misses p q) (l\<lparr>waiting := None\<rparr>)"
| plays: "games_on l mid = Some (px, po, hs) \<Longrightarrow> p = mover_of px po hs \<Longrightarrow> legal (hs @ [c]) \<Longrightarrow>
    lobby_step key l (Plays p mid c)
      (if decided (hs @ [c])
       then l\<lparr>games_on := (games_on l)(mid := None),
              accounts := settled px po (status_of (hs @ [c])) (accounts l)\<rparr>
       else l\<lparr>games_on := (games_on l)(mid \<mapsto> (px, po, hs @ [c]))\<rparr>)"
| resigns: "games_on l mid = Some (px, po, hs) \<Longrightarrow> p = px \<or> p = po \<Longrightarrow>
    lobby_step key l (Resigns p mid) (l\<lparr>games_on := (games_on l)(mid := None)\<rparr>)"
| restarts: "lobby_step key l Restarts (l\<lparr>waiting := None, games_on := Map.empty\<rparr>)"

inductive_cases lobby_step_playsE: "lobby_step key l (Plays p mid c) l'"

lemma plays_game:
  assumes "lobby_step key l (Plays p mid c) l'"
  obtains px po hs where "games_on l mid = Some (px, po, hs)" and "p = mover_of px po hs"
    and "legal (hs @ [c])"
  using assms by (rule lobby_step_playsE) (rule that; simp)

inductive_simps lobby_step_simps:
  "lobby_step key l (Waits p) l'"
  "lobby_step key l (Leaves p) l'"
  "lobby_step key l (Meets p q mid) l'"
  "lobby_step key l (Misses p q) l'"
  "lobby_step key l (Resigns p mid) l'"
  "lobby_step key l (Registers i n) l'"
  "lobby_step key l Restarts l'"

inductive lobby_run :: "(string \<Rightarrow> string) \<Rightarrow> Lobby \<Rightarrow> event list \<Rightarrow> Lobby \<Rightarrow> bool" for key where
  idle: "lobby_run key l [] l"
| act: "lobby_step key l e l1 \<Longrightarrow> lobby_run key l1 es l2 \<Longrightarrow> lobby_run key l (e # es) l2"

lemma lobby_run_one: "lobby_step key l e l' \<Longrightarrow> lobby_run key l [e] l'"
  by (rule lobby_run.act [OF _ lobby_run.idle])

lemma lobby_run_append:
  "lobby_run key l es l1 \<Longrightarrow> lobby_run key l1 fs l2 \<Longrightarrow> lobby_run key l (es @ fs) l2"
  by (induction rule: lobby_run.induct) (simp_all add: lobby_run.act)

text \<open>An event has one effect.\<close>

lemma lobby_step_deterministic:
  "lobby_step key l e l1 \<Longrightarrow> lobby_step key l e l2 \<Longrightarrow> l1 = l2"
  by (induction rule: lobby_step.induct) (auto elim: lobby_step.cases)

text \<open>At most one way of joining is open to a player.\<close>

definition joins :: "PlayerID \<Rightarrow> event \<Rightarrow> bool" where
  "joins p ev \<longleftrightarrow> ev = Waits p \<or> (\<exists>q mid. ev = Meets p q mid) \<or> (\<exists>q. ev = Misses p q)"

lemma lobby_join_free:
  assumes "lobby_step key l ev l1" and "joins p ev"
  shows "\<not> in_game l p \<and> waiting l \<noteq> Some p"
  using assms by (auto simp: joins_def lobby_step_simps)

lemma lobby_join_unique:
  assumes "lobby_step key l ev l1" and "joins p ev" and "lobby_step key l ev' l2" and "actor ev' = Some p"
  shows "ev' = ev \<and> l2 = l1 \<or> (\<exists>q mid mid'. ev = Meets p q mid \<and> ev' = Meets p q mid')"
proof -
  note free = lobby_join_free [OF assms(1,2)]
  from assms(3) have "joins p ev'"
  proof cases
    case (plays mid px po hs c)
    then have "in_game l p"
      using assms(4) in_gameI [of l mid px po hs p] by (auto simp: mover_of_def)
    with free show ?thesis by simp
  next
    case (resigns mid px po hs q)
    then have "in_game l p" using assms(4) in_gameI [of l mid px po hs p] by simp
    with free show ?thesis by simp
  qed (use assms(4) free in \<open>auto simp: joins_def\<close>)
  with assms(1-3) have "ev' = ev \<or> (\<exists>q mid mid'. ev = Meets p q mid \<and> ev' = Meets p q mid')"
    by (auto simp: joins_def lobby_step_simps)
  then show ?thesis using lobby_step_deterministic [OF assms(1)] assms(3) by blast
qed

section \<open>What the specification guarantees\<close>

definition lobby_ok :: "Lobby \<Rightarrow> bool" where
  "lobby_ok l \<longleftrightarrow>
     (\<forall>p. waiting l = Some p \<longrightarrow> \<not> in_game l p)
     \<and> (\<forall>mid px po hs. games_on l mid = Some (px, po, hs) \<longrightarrow>
          px \<noteq> po \<and> legal hs \<and> \<not> decided hs \<and> {px, po} \<subseteq> dom (accounts l))
     \<and> (\<forall>mid px po hs mid' px' po' hs'. games_on l mid = Some (px, po, hs) \<longrightarrow>
          games_on l mid' = Some (px', po', hs') \<longrightarrow> mid' \<noteq> mid \<longrightarrow> {px, po} \<inter> {px', po'} = {})"

lemma lobby_okI:
  assumes "\<And>p. waiting l = Some p \<Longrightarrow> \<not> in_game l p"
    and "\<And>mid px po hs. games_on l mid = Some (px, po, hs) \<Longrightarrow>
      px \<noteq> po \<and> legal hs \<and> \<not> decided hs \<and> {px, po} \<subseteq> dom (accounts l)"
    and "\<And>mid px po hs mid' px' po' hs'. games_on l mid = Some (px, po, hs) \<Longrightarrow>
      games_on l mid' = Some (px', po', hs') \<Longrightarrow> mid' \<noteq> mid \<Longrightarrow> {px, po} \<inter> {px', po'} = {}"
  shows "lobby_ok l"
  unfolding lobby_ok_def by (intro conjI allI impI; (rule assms; assumption)?) (use assms(2) in blast)+

lemmas lobby_okD =
  lobby_ok_def [THEN iffD1, THEN conjunct1, rule_format]
  lobby_ok_def [THEN iffD1, THEN conjunct2, THEN conjunct1, rule_format]
  lobby_ok_def [THEN iffD1, THEN conjunct2, THEN conjunct2, rule_format]

lemma lobby_ok_empty: "lobby_ok empty_lobby"
  by (rule lobby_okI) (simp_all add: empty_lobby_def)

text \<open>Taking a game away keeps all of it, as long as nobody is added to the queue.\<close>

lemma lobby_ok_less:
  assumes "lobby_ok l" and "games_on l' \<subseteq>\<^sub>m games_on l" and "waiting l' = waiting l \<or> waiting l' = None"
    and "dom (accounts l') = dom (accounts l)"
  shows "lobby_ok l'"
proof (rule lobby_okI)
  have sub: "games_on l mid = Some g" if "games_on l' mid = Some g" for mid g
    using assms(2) that unfolding map_le_def by (metis domI)
  show "\<not> in_game l' p" if "waiting l' = Some p" for p
    using that assms(3) lobby_okD(1) [OF assms(1)] sub by (fastforce simp: in_game_def)
  show "px \<noteq> po \<and> legal hs \<and> \<not> decided hs \<and> {px, po} \<subseteq> dom (accounts l')"
    if "games_on l' mid = Some (px, po, hs)" for mid px po hs
    using lobby_okD(2) [OF assms(1) sub [OF that]] assms(4) by simp
  show "{px, po} \<inter> {px', po'} = {}"
    if "games_on l' mid = Some (px, po, hs)" "games_on l' mid' = Some (px', po', hs')" "mid' \<noteq> mid"
    for mid px po hs mid' px' po' hs'
    by (rule lobby_okD(3) [OF assms(1) sub [OF that(1)] sub [OF that(2)] that(3)])
qed

lemma settled_dom: "dom (settled px po st a) = dom a"
  by (auto simp: settled_def split: if_splits)

lemma lobby_ok_step:
  assumes "lobby_step key l e l'" and "lobby_ok l"
  shows "lobby_ok l'"
  using assms(1)
proof cases
  case (registers i n)
  note D = lobby_okD [OF assms(2)]
  show ?thesis
  proof (rule lobby_okI)
    show "\<not> in_game l' p" if "waiting l' = Some p" for p
      using that D(1) by (simp add: registers in_game_def)
    show "px \<noteq> po \<and> legal hs \<and> \<not> decided hs \<and> {px, po} \<subseteq> dom (accounts l')"
      if "games_on l' mid = Some (px, po, hs)" for mid px po hs
      using that D(2) [of mid px po hs] by (auto simp: registers)
    show "{px, po} \<inter> {px', po'} = {}"
      if "games_on l' mid = Some (px, po, hs)" "games_on l' mid' = Some (px', po', hs')" "mid' \<noteq> mid"
      for mid px po hs mid' px' po' hs'
      using that D(3) [of mid px po hs mid' px' po' hs'] by (simp add: registers)
  qed
next
  case (waits p)
  note D = lobby_okD [OF assms(2)]
  show ?thesis
    by (rule lobby_okI) (use waits D(2,3) in \<open>simp_all add: in_game_def\<close>)
next
  case (meets q p mid)
  note D = lobby_okD [OF assms(2)]
  have free: "\<not> in_game l q" "\<not> in_game l p" using D(1) [OF meets(3)] meets(5) by simp_all
  then have apart: "{q, p} \<inter> {px, po} = {}" if "games_on l mid' = Some (px, po, hs)" for mid' px po hs
    using free in_gameI [OF that] by blast
  show ?thesis
  proof (rule lobby_okI)
    show "px \<noteq> po \<and> legal hs \<and> \<not> decided hs \<and> {px, po} \<subseteq> dom (accounts l')"
      if "games_on l' mid' = Some (px, po, hs)" for mid' px po hs
      using that D(2) [of mid' px po hs] meets by (auto split: if_splits)
    show "{px, po} \<inter> {px', po'} = {}"
      if "games_on l' mid1 = Some (px, po, hs)" "games_on l' mid2 = Some (px', po', hs')" "mid2 \<noteq> mid1"
      for mid1 px po hs mid2 px' po' hs'
      using that D(3) [of mid1 px po hs mid2 px' po' hs'] apart [of mid1 px po hs] apart [of mid2 px' po' hs']
      by (auto simp: meets(2) split: if_splits)
  qed (simp add: meets(2))
next
  case (plays mid px po hs p c)
  note D = lobby_okD [OF assms(2)]
  show ?thesis
  proof (cases "decided (hs @ [c])")
    case True
    with plays(2) show ?thesis
      by (intro lobby_ok_less [OF assms(2)]) (auto simp: map_le_def settled_dom split: if_splits)
  next
    case False
    have l': "l' = l\<lparr>games_on := (games_on l)(mid \<mapsto> (px, po, hs @ [c]))\<rparr>" using plays(2) False by simp
    show ?thesis
    proof (rule lobby_okI)
      show "\<not> in_game l' q" if "waiting l' = Some q" for q
        using that D(1) [of q] plays(3) by (fastforce simp: l' in_game_def split: if_splits)
      show "px' \<noteq> po' \<and> legal hs' \<and> \<not> decided hs' \<and> {px', po'} \<subseteq> dom (accounts l')"
        if "games_on l' mid' = Some (px', po', hs')" for mid' px' po' hs'
        using that D(2) [of mid' px' po' hs'] D(2) [OF plays(3)] plays(5) False
        by (auto simp: l' split: if_splits)
      show "{p1, p2} \<inter> {px', po'} = {}"
        if "games_on l' mid1 = Some (p1, p2, hs1)" "games_on l' mid2 = Some (px', po', hs')" "mid2 \<noteq> mid1"
        for mid1 p1 p2 hs1 mid2 px' po' hs'
        using that D(3) [of mid1 p1 p2 _ mid2 px' po'] plays(3) by (fastforce simp: l' split: if_splits)
    qed
  qed
qed (use assms(2) in \<open>auto intro!: lobby_ok_less [OF assms(2)] simp: map_le_def split: if_splits\<close>)

end
