(* ===== verification/Lobby_Refinement.thy ===== *)
theory Lobby_Refinement
  imports Lobby Server_Props
begin

text \<open>
  The server refines the lobby. \<open>lobby_of\<close> forgets all of a server's state but the queue, the cells
  played in each match, and the names and statistics of the accounts; every operation of the
  server is then an event of the lobby or leaves it as it is. Conversely a player can do by a
  request whatever the lobby allows.
\<close>

section \<open>The abstraction\<close>

definition cells_of :: "Move list \<Rightarrow> nat list" where
  "cells_of mvs = map (nat \<circ> mv_Cell) mvs"

definition game_of :: "activeMatch \<Rightarrow> PlayerID \<times> PlayerID \<times> nat list" where
  "game_of am = (am_X am, am_O am, cells_of (m_moves (am_match am)))"

definition account_of :: "Player \<Rightarrow> string \<times> Stats" where
  "account_of p = (p_Name p, p_Stats p)"

definition lobby_of :: "'s Ext \<Rightarrow> 's World Server \<Rightarrow> Lobby" where
  "lobby_of x s =
     \<lparr>waiting = (case queue (sv_mm s) of [] \<Rightarrow> None | p # ps \<Rightarrow> Some p),
      games_on = map_option game_of \<circ> active (sv_games s),
      accounts = map_option account_of \<circ> srv_view x (sv_world s)\<rparr>"

lemma lobby_of_sel [simp]:
  "waiting (lobby_of x s) = (case queue (sv_mm s) of [] \<Rightarrow> None | p # ps \<Rightarrow> Some p)"
  "games_on (lobby_of x s) mid = map_option game_of (active (sv_games s) mid)"
  "accounts (lobby_of x s) i = map_option account_of (srv_view x (sv_world s) i)"
  by (simp_all add: lobby_of_def)

lemma lobby_eqI:
  assumes "waiting l = waiting l'" and "\<And>mid. games_on l mid = games_on l' mid"
    and "\<And>i. accounts l i = accounts l' i"
  shows "l = (l' :: Lobby)"
  using assms by (intro Lobby.equality) auto

lemma cells_of_snoc [simp]:
  "cells_of [] = []" "cells_of (mvs @ [mv]) = cells_of mvs @ [nat (mv_Cell mv)]"
  by (simp_all add: cells_of_def)

lemma cells_of_moves [simp]: "cells_of (moves_of hs) = hs"
  by (induction hs rule: rev_induct) simp_all

lemma account_of_Record: "account_of (Player_Record p out) = apsnd (\<lambda>s. Stats_Record s out) (account_of p)"
  by (simp add: account_of_def Player_Record_def)

text \<open>A match in progress as a game of the lobby.\<close>

lemma live_game:
  assumes "live mid am"
  obtains hs where "game_of am = (am_X am, am_O am, hs)" and "legal hs" and "\<not> decided hs"
    and "am_X am \<noteq> am_O am" and "am_match am = match_of mid (am_X am) (am_O am) hs"
proof -
  obtain hs where hs: "legal hs" "\<not> decided hs" "am_X am \<noteq> am_O am"
    "am_match am = match_of mid (am_X am) (am_O am) hs"
    using assms by (rule live_legal)
  then have "game_of am = (am_X am, am_O am, hs)" by (metis cells_of_moves game_of_def match_of_sel(6))
  with hs that show thesis by blast
qed

lemma one_match_each:
  assumes "games_inv g" and "active g mid = Some am" and "p = am_X am \<or> p = am_O am"
    and "active g mid' = Some am'" and "p = am_X am' \<or> p = am_O am'"
  shows "mid' = mid"
  using index_players [OF assms(1,2), of p] index_players [OF assms(1,4), of p] assms(3,5) by simp

lemma in_game_iff:
  assumes "games_inv (sv_games s)"
  shows "in_game (lobby_of x s) p \<longleftrightarrow> Games_InMatch p (sv_games s)"
proof
  assume "in_game (lobby_of x s) p"
  then obtain mid am where am: "active (sv_games s) mid = Some am" "p = am_X am \<or> p = am_O am"
    by (auto simp: in_game_def game_of_def)
  with games_inv_active(2,3) [OF assms am(1)] show "Games_InMatch p (sv_games s)"
    by (auto simp: Games_InMatch_def)
next
  assume "Games_InMatch p (sv_games s)"
  then obtain mid where "byPlayer (sv_games s) p = Some mid" by (auto simp: Games_InMatch_def)
  from games_inv_player [OF assms this] obtain am where
    am: "active (sv_games s) mid = Some am" "p = am_X am \<or> p = am_O am" .
  then show "in_game (lobby_of x s) p"
    by (intro in_gameI [of _ mid "am_X am" "am_O am"]) (simp_all add: game_of_def)
qed

lemma OutcomeFor_counts:
  assumes "px \<noteq> po" and "decided hs"
  shows "Match_OutcomeFor (match_of mid px po hs) px = counts_as X (status_of hs)"
    and "Match_OutcomeFor (match_of mid px po hs) po = counts_as Mark.O (status_of hs)"
  using assms status_of_decided [of hs]
  by (auto simp: OutcomeFor_match_of counts_as_def Status_IsFinished_def)

lemma mover_unique:
  "Match_ApplyMove (match_of mid px po hs) p c = (None, m) \<Longrightarrow> px \<noteq> po \<Longrightarrow> legal hs \<Longrightarrow>
   p = mover_of px po hs \<and> legal (hs @ [nat c]) \<and> m = match_of mid px po (hs @ [nat c])
   \<and> 0 \<le> c"
  using ApplyMove_match_of [of px po hs mid p c] move_error_None [of px po hs p c]
  by (auto split: option.splits)

section \<open>Events of the server\<close>

abbreviation account_key :: "'s Ext \<Rightarrow> string \<Rightarrow> string" where
  "account_key x \<equiv> nameKey (ext_uni x)"

text \<open>Nothing happened, or one event of the given kind.\<close>

definition one_event ::
  "'s Ext \<Rightarrow> (event \<Rightarrow> bool) \<Rightarrow> 's World Server \<Rightarrow> 's World Server \<Rightarrow> bool" where
  "one_event x P s s' \<longleftrightarrow>
     lobby_of x s' = lobby_of x s
     \<or> (\<exists>ev. P ev \<and> lobby_step (account_key x) (lobby_of x s) ev (lobby_of x s'))"

abbreviation by_player :: "PlayerID \<Rightarrow> event \<Rightarrow> bool" where
  "by_player p ev \<equiv> actor ev = Some p"

text \<open>What a request may cause: a registration on its route, or an event of the player its token names.\<close>

definition requested :: "'s Ext \<Rightarrow> Request \<Rightarrow> 's World Server \<Rightarrow> event \<Rightarrow> bool" where
  "requested x r s ev \<longleftrightarrow>
     (\<exists>i n. ev = Registers i n) \<and> route_of r = Inr Register
     \<or> (\<exists>p. playerOf (srv_deps x) r (sv_world s) = Inr p \<and> actor ev = Some p)"

context wired
begin

section \<open>Every operation is an event\<close>

lemma move_event:
  assumes "world_inv x good (sv_games s) (sv_world s)" and "server_move (srv_deps x) p c s = (r, s')"
  shows "case r of
      Inl e \<Rightarrow> lobby_of x s' = lobby_of x s
    | Inr st \<Rightarrow> \<exists>mid. lobby_step (account_key x) (lobby_of x s) (Plays p mid (nat c)) (lobby_of x s')"
proof -
  note I = world_invD [OF assms(1)]
  obtain g w where run: "Games_Move (srv_games x) p c (sv_games s, sv_world s) = (r, g, w)"
    and s': "s' = s\<lparr>sv_games := g, sv_world := w\<rparr>"
    using assms(2) by (auto simp: server_move_def srv_deps_def split: prod.splits)
  from I(1) run show ?thesis
  proof (cases rule: Move_cases)
    case (Running am m1 mid)
    obtain hs where hs: "game_of am = (am_X am, am_O am, hs)" "legal hs" "\<not> decided hs"
      "am_X am \<noteq> am_O am" "am_match am = match_of mid (am_X am) (am_O am) hs"
      using Running(4) by (rule live_game)
    note move = mover_unique [OF Running(5) [unfolded hs(5)] hs(4,2)]
    have view: "srv_view x w = srv_view x (sv_world s)"
      using server_games.move_effect_view [OF I(2) after_move_storable [OF Running(4,5)]] Running(9) by simp
    have running: "\<not> decided (hs @ [nat c])"
      using Running(6) move status_of_decided by (metis match_of_sel(5))
    have game: "game_of (after_move am m1) = (am_X am, am_O am, hs @ [nat c])"
      using after_move_players [OF Running(5)] move by (simp add: game_of_def)
    have "games_on (lobby_of x s) mid = Some (am_X am, am_O am, hs)"
      using Running(3) hs(1) by simp
    from lobby_step.plays [OF this _ conjunct1 [OF conjunct2 [OF move]], of p "account_key x"] move running
    have "lobby_step (account_key x) (lobby_of x s) (Plays p mid (nat c))
        ((lobby_of x s)\<lparr>games_on := (games_on (lobby_of x s))(mid \<mapsto> (am_X am, am_O am, hs @ [nat c]))\<rparr>)"
      by simp
    moreover have "lobby_of x s' =
        (lobby_of x s)\<lparr>games_on := (games_on (lobby_of x s))(mid \<mapsto> (am_X am, am_O am, hs @ [nat c]))\<rparr>"
      by (rule lobby_eqI) (simp_all add: s' Running(8) game view)
    ultimately show ?thesis using Running(7) by (simp del: lobby_of_sel) (metis)
  next
    case (Finishing am m1 mid)
    obtain hs where hs: "game_of am = (am_X am, am_O am, hs)" "legal hs" "\<not> decided hs"
      "am_X am \<noteq> am_O am" "am_match am = match_of mid (am_X am) (am_O am) hs"
      using Finishing(4) by (rule live_game)
    note move = mover_unique [OF Finishing(5) [unfolded hs(5)] hs(4,2)]
    note players = after_move_players [OF Finishing(5)]
    have over: "decided (hs @ [nat c])"
      using Finishing(6) move status_of_decided by (metis match_of_sel(5))
    have view: "srv_view x w = (\<lambda>q. if q = am_X am \<or> q = am_O am
        then map_option (\<lambda>pl. Player_Record pl (Match_OutcomeFor m1 q)) (srv_view x (sv_world s) q)
        else srv_view x (sv_world s) q)"
      using server_games.move_effect_results [OF I(2) after_move_storable [OF Finishing(4,5)], of EventMatchEnded]
        players hs(4) Finishing(9) by (simp cong: if_cong)
    have outcomes: "Match_OutcomeFor m1 (am_X am) = counts_as X (status_of (hs @ [nat c]))"
      "Match_OutcomeFor m1 (am_O am) = counts_as Mark.O (status_of (hs @ [nat c]))"
      using OutcomeFor_counts [OF hs(4) over] move by simp_all
    have mid: "m_id (am_match am) = mid" by (rule live_id [OF Finishing(4)])
    let ?l = "(lobby_of x s)\<lparr>games_on := (games_on (lobby_of x s))(mid := None),
        accounts := settled (am_X am) (am_O am) (status_of (hs @ [nat c])) (accounts (lobby_of x s))\<rparr>"
    have "games_on (lobby_of x s) mid = Some (am_X am, am_O am, hs)"
      using Finishing(3) hs(1) by simp
    from lobby_step.plays [OF this _ conjunct1 [OF conjunct2 [OF move]], of p "account_key x"] move over
    have "lobby_step (account_key x) (lobby_of x s) (Plays p mid (nat c)) ?l" by simp
    moreover have "lobby_of x s' = ?l"
      using hs(4)
      by (intro lobby_eqI)
        (simp_all add: s' Finishing(8) forget_unfold mid view settled_def outcomes
          option.map_comp account_of_Record comp_def cong: if_cong)
    ultimately show ?thesis using Finishing(7) by (simp del: lobby_of_sel) (metis)
  qed (simp_all add: s')
qed

lemma join_event:
  assumes "inj (ext_uuid x)" and "queue_inv (\<lambda>p. Games_InMatch p (sv_games s)) (sv_mm s)"
    and "world_inv x good (sv_games s) (sv_world s)" and "server_join (srv_deps x) p s = (e, s')"
  shows "lobby_of x s' = lobby_of x s \<and> e \<noteq> None
        \<and> (in_game (lobby_of x s) p \<or> waiting (lobby_of x s) = Some p)
    \<or> (\<exists>ev. lobby_step (account_key x) (lobby_of x s) ev (lobby_of x s') \<and> actor ev = Some p
         \<and> (e = None \<longleftrightarrow> (\<forall>q. ev \<noteq> Misses p q)))"
proof -
  note I = world_invD [OF assms(3)]
  note in_game = in_game_iff [OF I(1), of x]
  obtain m g w where join:
    "Matchmaking_Join (games_matches (srv_games x)) p (sv_mm s, sv_games s, sv_world s) = (e, m, g, w)"
    and s': "s' = s\<lparr>sv_mm := m, sv_games := g, sv_world := w\<rparr>"
    using assms(4) by (auto simp: server_join_def srv_deps_def split: prod.splits)
  from assms(2) have "queue (sv_mm s) = [] \<or> (\<exists>q. queue (sv_mm s) = [q])"
    by (cases "queue (sv_mm s)") (auto simp: queue_inv_def)
  then consider (busy) "Games_InMatch p (sv_games s)"
    | (first) "\<not> Games_InMatch p (sv_games s)" "queue (sv_mm s) = []"
    | (again) "\<not> Games_InMatch p (sv_games s)" "queue (sv_mm s) = [p]"
    | (second) q where "\<not> Games_InMatch p (sv_games s)" "queue (sv_mm s) = [q]" "p \<noteq> q"
    by metis
  then show ?thesis
  proof cases
    case busy
    with join games_port.Join_busy [of "srv_games x" p "(sv_games s, sv_world s)"] in_game
    show ?thesis by (auto simp: s')
  next
    case first
    with join games_port.Join_first [of "srv_games x" p "(sv_games s, sv_world s)" "sv_mm s"]
    have r: "e = None" "m = (sv_mm s)\<lparr>queue := [p]\<rparr>" "g = sv_games s" "w = sv_world s" by auto
    have "lobby_step (account_key x) (lobby_of x s) (Waits p) ((lobby_of x s)\<lparr>waiting := Some p\<rparr>)"
      by (rule lobby_step.waits) (use first in_game in simp_all)
    moreover have "lobby_of x s' = (lobby_of x s)\<lparr>waiting := Some p\<rparr>"
      by (rule lobby_eqI) (simp_all add: s' r)
    ultimately show ?thesis using r(1) by (intro disjI2 exI [of _ "Waits p"]) simp
  next
    case again
    with join games_port.Join_queued [of "srv_games x" p "(sv_games s, sv_world s)" "sv_mm s"] show ?thesis
      by (auto simp: s')
  next
    case (second q)
    with join games_port.Join_second [of "srv_games x" p "(sv_games s, sv_world s)" "sv_mm s" q]
    have start: "Games_Start (srv_games x) q p (sv_games s, sv_world s) = (e, g, w)"
      and m: "m = (sv_mm s)\<lparr>queue := []\<rparr>"
      by (simp_all add: prod_eq_iff)
    note S = Start_iff [OF I(2) start]
    have view: "srv_view x w = srv_view x (sv_world s)"
      using server_games.Start_statistics [OF I(2) start] by blast
    have q: "\<not> Games_InMatch q (sv_games s)" using assms(2) second(2) by (simp add: queue_inv_def)
    have waiting: "waiting (lobby_of x s) = Some q" "waiting (lobby_of x s') = None"
      using second(2) by (simp_all add: s' m)
    have free: "\<not> in_game (lobby_of x s) p" using in_game second(1) by simp
    have known: "{p, q} \<subseteq> dom (accounts (lobby_of x s)) \<longleftrightarrow> e = None"
      using S second(1,3) q by auto
    show ?thesis
    proof (cases e)
      case None
      with S obtain mid am where am: "am_match am = match_of mid q p []"
        "active g = (active (sv_games s))(mid \<mapsto> am)" "mid = ext_uuid x (w_entropy (sv_world s))"
        by auto
      have fresh: "games_on (lobby_of x s) mid = None"
        using fresh_match(2) [OF assms(1,3)] by (simp add: am(3) srv_defs)
      have "game_of am = (q, p, [])" using am(1) by (simp add: game_of_def am_X_def am_O_def)
      then have "lobby_of x s' = (lobby_of x s)\<lparr>waiting := None,
          games_on := (games_on (lobby_of x s))(mid \<mapsto> (q, p, []))\<rparr>"
        by (intro lobby_eqI) (simp_all add: s' m am(2) view)
      with lobby_step.meets [OF waiting(1) second(3) free _ fresh, of "account_key x"] known None
      have "lobby_step (account_key x) (lobby_of x s) (Meets p q mid) (lobby_of x s')" by simp
      with None show ?thesis by (intro disjI2 exI [of _ "Meets p q mid"]) simp
    next
      case (Some err)
      with S have "lobby_of x s' = (lobby_of x s)\<lparr>waiting := None\<rparr>"
        by (intro lobby_eqI) (simp_all add: s' m view)
      with lobby_step.misses [OF waiting(1) second(3) free, of "account_key x"] known Some
      have "lobby_step (account_key x) (lobby_of x s) (Misses p q) (lobby_of x s')" by simp
      with Some show ?thesis by (intro disjI2 exI [of _ "Misses p q"]) simp
    qed
  qed
qed

lemma leave_event:
  assumes "queue_inv (\<lambda>p. Games_InMatch p (sv_games s)) (sv_mm s)"
  shows "if queue (sv_mm s) = [p]
    then lobby_step (account_key x) (lobby_of x s) (Leaves p) (lobby_of x (server_leave p s))
    else lobby_of x (server_leave p s) = lobby_of x s"
proof (cases "queue (sv_mm s) = [p]")
  case True
  then have "lobby_of x (server_leave p s) = (lobby_of x s)\<lparr>waiting := None\<rparr>"
    by (intro lobby_eqI) (simp_all add: server_leave_def Leave_remove1)
  with lobby_step.leaves [of "lobby_of x s" p "account_key x"] True show ?thesis by simp
next
  case False
  with assms have "remove1 p (queue (sv_mm s)) = queue (sv_mm s)"
    by (cases "queue (sv_mm s)") (auto simp: queue_inv_def)
  with False show ?thesis by (auto intro!: lobby_eqI simp: server_leave_def Leave_remove1)
qed

lemma abandon_event:
  assumes "world_inv x good (sv_games s) (sv_world s)"
  shows "if Games_InMatch p (sv_games s)
    then \<exists>mid. lobby_step (account_key x) (lobby_of x s) (Resigns p mid) (lobby_of x (server_abandon (srv_deps x) p s))
    else lobby_of x (server_abandon (srv_deps x) p s) = lobby_of x s"
proof -
  note I = world_invD [OF assms]
  obtain g w where run: "Games_Abandon (srv_games x) p (sv_games s, sv_world s) = (g, w)" by fastforce
  then have s': "server_abandon (srv_deps x) p s = s\<lparr>sv_games := g, sv_world := w\<rparr>"
    by (simp add: server_abandon_def srv_deps_def)
  have view: "srv_view x w = srv_view x (sv_world s)"
    using server_games.Abandon_statistics [OF I(2) run] by blast
  show ?thesis
  proof (cases "Games_lookup (sv_games s) p")
    case None
    with run lookup_InMatch [OF I(1), of p] show ?thesis
      by (auto simp: Abandon_None s' intro!: lobby_eqI)
  next
    case (Some am)
    obtain mid where mid: "byPlayer (sv_games s) p = Some mid" "active (sv_games s) mid = Some am"
      "live mid am" "p = am_X am \<or> p = am_O am"
      using lookup_Some [OF I(1) Some] .
    have g: "g = Games_forget (sv_games s) am" using run by (simp add: Abandon_Some [OF Some])
    have "lobby_of x (server_abandon (srv_deps x) p s) =
        (lobby_of x s)\<lparr>games_on := (games_on (lobby_of x s))(mid := None)\<rparr>"
      by (rule lobby_eqI) (simp_all add: s' g forget_unfold live_id [OF mid(3)] view)
    with lobby_step.resigns [of "lobby_of x s" mid "am_X am" "am_O am" _ p "account_key x"] mid(2,4)
    have "lobby_step (account_key x) (lobby_of x s) (Resigns p mid) (lobby_of x (server_abandon (srv_deps x) p s))"
      by (simp add: game_of_def)
    moreover have "Games_InMatch p (sv_games s)" using mid(1) by (simp add: Games_InMatch_def)
    ultimately show ?thesis by auto
  qed
qed

lemma lobby_of_cong:
  "sv_mm s' = sv_mm s \<Longrightarrow> sv_games s' = sv_games s \<Longrightarrow> srv_view x (sv_world s') = srv_view x (sv_world s) \<Longrightarrow>
   lobby_of x s' = lobby_of x s"
  by (rule lobby_eqI) simp_all

lemma register_event:
  assumes "inj (ext_uuid x)" and inv: "world_inv x good (sv_games s) (sv_world s)"
    and "Auth_Register (srv_auth x) name pw (sv_world s) = (r, w')"
  shows "lobby_of x (s\<lparr>sv_world := w'\<rparr>) = lobby_of x s
    \<or> (\<exists>i n. lobby_step (account_key x) (lobby_of x s) (Registers i n) (lobby_of x (s\<lparr>sv_world := w'\<rparr>)))"
  using assms(3)
proof (cases rule: Register_effect)
  case (1 n)
  then have "lobby_of x (s\<lparr>sv_world := w'\<rparr>) = lobby_of x s"
    by (intro lobby_of_cong) (simp_all add: srv_view_defs)
  then show ?thesis ..
next
  case (2 p e)
  let ?w1 = "(sv_world s)\<lparr>w_entropy := Suc (Suc (w_entropy (sv_world s)))\<rparr>"
  have view1: "srv_view x ?w1 = srv_view x (sv_world s)" by (simp add: srv_view_defs)
  have good1: "srv_good good ?w1" using world_invD(2) [OF inv] by (simp add: srv_view_defs)
  have "p_ID p \<notin> used_ids x (sv_world s)"
    using assms(1) 2(2) by (auto simp: used_ids_def dest: injD)
  then have new: "srv_view x ?w1 (p_ID p) = None"
    using world_invD(6) [OF inv] view1 by auto
  show ?thesis
  proof (rule Create_cases [OF good1 new 2(1)])
    assume "srv_view x w' = srv_view x ?w1"
    with view1 have "lobby_of x (s\<lparr>sv_world := w'\<rparr>) = lobby_of x s" by (intro lobby_of_cong) simp_all
    then show ?thesis ..
  next
    assume e: "e = None" and view: "srv_view x w' = (srv_view x ?w1)(p_ID p \<mapsto> p)"
    have free: "account_key x (p_Name q) \<noteq> account_key x (p_Name p)" if "srv_view x (sv_world s) i = Some q" for i q
      using server_names.Create_taken [OF good1, of i q p] that view1 2(1) e by auto
    have "lobby_step (account_key x) (lobby_of x s) (Registers (p_ID p) (p_Name p))
        ((lobby_of x s)\<lparr>accounts := (accounts (lobby_of x s))(p_ID p \<mapsto> (p_Name p, zero_stats))\<rparr>)"
      by (rule lobby_step.registers)
        (use new view1 2(4) free in \<open>auto simp: ran_def account_of_def\<close>)
    moreover have "lobby_of x (s\<lparr>sv_world := w'\<rparr>) =
        (lobby_of x s)\<lparr>accounts := (accounts (lobby_of x s))(p_ID p \<mapsto> (p_Name p, zero_stats))\<rparr>"
      by (rule lobby_eqI) (simp_all add: view view1 account_of_def 2(3))
    ultimately show ?thesis by metis
  qed
qed

section \<open>Requests, sockets, restarts\<close>

lemma one_event_refl [simp]: "one_event x P s s"
  by (simp add: one_event_def)

lemma one_event_same: "lobby_of x s' = lobby_of x s \<Longrightarrow> one_event x P s s'"
  by (simp add: one_event_def)

lemma one_eventI: "lobby_step (account_key x) (lobby_of x s) ev (lobby_of x s') \<Longrightarrow> P ev \<Longrightarrow> one_event x P s s'"
  unfolding one_event_def by blast

lemma one_event_mono: "one_event x P s s' \<Longrightarrow> (\<And>ev. P ev \<Longrightarrow> Q ev) \<Longrightarrow> one_event x Q s s'"
  unfolding one_event_def by blast

lemma one_event_cong: "lobby_of x s2 = lobby_of x s1 \<Longrightarrow> one_event x P s s1 \<Longrightarrow> one_event x P s s2"
  by (simp add: one_event_def)

lemma resign_one_event:
  assumes "world_inv x good (sv_games s) (sv_world s)"
  shows "one_event x (by_player p) s (server_abandon (srv_deps x) p s)"
proof (cases "Games_InMatch p (sv_games s)")
  case True
  with abandon_event [OF assms, of p] obtain mid where
    "lobby_step (account_key x) (lobby_of x s) (Resigns p mid) (lobby_of x (server_abandon (srv_deps x) p s))"
    by auto
  then show ?thesis by (rule one_eventI) simp
next
  case False
  with abandon_event [OF assms, of p] show ?thesis by (simp add: one_event_same)
qed

lemma operation_events:
  assumes "inj (ext_uuid x)" and "server_inv x good s"
  shows "one_event x (by_player p) s (snd (server_join (srv_deps x) p s))"
    and "one_event x (by_player p) s (server_leave p s)"
    and "one_event x (by_player p) s (snd (server_move (srv_deps x) p c s))"
    and "one_event x (by_player p) s (server_abandon (srv_deps x) p s)"
proof -
  note I = server_invD [OF assms(2)]
  obtain e s1 where join: "server_join (srv_deps x) p s = (e, s1)" by fastforce
  from join_event [OF assms(1) I join] have "one_event x (by_player p) s s1"
    by (elim disjE exE conjE) (rule one_event_same one_eventI; assumption)+
  then show "one_event x (by_player p) s (snd (server_join (srv_deps x) p s))" by (simp add: join)
  show "one_event x (by_player p) s (server_leave p s)"
    using leave_event [OF I(1), of p]
    by (cases "queue (sv_mm s) = [p]")
      (simp_all add: one_event_same one_eventI [where ev = "Leaves p"])
  obtain r s2 where move: "server_move (srv_deps x) p c s = (r, s2)" by fastforce
  from move_event [OF I(2) move] have "one_event x (by_player p) s s2"
    by (cases r) (auto intro: one_event_same elim: one_eventI)
  then show "one_event x (by_player p) s (snd (server_move (srv_deps x) p c s))" by (simp add: move)
  show "one_event x (by_player p) s (server_abandon (srv_deps x) p s)"
    by (rule resign_one_event [OF I(2)])
qed

lemma dispatch_event:
  assumes "inj (ext_uuid x)" and "server_inv x good s"
  shows "one_event x (by_player p) s (snd (client_dispatch (srv_deps x) p cmd s))"
proof -
  note ops = operation_events [OF assms, of p]
  obtain e s1 where join: "server_join (srv_deps x) p s = (e, s1)" by fastforce
  obtain r s2 where move: "server_move (srv_deps x) p (cmd_Cell cmd) s = (r, s2)" by fastforce
  have "one_event x (by_player p) s s1" using ops(1) by (simp add: join)
  moreover have "one_event x (by_player p) s s2" using ops(3) [of "cmd_Cell cmd"] by (simp add: move)
  ultimately show ?thesis
    by (simp add: client_dispatch_def join move ops(2,4) split: option.split sum.split)
qed

lemma push_frame_lobby [simp]: "lobby_of x (push_frame k f s) = lobby_of x s"
  by (rule lobby_of_cong) (simp_all add: push_frame_def srv_view_defs)

lemma on_hub_lobby [simp]: "lobby_of x (on_hub f s) = lobby_of x s"
  by (rule lobby_of_cong) (simp_all add: on_hub_def srv_view_defs)

lemma handleWS_lobby [simp]: "lobby_of x (snd (handleWS x r k s)) = lobby_of x s"
  by (rule lobby_of_cong) (simp_all add: handleWS_def srv_view_defs split: sum.split)

lemma command_event:
  assumes "inj (ext_uuid x)" and "server_inv x good s"
  shows "one_event x (by_player p) s (readPump_step x k p cmd s)"
proof -
  have "lobby_of x (readPump_step x k p cmd s) = lobby_of x (snd (client_dispatch (srv_deps x) p cmd s))"
    by (simp add: readPump_step_def split: prod.split sum.split)
  from one_event_cong [OF this dispatch_event [OF assms]] show ?thesis .
qed

text \<open>A player who waits plays nothing, so the end of a socket is one event at most.\<close>

lemma exit_event:
  assumes "server_inv x good s" and "h_heap (w_hub (sv_world s)) k = Some c" and "c_id c = p"
  shows "one_event x (by_player p) s (readPump_exit x k p s)"
proof -
  let ?s1 = "on_hub (\<lambda>h. heap_close k (Hub_unregister k p h)) s"
  have exit: "readPump_exit x k p s = server_abandon (srv_deps x) p (server_leave p ?s1)"
    by (rule readPump_exit_eq [OF server_inv_hub [OF assms(1)] assms(2,3)])
  have inv1: "server_inv x good ?s1"
    by (rule on_hub_inv [OF assms(1), where f = "\<lambda>h. heap_close k (Hub_unregister k p h)"])
      (rule unregister_close_inv [OF server_inv_hub [OF assms(1)] assms(2,3)])
  note I1 = server_invD [OF inv1] and I2 = server_invD [OF server_leave_inv [OF inv1, of p]]
  show ?thesis
  proof (cases "queue (sv_mm ?s1) = [p]")
    case True
    then have "\<not> Games_InMatch p (sv_games ?s1)" using I1(1) by (simp add: queue_inv_def)
    then have "lobby_of x (readPump_exit x k p s) = lobby_of x (server_leave p ?s1)"
      using abandon_event [OF I2(2), of p] by (simp add: exit server_leave_def)
    with leave_event [OF I1(1), of p] True show ?thesis
      by (intro one_eventI [of s "Leaves p"]) simp_all
  next
    case False
    then have "lobby_of x (server_leave p ?s1) = lobby_of x s" using leave_event [OF I1(1), of p] by simp
    with resign_one_event [OF I2(2), of p] show ?thesis by (simp add: exit one_event_def)
  qed
qed

lemma authenticated_event:
  assumes "\<And>p. one_event x (by_player p) s (snd (next p s))"
  shows "one_event x (requested x r s) s (snd (authenticated (srv_deps x) next r s))"
proof (cases "playerOf (srv_deps x) r (sv_world s)")
  case (Inl e)
  then show ?thesis by (simp add: authenticated_def)
next
  case (Inr p)
  with one_event_mono [OF assms [of p], of "requested x r s"] show ?thesis
    by (auto simp: authenticated_def requested_def)
qed

lemma register_request_event:
  assumes "inj (ext_uuid x)" and "server_inv x good s" and "route_of r = Inr Register"
  shows "one_event x (requested x r s) s (snd (handleRegister (srv_deps x) r s))"
proof (cases "rq_Credentials r")
  case None
  then show ?thesis by (simp add: handleRegister_def decode_body_def)
next
  case (Some creds)
  obtain res w where run:
    "Auth_Register (srv_auth x) (cr_Name creds) (cr_Password creds) (sv_world s) = (res, w)"
    by fastforce
  then have "snd (handleRegister (srv_deps x) r s) = s\<lparr>sv_world := w\<rparr>"
    using Some by (simp add: handleRegister_def decode_body_def srv_deps_def split: sum.split)
  with register_event [OF assms(1) server_invD(2) [OF assms(2)] run] assms(3) show ?thesis
    by (auto intro: one_event_same elim!: one_eventI simp: requested_def)
qed

lemma request_event:
  assumes "inj (ext_uuid x)" and "server_inv x good s"
  shows "one_event x (requested x r s) s (snd (handle (srv_deps x) r s))"
proof (cases "route_of r")
  case (Inl status)
  then show ?thesis by (simp add: handle_def)
next
  case (Inr rt)
  note ops = operation_events [OF assms]
  have join: "one_event x (by_player p) s (snd (handleJoin (srv_deps x) p s))" for p
    using ops(1) [of p] by (auto simp: handleJoin_def split: prod.split option.split)
  have leave: "one_event x (by_player p) s (snd (handleLeave p s))" for p
    using ops(2) [of p] by (simp add: handleLeave_def Let_def)
  have move: "one_event x (by_player p) s (snd (handleMove (srv_deps x) r p s))" for p
  proof (cases "rq_Cell r")
    case (Some c)
    with ops(3) [of p c] show ?thesis
      by (cases "server_move (srv_deps x) p c s"; cases "fst (server_move (srv_deps x) p c s)")
        (simp_all add: handleMove_def decode_body_def)
  qed (simp add: handleMove_def decode_body_def)
  have resign: "one_event x (by_player p) s (snd (handleResign (srv_deps x) p s))" for p
    using ops(4) [of p] by (simp add: handleResign_def)
  have state: "one_event x (by_player p) s (snd (handleState p s))" for p
    by (simp add: handleState_def split: sum.split)
  have "one_event x (requested x r s) s (snd (run_route (srv_deps x) rt r s))"
    using Inr register_request_event [OF assms, of r]
    by (cases rt) (simp_all add: authenticated_event join leave move resign state
        handleHealth_def handleLogin_def handleLeaderboard_def Let_def split: option.split sum.split)
  with Inr show ?thesis by (simp add: handle_def)
qed

section \<open>Every event can be requested\<close>

lemma offered_join:
  assumes "inj (ext_uuid x)" and "server_inv x good s" and "server_join (srv_deps x) p s = (e, s')"
    and "lobby_step (account_key x) (lobby_of x s) ev l" and "joins p ev"
  obtains "lobby_of x s' = l" and "e = None \<longleftrightarrow> (\<forall>q. ev \<noteq> Misses p q)"
  | q mid mid' where "ev = Meets p q mid" and "e = None"
      and "lobby_step (account_key x) (lobby_of x s) (Meets p q mid') (lobby_of x s')"
proof -
  from join_event [OF assms(1) server_invD [OF assms(2)] assms(3)] lobby_join_free [OF assms(4,5)]
  obtain ev' where ev': "lobby_step (account_key x) (lobby_of x s) ev' (lobby_of x s')"
    "actor ev' = Some p" "e = None \<longleftrightarrow> (\<forall>q. ev' \<noteq> Misses p q)"
    by blast
  from lobby_join_unique [OF assms(4,5) ev'(1,2)] ev' that show thesis by auto
qed

lemma offered_move:
  assumes "world_inv x good (sv_games s) (sv_world s)"
    and "lobby_step (account_key x) (lobby_of x s) (Plays p mid c) l"
  obtains st s' where "server_move (srv_deps x) p (int c) s = (Inr st, s')" and "lobby_of x s' = l"
proof -
  note I = world_invD [OF assms(1)]
  obtain px po hs where step: "games_on (lobby_of x s) mid = Some (px, po, hs)"
    "p = mover_of px po hs" "legal (hs @ [c])"
    using assms(2) by (rule plays_game)
  then obtain am where am: "active (sv_games s) mid = Some am" "game_of am = (px, po, hs)" by auto
  note live = games_inv_active(1) [OF I(1) am(1)]
  obtain hs' where hs': "game_of am = (am_X am, am_O am, hs')" "am_X am \<noteq> am_O am" "legal hs'"
    "\<not> decided hs'" "am_match am = match_of mid (am_X am) (am_O am) hs'"
    using live by (rule live_game) blast
  have same: "px = am_X am" "po = am_O am" "hs' = hs" using am(2) hs'(1) by simp_all
  have "p = am_X am \<or> p = am_O am" using step(2) same by (simp add: mover_of_def)
  with games_inv_active(2,3) [OF I(1) am(1)] have by_p: "byPlayer (sv_games s) p = Some mid" by auto
  then have found: "Games_lookup (sv_games s) p = Some am" by (simp add: Games_lookup_def am(1))
  have "move_error px po hs p (int c) = None"
    using step(2,3) by (simp add: move_error_None)
  from ApplyMove_match_of_ok [OF hs'(2,3)] this same
  have ok: "Match_ApplyMove (am_match am) p (int c) = (None, match_of mid px po (hs @ [c]))"
    using hs'(5) by simp
  obtain r g w where run: "Games_Move (srv_games x) p (int c) (sv_games s, sv_world s) = (r, g, w)"
    by (metis prod_cases3)
  from I(1) run have "\<exists>st. r = Inr st" by (cases rule: Move_cases) (use found ok in auto)
  then obtain st s' where r: "server_move (srv_deps x) p (int c) s = (Inr st, s')"
    using run by (auto simp: server_move_def srv_deps_def)
  from move_event [OF assms(1) r] obtain mid' where
    step': "lobby_step (account_key x) (lobby_of x s) (Plays p mid' c) (lobby_of x s')" by auto
  then obtain px' po' hs2 where "games_on (lobby_of x s) mid' = Some (px', po', hs2)" "p = mover_of px' po' hs2"
    by (rule plays_game)
  then obtain am' where am': "active (sv_games s) mid' = Some am'" "p = am_X am' \<or> p = am_O am'"
    by (auto simp: game_of_def mover_of_def)
  have "mid' = mid"
    by (rule one_match_each [OF I(1) am(1) \<open>p = am_X am \<or> p = am_O am\<close> am'])
  with lobby_step_deterministic [OF assms(2)] step' r that show thesis by simp
qed

lemma offered_resign:
  assumes "world_inv x good (sv_games s) (sv_world s)"
    and "lobby_step (account_key x) (lobby_of x s) (Resigns p mid) l"
  shows "Games_InMatch p (sv_games s) \<and> lobby_of x (server_abandon (srv_deps x) p s) = l"
proof -
  note I = world_invD [OF assms(1)]
  have unique: "mid' = mid"
    if other: "lobby_step (account_key x) (lobby_of x s) (Resigns p mid') l'" for mid' l'
  proof -
    obtain am am' where am: "active (sv_games s) mid = Some am" "p = am_X am \<or> p = am_O am"
      "active (sv_games s) mid' = Some am'" "p = am_X am' \<or> p = am_O am'"
      using assms(2) other by (auto simp: lobby_step_simps game_of_def)
    show ?thesis by (rule one_match_each [OF I(1) am])
  qed
  have "in_game (lobby_of x s) p"
    using assms(2) unfolding lobby_step_simps by (blast intro: in_gameI)
  then have playing: "Games_InMatch p (sv_games s)" using in_game_iff [OF I(1)] by simp
  with abandon_event [OF assms(1), of p] obtain mid' where
    "lobby_step (account_key x) (lobby_of x s) (Resigns p mid') (lobby_of x (server_abandon (srv_deps x) p s))"
    by auto
  with unique [OF this] lobby_step_deterministic [OF assms(2)] playing show ?thesis by simp
qed

lemma offered_leave:
  assumes "queue_inv (\<lambda>p. Games_InMatch p (sv_games s)) (sv_mm s)"
    and "lobby_step (account_key x) (lobby_of x s) (Leaves p) l"
  shows "lobby_of x (server_leave p s) = l"
proof -
  have "queue (sv_mm s) = [p]"
    using assms by (cases "queue (sv_mm s)") (auto simp: lobby_step_simps queue_inv_def)
  with leave_event [OF assms(1), of p] lobby_step_deterministic [OF assms(2)] show ?thesis by simp
qed

end

text \<open>The route of a request that asks for an event, and what the request has to carry.\<close>

fun asks_for :: "event \<Rightarrow> Request \<Rightarrow> bool" where
  "asks_for (Waits p) r \<longleftrightarrow> route_of r = Inr Join"
| "asks_for (Meets p q mid) r \<longleftrightarrow> route_of r = Inr Join"
| "asks_for (Misses p q) r \<longleftrightarrow> route_of r = Inr Join"
| "asks_for (Leaves p) r \<longleftrightarrow> route_of r = Inr Leave"
| "asks_for (Plays p mid c) r \<longleftrightarrow> route_of r = Inr Move \<and> rq_Cell r = Some (int c)"
| "asks_for (Resigns p mid) r \<longleftrightarrow> route_of r = Inr Resign"
| "asks_for (Registers i n) r \<longleftrightarrow> False"
| "asks_for Restarts r \<longleftrightarrow> False"

context wired
begin

lemma offered:
  assumes "inj (ext_uuid x)" and "server_inv x good s"
    and "playerOf (srv_deps x) r (sv_world s) = Inr p" and "actor ev = Some p" and "asks_for ev r"
    and "lobby_step (account_key x) (lobby_of x s) ev l"
    and "handle (srv_deps x) r s = (resp, s')"
  shows "(lobby_of x s' = l
      \<or> (\<exists>q mid mid'. ev = Meets p q mid
           \<and> lobby_step (account_key x) (lobby_of x s) (Meets p q mid') (lobby_of x s')))
    \<and> ((\<forall>q. ev \<noteq> Misses p q) \<longrightarrow> rs_Status resp \<in> {200, 202, 204})"
proof -
  note I = server_invD [OF assms(2)]
  show ?thesis
  proof (cases "joins p ev")
    case True
    then have "route_of r = Inr Join" using assms(4,5) by (auto simp: joins_def)
    then have h: "handle (srv_deps x) r s = handleJoin (srv_deps x) p s"
      using assms(3) by (simp add: handle_def authenticated_def)
    obtain e s1 where join: "server_join (srv_deps x) p s = (e, s1)" by fastforce
    have s1: "s1 = s'" and resp: "e = None \<longrightarrow> rs_Status resp = 202"
      using assms(7) by (auto simp: h handleJoin_def join writeJSON_def split: option.splits)
    show ?thesis
      using assms(1,2) join assms(6) True by (cases rule: offered_join) (use s1 resp in auto)
  next
    case False
    with assms(4-6) consider (leave) "ev = Leaves p" | (move) mid c where "ev = Plays p mid c"
      | (resign) mid where "ev = Resigns p mid"
      by (cases ev) (auto simp: joins_def)
    then show ?thesis
    proof cases
      case leave
      with assms(3,5,7) offered_leave [OF I(1)] assms(6) show ?thesis
        by (auto simp: handle_def authenticated_def handleLeave_def Let_def writeJSON_def)
    next
      case (move mid c)
      obtain st s1 where "server_move (srv_deps x) p (int c) s = (Inr st, s1)" "lobby_of x s1 = l"
        using I(2) assms(6) [unfolded move] by (rule offered_move)
      with move assms(3,5,7) show ?thesis
        by (auto simp: handle_def authenticated_def handleMove_def decode_body_def writeJSON_def)
    next
      case (resign mid)
      with assms(3,5,7) offered_resign [OF I(2)] assms(6) show ?thesis
        by (auto simp: handle_def authenticated_def handleResign_def)
    qed
  qed
qed

end

section \<open>Whole games\<close>

lemma legal_append: "legal (hs @ cs) \<Longrightarrow> legal hs \<and> (cs = [] \<or> \<not> decided hs)"
proof (induction cs rule: rev_induct)
  case (snoc c cs)
  then have "legal (hs @ cs)" "\<not> decided (hs @ cs)" by (simp_all flip: append_assoc)
  with snoc.IH show ?case by auto
qed simp

definition move_request :: "string \<Rightarrow> nat \<Rightarrow> Request" where
  "move_request tok c =
     \<lparr>rq_Method = ''POST'', rq_Path = ''/match/move'', rq_Authorization = bearer @ tok,
      rq_Limit = [], rq_Credentials = None, rq_Cell = Some (int c)\<rparr>"

text \<open>The players with the tokens \<open>tx\<close> and \<open>to\<close> take turns; \<open>k\<close> moves were made before.\<close>

fun play_moves ::
  "'s Ext \<Rightarrow> string \<Rightarrow> string \<Rightarrow> nat \<Rightarrow> nat list \<Rightarrow> 's World Server \<Rightarrow> Response list \<times> 's World Server" where
  "play_moves x tx to k [] s = ([], s)"
| "play_moves x tx to k (c # cs) s =
     (case handle (srv_deps x) (move_request (if even k then tx else to) c) s of
        (resp, s1) \<Rightarrow>
          (case play_moves x tx to (Suc k) cs s1 of (resps, s2) \<Rightarrow> (resp # resps, s2)))"

definition token_of :: "'s Ext \<Rightarrow> int \<Rightarrow> string \<Rightarrow> PlayerID \<Rightarrow> bool" where
  "token_of x now tok p \<longleftrightarrow>
     tok \<noteq> [] \<and> TrimSpace tok = tok \<and> AuthProvider_Verify (ext_jwt x) (ext_auth x) tok now = Inr p"

lemma playerOf_token:
  assumes "token_of x (w_now w) tok p"
  shows "playerOf (srv_deps x) (move_request tok c) w = Inr p"
  using assms
  by (simp add: token_of_def playerOf_def move_request_def CutPrefix_def Auth_Authenticate_def srv_deps_def
      srv_auth_def srv_tokens_def)

lemma route_move_request [simp]: "route_of (move_request tok c) = Inr Move"
  by (simp add: route_of_def patterns_def method_matches_def move_request_def)

lemma handle_move_request:
  assumes "playerOf dp (move_request tok c) (sv_world s) = Inr p"
  shows "handle dp (move_request tok c) s =
    (case server_move dp p (int c) s of
       (Inl e, s1) \<Rightarrow> (writeError e, s1)
     | (Inr st, s1) \<Rightarrow> (writeJSON 200 (StateBody (newMatchState st)), s1))"
proof -
  have "rq_Cell (move_request tok c) = Some (int c)" by (simp add: move_request_def)
  with assms show ?thesis by (simp add: handle_def authenticated_def handleMove_def decode_body_def)
qed

lemma srv_keeps_clock: "calls_keep (srv_games x) (\<lambda>w. w_now w = t)"
  by (simp add: calls_keep_def srv_defs split: prod.split)

lemma move_request_clock:
  assumes "games_inv (sv_games s)" and "handle (srv_deps x) (move_request tok c) s = (resp, s')"
  shows "w_now (sv_world s') = w_now (sv_world s)"
proof (cases "playerOf (srv_deps x) (move_request tok c) (sv_world s)")
  case (Inl e)
  with assms(2) show ?thesis by (simp add: handle_def authenticated_def)
next
  case (Inr p)
  obtain r g w where run: "Games_Move (srv_games x) p (int c) (sv_games s, sv_world s) = (r, g, w)"
    by (metis prod_cases3)
  have "w_now w = w_now (sv_world s)" by (rule Move_keeps [OF assms(1) srv_keeps_clock refl run])
  moreover have "server_move (srv_deps x) p (int c) s = (r, s\<lparr>sv_games := g, sv_world := w\<rparr>)"
    using run by (simp add: server_move_def srv_deps_def)
  ultimately show ?thesis
    using assms(2) by (auto simp: handle_move_request [OF Inr] split: sum.splits)
qed

context wired
begin

text \<open>What every call to a collaborator keeps, the operations keep.\<close>

lemma operations_keep:
  assumes "calls_keep (srv_games x) P" and "games_inv (sv_games s)" and "P (sv_world s)"
  shows "server_join (srv_deps x) p s = (e, s1) \<Longrightarrow> P (sv_world s1)"
    and "server_move (srv_deps x) p c s = (r, s2) \<Longrightarrow> P (sv_world s2)"
    and "P (sv_world (server_abandon (srv_deps x) p s))"
proof -
  show "P (sv_world s1)" if run: "server_join (srv_deps x) p s = (e, s1)"
  proof -
    obtain m g w where join:
      "Matchmaking_Join (games_matches (srv_games x)) p (sv_mm s, sv_games s, sv_world s) = (e, m, g, w)"
      and s1: "s1 = s\<lparr>sv_mm := m, sv_games := g, sv_world := w\<rparr>"
      using run by (auto simp: server_join_def srv_deps_def split: prod.splits)
    from join show ?thesis
    proof (cases rule: Join_effect)
      case (2 px po e')
      from Start_keeps [OF assms(1,3) 2] show ?thesis by (simp add: s1)
    qed (simp add: s1 assms(3))
  qed
  show "P (sv_world s2)" if "server_move (srv_deps x) p c s = (r, s2)"
  proof -
    obtain r' g w where move: "Games_Move (srv_games x) p c (sv_games s, sv_world s) = (r', g, w)"
      by (metis prod_cases3)
    from Move_keeps [OF assms(2,1,3) move] that move show ?thesis
      by (auto simp: server_move_def srv_deps_def)
  qed
  obtain g w where run: "Games_Abandon (srv_games x) p (sv_games s, sv_world s) = (g, w)" by fastforce
  from Abandon_keeps [OF assms(1,3) run] run show "P (sv_world (server_abandon (srv_deps x) p s))"
    by (simp add: server_abandon_def srv_deps_def)
qed

lemma one_move:
  assumes "inj (ext_uuid x)" and "server_inv x good s"
    and "games_on (lobby_of x s) mid = Some (px, po, hs)" and "legal (hs @ [c])"
    and "token_of x (w_now (sv_world s)) tok (mover_of px po hs)"
    and "handle (srv_deps x) (move_request tok c) s = (resp, s')"
  shows "rs_Status resp = 200 \<and> w_now (sv_world s') = w_now (sv_world s) \<and> server_inv x good s'
    \<and> lobby_of x s' =
       (if decided (hs @ [c])
        then (lobby_of x s)\<lparr>games_on := (games_on (lobby_of x s))(mid := None),
               accounts := settled px po (status_of (hs @ [c])) (accounts (lobby_of x s))\<rparr>
        else (lobby_of x s)\<lparr>games_on := (games_on (lobby_of x s))(mid \<mapsto> (px, po, hs @ [c]))\<rparr>)"
proof -
  note who = playerOf_token [OF assms(5), of c]
  note step = lobby_step.plays [OF assms(3) refl assms(4), of "account_key x"]
  have asks: "asks_for (Plays (mover_of px po hs) mid c) (move_request tok c)"
    by simp (simp add: move_request_def)
  obtain st s1 where move: "server_move (srv_deps x) (mover_of px po hs) (int c) s = (Inr st, s1)"
    by (rule offered_move [OF server_invD(2) [OF assms(2)] step])
  then have "rs_Status resp = 200"
    using assms(6) by (auto simp: handle_move_request [OF who] writeJSON_def)
  moreover have "server_inv x good s'"
    using handle_inv [OF assms(1,2), of "move_request tok c"] by (simp add: assms(6))
  moreover have "w_now (sv_world s') = w_now (sv_world s)"
    by (rule move_request_clock [OF world_invD(1) [OF server_invD(2) [OF assms(2)]] assms(6)])
  ultimately show ?thesis
    using offered [OF assms(1,2) who _ asks step assms(6)] by simp
qed

end

end
