(* ===== verification/Linearization.thy ===== *)
theory Linearization
  imports Schedules Lobby_Refinement
begin

text \<open>
  Operations that overlap act on the games one at a time: whatever runs between the critical
  sections, each of them is one event of a game or leaves the games alone. The games are seen as
  the lobby sees them, as the cells played by whom.
\<close>

section \<open>Events of the games\<close>

type_synonym game_map = "MatchID \<rightharpoonup> PlayerID \<times> PlayerID \<times> nat list"

definition games_of :: "Games \<Rightarrow> game_map" where
  "games_of g = map_option game_of \<circ> active g"

definition busy :: "game_map \<Rightarrow> PlayerID \<Rightarrow> bool" where
  "busy gs p \<longleftrightarrow> (\<exists>mid px po hs. gs mid = Some (px, po, hs) \<and> (p = px \<or> p = po))"

text \<open>In \<open>Meets p q mid\<close> the player \<open>q\<close> has waited and plays X.\<close>

inductive games_event :: "game_map \<Rightarrow> event \<Rightarrow> game_map \<Rightarrow> bool" where
  meets: "gs mid = None \<Longrightarrow> p \<noteq> q \<Longrightarrow> \<not> busy gs p \<Longrightarrow> \<not> busy gs q \<Longrightarrow>
    games_event gs (Meets p q mid) (gs(mid \<mapsto> (q, p, [])))"
| plays: "gs mid = Some (px, po, hs) \<Longrightarrow> p = mover_of px po hs \<Longrightarrow> legal (hs @ [c]) \<Longrightarrow>
    games_event gs (Plays p mid c)
      (if decided (hs @ [c]) then gs(mid := None) else gs(mid \<mapsto> (px, po, hs @ [c])))"
| resigns: "gs mid = Some (px, po, hs) \<Longrightarrow> p = px \<or> p = po \<Longrightarrow>
    games_event gs (Resigns p mid) (gs(mid := None))"

inductive games_run :: "game_map \<Rightarrow> event list \<Rightarrow> game_map \<Rightarrow> bool" where
  idle: "games_run gs [] gs"
| act: "games_run gs es gs1 \<Longrightarrow> games_event gs1 e gs2 \<Longrightarrow> games_run gs (es @ [e]) gs2"

lemma games_of_sel [simp]: "games_of g mid = map_option game_of (active g mid)"
  by (simp add: games_of_def)

lemma busy_InMatch:
  assumes "games_inv g"
  shows "busy (games_of g) p \<longleftrightarrow> Games_InMatch p g"
proof
  assume "busy (games_of g) p"
  then obtain mid am where "active g mid = Some am" "p = am_X am \<or> p = am_O am"
    by (auto simp: busy_def game_of_def)
  with games_inv_active(2,3) [OF assms this(1)] show "Games_InMatch p g"
    by (auto simp: Games_InMatch_def)
next
  assume "Games_InMatch p g"
  then obtain mid where "byPlayer g p = Some mid" by (auto simp: Games_InMatch_def)
  from games_inv_player [OF assms this] obtain am where
    "active g mid = Some am" "p = am_X am \<or> p = am_O am" .
  then have "games_of g mid = Some (am_X am, am_O am, cells_of (m_moves (am_match am)))"
    "p = am_X am \<or> p = am_O am" by (simp_all add: game_of_def)
  then show "busy (games_of g) p" unfolding busy_def by blast
qed

section \<open>The sections\<close>

lemma Move_games:
  assumes "games_inv g" and "Games_Move d p c (g, w) = (Inr st, g', w')"
  obtains mid px po hs where "games_of g mid = Some (px, po, hs)" and "p = mover_of px po hs"
    and "legal (hs @ [nat c])"
    and "games_of g' = (if decided (hs @ [nat c]) then (games_of g)(mid := None)
      else (games_of g)(mid \<mapsto> (px, po, hs @ [nat c])))"
proof -
  from assms show thesis
  proof (cases rule: Move_cases)
    case (Running am m1 mid)
    obtain hs where hs: "game_of am = (am_X am, am_O am, hs)" "legal hs" "am_X am \<noteq> am_O am"
      "am_match am = match_of mid (am_X am) (am_O am) hs"
      using Running(4) by (rule live_game)
    note move = mover_unique [OF Running(5) [unfolded hs(4)] hs(3,2)]
    have "\<not> decided (hs @ [nat c])" using Running(6) move status_of_decided by (metis match_of_sel(5))
    moreover have "game_of (after_move am m1) = (am_X am, am_O am, hs @ [nat c])"
      using after_move_players [OF Running(5)] move by (simp add: game_of_def)
    ultimately show thesis
      using Running(3,8) hs(1) move
      by (intro that [of mid "am_X am" "am_O am" hs]) (simp_all add: games_of_def fun_eq_iff)
  next
    case (Finishing am m1 mid)
    obtain hs where hs: "game_of am = (am_X am, am_O am, hs)" "legal hs" "am_X am \<noteq> am_O am"
      "am_match am = match_of mid (am_X am) (am_O am) hs"
      using Finishing(4) by (rule live_game)
    note move = mover_unique [OF Finishing(5) [unfolded hs(4)] hs(3,2)]
    have "decided (hs @ [nat c])" using Finishing(6) move status_of_decided by (metis match_of_sel(5))
    then show thesis
      using Finishing(3,8) hs(1) move live_id [OF Finishing(4)]
      by (intro that [of mid "am_X am" "am_O am" hs]) (simp_all add: games_of_def fun_eq_iff forget_unfold)
  qed simp_all
qed

lemma Move_section_Inr:
  assumes "Move_section p c g = (Inr (st, r, rs, evs), g1)"
  obtains mid am m1 where "byPlayer g p = Some mid" and "active g mid = Some am"
    and "Match_ApplyMove (am_match am) p c = (None, m1)" and "r = am_record (after_move am m1)"
  using assms by (auto simp: Move_section_def Let_def split: option.splits prod.splits)

text \<open>An accepted move is an event of the match its record is for, and the last move of that record.\<close>

lemma Move_section_event:
  assumes "games_inv g" and "Move_section p c g = (Inr (st, r, rs, evs), g1)"
  shows "games_event (games_of g) (Plays p (r_ID r) (nat c)) (games_of g1)
    \<and> r_Moves r \<noteq> [] \<and> mv_Cell (last (r_Moves r)) = c"
proof -
  have run: "Games_Move d p c (g, w) = (Inr st, g1,
      Games_dispatch d evs (fold (Games_record d) rs (Games_persist d r w)))" for d :: "'w GamesDeps" and w
    using assms(2) by (simp add: Move_sections)
  obtain mid px po hs where M: "games_of g mid = Some (px, po, hs)" "p = mover_of px po hs" "legal (hs @ [nat c])"
    "games_of g1 = (if decided (hs @ [nat c]) then (games_of g)(mid := None)
      else (games_of g)(mid \<mapsto> (px, po, hs @ [nat c])))"
    by (rule Move_games [OF assms(1) run])
  obtain mid' am m1 where S: "byPlayer g p = Some mid'" "active g mid' = Some am"
    "Match_ApplyMove (am_match am) p c = (None, m1)" "r = am_record (after_move am m1)"
    using assms(2) by (rule Move_section_Inr)
  obtain am0 where am0: "active g mid = Some am0" "game_of am0 = (px, po, hs)" using M(1) by auto
  then have "p = am_X am0 \<or> p = am_O am0" using M(2) by (auto simp: mover_of_def game_of_def)
  with games_inv_active(2,3) [OF assms(1) am0(1)] S(1) have mid: "mid' = mid" by auto
  note live = games_inv_active(1) [OF assms(1) S(2)]
  obtain hs' where hs': "am_X am \<noteq> am_O am" "legal hs'" "am_match am = match_of mid' (am_X am) (am_O am) hs'"
    using live by (rule live_game) blast
  note move = mover_unique [OF S(3) [unfolded hs'(3)] hs'(1,2)]
  have "r_ID r = mid" "r_Moves r = moves_of (hs' @ [nat c])"
    using move by (simp_all add: S(4) am_record_def Let_def Match_ID_def Match_Moves_def mid)
  moreover have "moves_of (hs' @ [nat c]) \<noteq> [] \<and> mv_Cell (last (moves_of (hs' @ [nat c]))) = c"
    using move by simp
  moreover have "games_event (games_of g) (Plays p mid (nat c)) (games_of g1)"
    unfolding M(4) by (rule games_event.plays [where gs = "games_of g", OF M(1-3)])
  ultimately show ?thesis by simp
qed

lemma Abandon_section_event:
  assumes "games_inv g" and "Abandon_section p g = (Some a, g1)"
  shows "\<exists>mid. games_event (games_of g) (Resigns p mid) (games_of g1)"
proof (cases "Games_lookup g p")
  case None
  with assms show ?thesis by (simp add: Abandon_section_def)
next
  case (Some am)
  obtain mid where mid: "byPlayer g p = Some mid" "active g mid = Some am" "live mid am"
    using lookup_Some [OF assms(1) Some] .
  have p: "p = am_X am \<or> p = am_O am" using index_players [OF assms(1) mid(2), of p] mid(1) by simp
  have "games_of g1 = (games_of g)(mid := None)"
    using assms(2) Some live_id [OF mid(3)]
    by (auto simp: Abandon_section_def Let_def games_of_def forget_unfold fun_eq_iff)
  moreover have "games_of g mid = Some (am_X am, am_O am, cells_of (m_moves (am_match am)))"
    by (simp add: mid(2) game_of_def)
  ultimately show ?thesis using games_event.resigns p by metis
qed

lemma Start_section_event:
  assumes "games_inv g" and "active g mid = None"
    and "Start_section d mid xp op px po (g, w) = (e, g1, w1)"
  shows "games_of g1 = games_of g \<or> games_event (games_of g) (Meets po px mid) (games_of g1)"
  using assms(3)
proof (cases rule: Start_section_cases)
  case 2
  then have free: "\<not> busy (games_of g) po" "\<not> busy (games_of g) px"
    by (simp_all add: busy_InMatch [OF assms(1)] Games_InMatch_def)
  have "games_of g1 = (games_of g)(mid \<mapsto> (px, po, []))"
    by (simp add: 2(4) games_of_def fun_eq_iff game_of_def)
  with games_event.meets [OF _ _ free, of mid] assms(2) 2(1) show ?thesis by simp
qed simp
section \<open>Every step\<close>

lemma run_task_games:
  assumes "conf_inv x k" and "cf_tasks k = before @ t # after"
    and "run_task (srv_games x) t (cf_mm k, cf_games k, cf_world k) = (ts, m1, g1, w1)"
  shows "games_of g1 = games_of (cf_games k)
    \<or> (\<exists>mid xp op px po. t = LockedStart mid xp op px po
        \<and> games_event (games_of (cf_games k)) (Meets po px mid) (games_of g1))"
proof (cases t)
  case (LockedStart mid xp op px po)
  then obtain e where start: "Start_section (srv_games x) mid xp op px po (cf_games k, cf_world k) = (e, g1, w1)"
    using assms(3) by (auto split: prod.splits)
  have "games_inv (cf_games k)" "active (cf_games k) mid = None"
    using assms(1) by (auto simp: conf_inv_def assms(2) LockedStart)
  from Start_section_event [OF this start] LockedStart show ?thesis by blast
next
  case (NotifyAll evs)
  with assms(3) show ?thesis by (cases evs) auto
qed (use assms(3) in \<open>auto split: prod.splits option.splits sum.splits\<close>)

lemma cstep_games:
  assumes "conf_inv x k" and "cstep x k k'"
  shows "games_of (cf_games k') = games_of (cf_games k)
    \<or> (\<exists>ev. games_event (games_of (cf_games k)) ev (games_of (cf_games k')))"
  using assms(2)
proof cases
  case (move p c st r rs evs g1)
  have "games_inv (cf_games k)" using assms(1) by (simp add: conf_inv_def)
  from conjunct1 [OF Move_section_event [OF this move(2)]] show ?thesis by (auto simp: move(1))
next
  case (abandon p a g1)
  have "games_inv (cf_games k)" using assms(1) by (simp add: conf_inv_def)
  from Abandon_section_event [OF this abandon(2)] show ?thesis by (auto simp: abandon(1))
next
  case (run before t after ts m1 g1 w1)
  from run_task_games [OF assms(1) run(2,3)] show ?thesis by (auto simp: run(1))
qed simp_all

lemma open_conf_run:
  assumes "inj (ext_uuid x)" and "open_conf x k"
  shows "\<exists>evs. games_run Map.empty evs (games_of (cf_games k))"
  using assms(2)
proof induction
  case (boot w)
  have "games_of NewGames = Map.empty" by (simp add: games_of_def NewGames_def)
  with games_run.idle [of Map.empty] show ?case by auto
next
  case (step k k')
  from cstep_games [OF open_conf_inv [OF assms(1) step(1)] step(2)] step(3)
  show ?case by (metis games_run.act)
qed simp

end
