(* ===== verification/Race_Theorems.thy ===== *)
theory Race_Theorems
  imports Linearization Schedules Sample_Run Server_Props Match_Theorems
begin

text \<open>
  The properties of operations that overlap: what the two mutexes guarantee under every
  interleaving, and two things they do not, each shown by a run.
\<close>

text \<open>A pairing: the players are read, the match is started, and its record is still to be saved.\<close>

lemma sample_conf:
  "open_conf demo \<lparr>cf_mm = \<lparr>queue = []\<rparr>, cf_games = playing_games, cf_world = playing_world, cf_tasks = []\<rparr>"
proof -
  let ?conf = "\<lambda>m g w ts. \<lparr>cf_mm = m, cf_games = g, cf_world = w, cf_tasks = ts\<rparr>"
  have "open_conf demo (?conf NewMatchmaking NewGames two_players_world [])" by (rule open_conf.boot)
  from open_conf.step [OF this cstep.join [of "''1''"]]
  have "open_conf demo (?conf NewMatchmaking NewGames two_players_world [Enqueue ''1''])"
    by (simp add: NewGames_free)
  from open_conf.step [OF this cstep.join [of "''3''"]]
  have "open_conf demo (?conf NewMatchmaking NewGames two_players_world [Enqueue ''1'', Enqueue ''3''])"
    by (simp add: NewGames_free)
  from open_conf.step [OF this cstep.run [where before = "[]" and t = "Enqueue ''1''"]]
  have "open_conf demo (?conf \<lparr>queue = [''1'']\<rparr> NewGames two_players_world [Enqueue ''3''])"
    by (simp add: Join_section_def NewMatchmaking_def slices_Contains_def)
  from open_conf.step [OF this cstep.run [where before = "[]" and t = "Enqueue ''3''"]]
  have "open_conf demo (?conf \<lparr>queue = []\<rparr> NewGames two_players_world [ReadPlayers ''1'' ''3''])"
    by (simp add: Join_section_def slices_Contains_def slices_Delete_def Let_def)
  from open_conf.step [OF this cstep.run [where before = "[]" and t = "ReadPlayers ''1'' ''3''"]]
  have "open_conf demo (?conf \<lparr>queue = []\<rparr> NewGames (two_players_world\<lparr>w_entropy := 5\<rparr>)
      [LockedStart ''4'' ann bob ''1'' ''3''])"
    by (simp add: sample_players sample_newid)
  from open_conf.step [OF this cstep.run [where before = "[]" and t = "LockedStart ''4'' ann bob ''1'' ''3''"]]
    sample_start
  show ?thesis
    by (simp add: Start_sections sample_players sample_newid)
qed

text \<open>C8. Whatever joins, moves, abandons and pairings overlap, and whatever the stores answer or
  anything outside does to them meanwhile, nobody is ever in two matches: every
  match in progress is a legal unfinished game under its own id, both its players are indexed
  under it and under nothing else, and between two critical sections at most one player waits.\<close>

theorem interleavings_safe:
  assumes "inj (ext_uuid x)" and "open_conf x k"
  shows "length (queue (cf_mm k)) \<le> 1
    \<and> (\<forall>mid am. active (cf_games k) mid = Some am \<longrightarrow>
         reachable_match mid (am_X am) (am_O am) (am_match am)
         \<and> \<not> Status_IsFinished (m_status (am_match am))
         \<and> {p. byPlayer (cf_games k) p = Some mid} = {am_X am, am_O am})
    \<and> (\<forall>p mid. byPlayer (cf_games k) p = Some mid \<longrightarrow> mid \<in> dom (active (cf_games k)))"
proof -
  have inv: "games_inv (cf_games k)" and len: "length (queue (cf_mm k)) \<le> 1"
    using open_conf_inv [OF assms] by (simp_all add: conf_inv_def)
  have players: "{p. byPlayer (cf_games k) p = Some mid} = {am_X am, am_O am}"
    if "active (cf_games k) mid = Some am" for mid am
    using index_players [OF inv that] by auto
  have "mid \<in> dom (active (cf_games k))" if "byPlayer (cf_games k) p = Some mid" for p mid
    using that by (rule games_inv_player [OF inv]) blast
  moreover have "reachable_match mid (am_X am) (am_O am) (am_match am)
      \<and> \<not> Status_IsFinished (m_status (am_match am))"
    if "active (cf_games k) mid = Some am" for mid am
    using games_inv_active(1) [OF inv that] by (simp add: live_def)
  ultimately show ?thesis using len players by simp
qed

theorem interleavings_safe_witness:
  "{p. byPlayer playing_games p = Some ''4''} = {''1'', ''3''}"
proof -
  have "active playing_games ''4'' = Some first_match" by (simp add: playing_games_def)
  with interleavings_safe [OF demo_uuid sample_conf] show ?thesis by (simp del: One_nat_def)
qed

text \<open>C9. Operations that overlap are atomic on the games. Whatever joins, moves, resignations and
  pairings are under way, whatever the stores answer and whatever happens outside in between, the
  games there are have come about by events one after the other, each allowed by the rules: two
  free players meet, the one whose turn it is plays a free cell of a game not over, or a player of a
  game resigns. The next step of any operation is at most one such event; the move a player is
  answered with as accepted is one, by that player and of that cell, and the record that is going
  to be saved for it ends with it.\<close>

theorem games_linearize:
  assumes "inj (ext_uuid x)" and "open_conf x k"
  shows "(\<exists>evs. games_run Map.empty evs (games_of (cf_games k)))
    \<and> (\<forall>k'. cstep x k k' \<longrightarrow> games_of (cf_games k') = games_of (cf_games k)
         \<or> (\<exists>ev. games_event (games_of (cf_games k)) ev (games_of (cf_games k'))))
    \<and> (\<forall>p c st r rs evs g1. Move_section p c (cf_games k) = (Inr (st, r, rs, evs), g1) \<longrightarrow>
         games_event (games_of (cf_games k)) (Plays p (r_ID r) (nat c)) (games_of g1)
         \<and> r_Moves r \<noteq> [] \<and> mv_Cell (last (r_Moves r)) = c)"
proof -
  note inv = open_conf_inv [OF assms]
  then have g: "games_inv (cf_games k)" by (simp add: conf_inv_def)
  show ?thesis
    using open_conf_run [OF assms] cstep_games [OF inv] Move_section_event [OF g] by blast
qed

theorem games_linearize_witness:
  "\<exists>evs. games_run Map.empty evs (games_of playing_games) \<and> games_of playing_games ''4'' = Some (''1'', ''3'', [])"
  using games_linearize [OF demo_uuid sample_conf] by (auto simp: playing_games_def game_of_def)



section \<open>Runs\<close>

lemma conf_run:
  assumes "reachable_conf x \<lparr>cf_mm = m, cf_games = g, cf_world = w, cf_tasks = before @ t # after\<rparr>"
    and "run_task (srv_games x) t (m, g, w) = (ts, m1, g1, w1)"
  shows "reachable_conf x \<lparr>cf_mm = m1, cf_games = g1, cf_world = w1, cf_tasks = before @ ts @ after\<rparr>"
  by (rule reachable_conf.step [OF assms(1)], rule cstep.run [where t = t])
    (simp_all add: assms(2))

lemmas conf_run_first = conf_run [where before = "[]", simplified]

lemma conf_join:
  assumes "reachable_conf x \<lparr>cf_mm = m, cf_games = g, cf_world = w, cf_tasks = ts\<rparr>"
    and "\<not> Games_InMatch p g"
  shows "reachable_conf x \<lparr>cf_mm = m, cf_games = g, cf_world = w, cf_tasks = ts @ [Enqueue p]\<rparr>"
  using reachable_conf.step [OF assms(1) cstep.join [of p]] assms(2) by simp

lemma conf_move:
  assumes "reachable_conf x \<lparr>cf_mm = m, cf_games = g, cf_world = w, cf_tasks = ts\<rparr>"
    and "Move_section p c g = (Inr (st, r, results, evs), g1)"
  shows "reachable_conf x \<lparr>cf_mm = m, cf_games = g1, cf_world = w,
    cf_tasks = ts @ [SaveMatch r results evs]\<rparr>"
  using reachable_conf.step [OF assms(1) cstep.move [of p c _ st r results evs g1]] assms(2) by simp

text \<open>With nobody online, delivering events changes nothing.\<close>

lemma conf_notify:
  assumes "h_clients (w_hub w) = []"
  shows "reachable_conf x \<lparr>cf_mm = m, cf_games = g, cf_world = w, cf_tasks = before @ NotifyAll evs # after\<rparr> \<Longrightarrow>
    reachable_conf x \<lparr>cf_mm = m, cf_games = g, cf_world = w, cf_tasks = before @ after\<rparr>"
proof (induction evs)
  case Nil
  from conf_run [OF Nil] show ?case by simp
next
  case (Cons e evs)
  have "w\<lparr>w_hub := w_hub w\<rparr> = w" by simp
  with assms have "run_task (srv_games x) (NotifyAll (e # evs)) (m, g, w) = ([NotifyAll evs], m, g, w)"
    by (simp add: srv_games_def srv_notifier_def Hub_Notify_def)
  from conf_run [OF Cons.prems this] show ?case by (intro Cons.IH) simp
qed

text \<open>C31. \<open>Join\<close> checks that the player is in no match before it takes the lock of the queue, so
  two joins of one player that overlap can leave that player waiting while playing: the next
  player to join is paired with somebody who cannot be started, and gets \<open>ALREADY_IN_MATCH\<close>.\<close>

theorem waiting_while_playing:
  "\<exists>k. reachable_conf demo k \<and> cf_tasks k = [] \<and> queue (cf_mm k) = [''1'']
     \<and> Games_InMatch ''1'' (cf_games k)"
proof -
  let ?w = two_players_world and ?q = "\<lambda>ps. \<lparr>queue = ps\<rparr>"
  let ?conf = "\<lambda>m g w ts. reachable_conf demo \<lparr>cf_mm = m, cf_games = g, cf_world = w, cf_tasks = ts\<rparr>"
  have "?conf (?q []) NewGames ?w []"
    using reachable_conf.quiet [OF registered_reachable]
    by (simp add: quiet_def registered_eq NewMatchmaking_def)
  from conf_join [OF conf_join [OF conf_join [OF this NewGames_free] NewGames_free] NewGames_free]
  have "?conf (?q []) NewGames ?w [Enqueue ''1'', Enqueue ''1'', Enqueue ''3'']" by simp
  then have "?conf (?q [''1'']) NewGames ?w [Enqueue ''1'', Enqueue ''3'']"
    by (rule conf_run_first [where ts = "[]", simplified]) (simp add: Join_section_def slices_Contains_def)
  then have "?conf (?q []) NewGames ?w ([Enqueue ''1''] @ [ReadPlayers ''1'' ''3''])"
    using conf_run [of demo "?q [''1'']" NewGames ?w "[Enqueue ''1'']" "Enqueue ''3''" "[]"]
    by (simp add: Join_section_def slices_Contains_def slices_Delete_def Let_def)
  then have "?conf (?q []) NewGames (?w\<lparr>w_entropy := 5\<rparr>)
      ([Enqueue ''1''] @ [LockedStart ''4'' ann bob ''1'' ''3''])"
    using conf_run [of demo "?q []" NewGames ?w "[Enqueue ''1'']" "ReadPlayers ''1'' ''3''" "[]"]
    by (simp add: sample_players sample_newid)
  then have "?conf (?q []) playing_games playing_world [Enqueue ''1'']"
    using conf_run [of demo "?q []" NewGames "?w\<lparr>w_entropy := 5\<rparr>" "[Enqueue ''1'']"
        "LockedStart ''4'' ann bob ''1'' ''3''" "[]"] sample_start
    by (simp add: Start_sections sample_players sample_newid)
  then have "?conf (?q [''1'']) playing_games playing_world []"
    by (rule conf_run_first [where ts = "[]", simplified]) (simp add: Join_section_def slices_Contains_def)
  then show ?thesis
    by (intro exI conjI) (assumption, simp_all add: Games_InMatch_def playing_games_def)
qed

lemma Move_section_running:
  assumes "byPlayer g p = Some mid" and "active g mid = Some am"
    and "Match_ApplyMove (am_match am) p c = (None, m1)" and "\<not> Status_IsFinished (m_status m1)"
  shows "Move_section p c g =
    (Inr (am_stateFor (after_move am m1) p, am_record (after_move am m1), [],
          am_events (after_move am m1) EventStateChanged),
     g\<lparr>active := (active g)(mid \<mapsto> after_move am m1)\<rparr>)"
  using assms by (simp add: Move_section_def Match_Status_def Let_def)

text \<open>C32. \<open>Move\<close> saves the match after it has released the lock, so the saves of two moves can
  overtake each other: after everything has been written, the stored record can be the one of
  the earlier move, and a restart would resume from a position that is no longer the match.\<close>

theorem stale_record_race:
  "\<exists>k am r. reachable_conf demo k \<and> cf_tasks k = []
     \<and> active (cf_games k) ''4'' = Some am \<and> m_moves (am_match am) = [mvX 4, mvO 0]
     \<and> srv_MatchByID demo ''4'' (cf_world k) = Inr (Some r) \<and> r_Moves r = [mvX 4]"
proof -
  let ?r1 = "am_record (mid_match [4])" and ?r2 = "am_record (mid_match [4, 0])"
  let ?ev = "\<lambda>hs. am_events (mid_match hs) EventStateChanged" and ?save = "Games_persist (srv_games demo)"
  let ?conf = "\<lambda>g w ts. reachable_conf demo \<lparr>cf_mm = NewMatchmaking, cf_games = g, cf_world = w, cf_tasks = ts\<rparr>"
  have moves: "Match_ApplyMove (match_of ''4'' ''1'' ''3'' []) ''1'' 4 = (None, match_of ''4'' ''1'' ''3'' [4])"
    "Match_ApplyMove (match_of ''4'' ''1'' ''3'' [4]) ''3'' 0 = (None, match_of ''4'' ''1'' ''3'' [4, 0])"
    "\<not> Status_IsFinished (status_of [4])" "\<not> Status_IsFinished (status_of [4, 0])"
    by code_simp+
  have move1: "Move_section ''1'' 4 (mid_games []) =
      (Inr (am_stateFor (mid_match [4]) ''1'', ?r1, [], ?ev [4]), mid_games [4])"
    using Move_section_running [of "mid_games []" "''1''" "''4''" "mid_match []" 4] moves
    by (simp add: mid_after mid_update)
  have move2: "Move_section ''3'' 0 (mid_games [4]) =
      (Inr (am_stateFor (mid_match [4, 0]) ''3'', ?r2, [], ?ev [4, 0]), mid_games [4, 0])"
    using Move_section_running [of "mid_games [4]" "''3''" "''4''" "mid_match [4]" 0] moves
    by (simp add: mid_after mid_update)
  have offline: "h_clients (w_hub (mid_world hs)) = []" for hs by (simp add: NewHub_def)
  have save2: "?save ?r2 (mid_world []) = mid_world [4, 0]"
    by (subst sample_save [where r = "am_record (mid_match [])"]) (simp_all add: mid_world_def)
  have save1: "?save ?r1 (mid_world [4, 0]) = mid_world [4]"
    by (subst sample_save [where r = "am_record (mid_match [4, 0])"]) (simp_all add: mid_world_def)
  have "?conf (mid_games []) (mid_world []) []"
    using reachable_conf.quiet [OF playing_reachable] by (simp add: quiet_def mid_start [symmetric])
  from conf_move [OF conf_move [OF this move1] move2]
  have "?conf (mid_games [4, 0]) (mid_world [])
      ([SaveMatch ?r1 [] (?ev [4])] @ SaveMatch ?r2 [] (?ev [4, 0]) # [])" by simp
  from conf_run [OF this run_task.simps(4)]
  have "?conf (mid_games [4, 0]) (mid_world [4, 0])
      ([SaveMatch ?r1 [] (?ev [4])] @ NotifyAll (?ev [4, 0]) # [])"
    by (simp add: after_save_def save2)
  from conf_notify [OF offline this]
  have "?conf (mid_games [4, 0]) (mid_world [4, 0]) ([] @ SaveMatch ?r1 [] (?ev [4]) # [])" by simp
  from conf_run [OF this run_task.simps(4)]
  have "?conf (mid_games [4, 0]) (mid_world [4]) ([] @ NotifyAll (?ev [4]) # [])"
    by (simp add: after_save_def save1)
  from conf_notify [OF offline this]
  have conf: "?conf (mid_games [4, 0]) (mid_world [4]) []" by simp
  have hist: "moves_of [4] = [mvX 4]" "moves_of [4, 0] = [mvX 4, mvO 0]" by code_simp+
  then have "srv_MatchByID demo ''4'' (mid_world [4]) = Inr (Some ?r1)"
    by (intro sample_MatchByID [OF mid_world_sel(4)])
      (simp_all add: storable_record_def storable_def int64_def)
  with hist show ?thesis
    using conf by (intro exI [of _ "mid_match [4, 0]"] exI [of _ ?r1] exI conjI) (assumption, simp_all)
qed

end
