(* ===== verification/Store_Theorems.thy ===== *)
theory Store_Theorems
  imports Conformance Server_Props Sample_Run
begin

text \<open>
  The properties of the two stores: they pass the conformance suite, no sequence of calls tells
  them apart, and what a database that fails looks like to the rest of the server. Also how the
  program starts.
\<close>

section \<open>The conformance suite\<close>

text \<open>C17. Both stores pass the whole conformance suite on an empty store: the one in memory, and the
  one over SQLite with any driver that does what SQL says.\<close>

theorem stores_conform:
  assumes "sqlite_laws drv healthy tables" and "healthy d"
    and "tables d = Some \<lparr>t_players = [], t_matches = []\<rparr>"
  shows "RunPlayerStore (sqlite_backend drv uni) d \<and> RunMatchStore (sqlite_backend drv uni) d
    \<and> RunPlayerStore (mem_backend uni) NewStores \<and> RunMatchStore (mem_backend uni) NewStores"
  using empty_store.player_suite [OF sqlite_suite [OF assms]]
    empty_store.match_suite [OF sqlite_suite [OF assms]] mem_suite.player_suite mem_suite.match_suite
  by blast

theorem stores_conform_witness:
  "top_orders (sqlite_backend table_driver (\<lambda>s. s)) (Some \<lparr>t_players = [], t_matches = []\<rparr>)
   \<and> replays_into_position (mem_backend (\<lambda>s. s)) NewStores"
  using stores_conform [OF table_sql.laws, of "Some \<lparr>t_players = [], t_matches = []\<rparr>" "\<lambda>s. s"]
  by (simp add: RunPlayerStore_def RunMatchStore_def)

section \<open>Substitution\<close>

text \<open>The calls of the interface of a store, and their answers.\<close>

datatype call =
  CallCreate Player
| CallByName string
| CallByID PlayerID
| CallSave Player
| CallTop int
| CallSaveMatch MatchRecord
| CallMatchByID MatchID

datatype answer =
  Done "goerr option"
| Found "goerr + Player"
| Ranked "goerr + Player list"
| Stored "goerr + MatchRecord option"

fun run_call :: "'s Backend \<Rightarrow> call \<Rightarrow> 's \<Rightarrow> answer \<times> 's" where
  "run_call b (CallCreate p) s = (case bk_Create b p s of (e, s') \<Rightarrow> (Done e, s'))"
| "run_call b (CallByName n) s = (Found (bk_ByName b n s), s)"
| "run_call b (CallByID i) s = (Found (bk_ByID b i s), s)"
| "run_call b (CallSave p) s = (case bk_Save b p s of (e, s') \<Rightarrow> (Done e, s'))"
| "run_call b (CallTop n) s = (Ranked (bk_Top b n s), s)"
| "run_call b (CallSaveMatch r) s = (case bk_SaveMatch b r s of (e, s') \<Rightarrow> (Done e, s'))"
| "run_call b (CallMatchByID i) s = (Stored (bk_MatchByID b i s), s)"

fun run_calls :: "'s Backend \<Rightarrow> call list \<Rightarrow> 's \<Rightarrow> answer list" where
  "run_calls b [] s = []"
| "run_calls b (c # cs) s = (case run_call b c s of (a, s') \<Rightarrow> a # run_calls b cs s')"

text \<open>
  The abstract store is the two maps of the contract. A call is one the use cases make when an
  account to be created has a fresh identity (or a name that is taken), a player to be saved
  keeps its name, a limit is positive, and a record to be saved is of the same match as the one
  under its id.
\<close>

type_synonym abstract_store = "(PlayerID \<Rightarrow> Player option) \<times> (MatchID \<Rightarrow> MatchRecord option)"

definition has_key :: "(string \<Rightarrow> string) \<Rightarrow> (PlayerID \<Rightarrow> Player option) \<Rightarrow> string \<Rightarrow> bool" where
  "has_key key v n \<longleftrightarrow> (\<exists>q \<in> ran v. key (p_Name q) = key n)"

fun call_ok :: "(string \<Rightarrow> string) \<Rightarrow> call \<Rightarrow> abstract_store \<Rightarrow> bool" where
  "call_ok key (CallCreate p) (v, m) = (has_key key v (p_Name p) \<or> v (p_ID p) = None)"
| "call_ok key (CallSave p) (v, m) = (\<forall>q. v (p_ID p) = Some q \<longrightarrow> p_Name p = p_Name q)"
| "call_ok key (CallTop n) (v, m) = (0 < n)"
| "call_ok key (CallSaveMatch r) (v, m) = (storable_record r \<and> same_match m r)"
| "call_ok key _ (v, m) = True"

fun call_effect :: "(string \<Rightarrow> string) \<Rightarrow> call \<Rightarrow> abstract_store \<Rightarrow> abstract_store" where
  "call_effect key (CallCreate p) (v, m) =
     (if has_key key v (p_Name p) then (v, m) else (v(p_ID p \<mapsto> p), m))"
| "call_effect key (CallSave p) (v, m) =
     (if v (p_ID p) = None then (v, m) else (v(p_ID p \<mapsto> p), m))"
| "call_effect key (CallSaveMatch r) (v, m) = (v, m(r_ID r \<mapsto> r))"
| "call_effect key _ (v, m) = (v, m)"

fun calls_ok :: "(string \<Rightarrow> string) \<Rightarrow> call list \<Rightarrow> abstract_store \<Rightarrow> bool" where
  "calls_ok key [] a = True"
| "calls_ok key (c # cs) a = (call_ok key c a \<and> calls_ok key cs (call_effect key c a))"

definition bk_abs :: "'s Backend \<Rightarrow> 's \<Rightarrow> abstract_store" where
  "bk_abs b s = (bk_view b s, bk_stored b s)"

text \<open>The answer of a call, as far as the abstract store determines it.\<close>

fun call_answer :: "(string \<Rightarrow> string) \<Rightarrow> call \<Rightarrow> abstract_store \<Rightarrow> answer \<Rightarrow> bool" where
  "call_answer key (CallCreate p) (v, m) a \<longleftrightarrow>
     a = Done (if has_key key v (p_Name p) then Some (Domain ErrNameTaken) else None)"
| "call_answer key (CallSave p) (v, m) a \<longleftrightarrow>
     a = Done (if v (p_ID p) = None then Some (Domain ErrPlayerNotFound) else None)"
| "call_answer key (CallSaveMatch r) (v, m) a \<longleftrightarrow> a = Done None"
| "call_answer key (CallByID i) (v, m) a \<longleftrightarrow>
     a = Found (case v i of None \<Rightarrow> Inl (Domain ErrPlayerNotFound) | Some p \<Rightarrow> Inr p)"
| "call_answer key (CallByName n) (v, m) a \<longleftrightarrow>
     (if has_key key v n then \<exists>p \<in> ran v. key (p_Name p) = key n \<and> a = Found (Inr p)
      else a = Found (Inl (Domain ErrPlayerNotFound)))"
| "call_answer key (CallTop n) (v, m) a \<longleftrightarrow>
     (\<exists>ps. distinct ps \<and> set ps = ran v \<and> sorted (map rank_of ps)
        \<and> a = Ranked (Inr (take (nat n) ps)))"
| "call_answer key (CallMatchByID i) (v, m) a \<longleftrightarrow> a = Stored (Inr (m i))"

context backend
begin

text \<open>One call: the store refines the abstract one.\<close>

lemma run_call_refines:
  assumes "good s" and "call_ok key c (bk_abs b s)" and "run_call b c s = (a, s')"
  shows "good s' \<and> bk_abs b s' = call_effect key c (bk_abs b s) \<and> call_answer key c (bk_abs b s) a"
proof (cases c)
  case (CallCreate p)
  show ?thesis
  proof (cases "has_key key (bk_view b s) (p_Name p)")
    case True
    then obtain i q where "bk_view b s i = Some q" "key (p_Name q) = key (p_Name p)"
      by (auto simp: has_key_def ran_def)
    from reg.Create_taken [OF assms(1) this] True Create_stored [OF assms(1), of p] assms(3)
    show ?thesis by (auto simp: CallCreate bk_abs_def)
  next
    case False
    then have "bk_view b s (p_ID p) = None" using assms(2) by (simp add: CallCreate bk_abs_def)
    from reg.Create_free [OF assms(1) _ this] False Create_stored [OF assms(1), of p] assms(3)
    show ?thesis by (fastforce simp: CallCreate bk_abs_def has_key_def ran_def)
  qed
next
  case (CallSave p)
  show ?thesis
  proof (cases "bk_view b s (p_ID p)")
    case None
    from rec.Save_unknown [OF assms(1) None] SavePlayer_stored [OF assms(1), of p] assms(3) None
    show ?thesis by (auto simp: CallSave bk_abs_def)
  next
    case (Some q)
    with assms(2) have "p_Name p = p_Name q" by (simp add: CallSave bk_abs_def)
    from rec.Save_known [OF assms(1) Some this] SavePlayer_stored [OF assms(1), of p] assms(3) Some
    show ?thesis by (auto simp: CallSave bk_abs_def)
  qed
next
  case (CallSaveMatch r)
  have ok: "storable_record r" "same_match (bk_stored b s) r"
    using assms(2) by (simp_all add: CallSaveMatch bk_abs_def)
  from mst.Save_stores [OF assms(1) ok] SaveMatch_view [OF assms(1) ok(1)] assms(3)
  show ?thesis by (auto simp: CallSaveMatch bk_abs_def)
next
  case (CallByName n)
  show ?thesis
  proof (rule reg.ByName_cases [OF assms(1), of n])
    fix i p
    assume "bk_view b s i = Some p" "key (p_Name p) = key n" "bk_ByName b n s = Inr p"
    then show ?thesis using assms(1,3) by (auto simp: CallByName bk_abs_def has_key_def ran_def)
  next
    assume "\<And>i p. bk_view b s i = Some p \<Longrightarrow> key (p_Name p) \<noteq> key n"
      and "bk_ByName b n s = Inl (Domain ErrPlayerNotFound)"
    then show ?thesis using assms(1,3) by (auto simp: CallByName bk_abs_def has_key_def ran_def)
  qed
next
  case (CallTop n)
  have "0 < n" using assms(2) by (simp add: CallTop bk_abs_def)
  note top = brd.Top_ranked [OF assms(1) this]
  let ?ps = "sort_key rank_of (listing s)"
  have run: "s' = s" "a = Ranked (Inr (take (nat n) ?ps))"
    using assms(3) top by (auto simp: CallTop)
  have "distinct ?ps" "set ?ps = ran (bk_view b s)" "sorted (map rank_of ?ps)"
    using listing [OF assms(1)] by simp_all
  then have "call_answer key c (bk_abs b s) a"
    unfolding CallTop bk_abs_def call_answer.simps run(2) by (intro exI [of _ ?ps]) simp
  then show ?thesis using assms(1) run(1) by (simp add: CallTop bk_abs_def)
qed (use assms rec.ByID_view mst.ByID_stored in \<open>auto simp: bk_abs_def\<close>)

text \<open>The answer is unique: names and rankings do not tie.\<close>

lemma answer_unique:
  assumes "good s" and "call_answer key c (bk_abs b s) a" and "call_answer key c (bk_abs b s) a'"
  shows "a = a'"
proof (cases c)
  case (CallByName n)
  have "p = q" if pq: "p \<in> ran (bk_view b s)" "q \<in> ran (bk_view b s)" "key (p_Name p) = key n"
    "key (p_Name q) = key n" for p q
  proof -
    obtain i j where ij: "bk_view b s i = Some p" "bk_view b s j = Some q"
      using pq(1,2) by (auto simp: ran_def)
    with reg.names_unique [OF assms(1) this] pq(3,4) show ?thesis by auto
  qed
  with assms(2,3) show ?thesis by (auto simp: CallByName bk_abs_def split: if_splits)
next
  case (CallTop n)
  obtain ps qs where lists: "distinct ps" "set ps = ran (bk_view b s)" "sorted (map rank_of ps)"
    "distinct qs" "set qs = ran (bk_view b s)" "sorted (map rank_of qs)"
    "a = Ranked (Inr (take (nat n) ps))" "a' = Ranked (Inr (take (nat n) qs))"
    using assms(2,3) by (auto simp: CallTop bk_abs_def)
  have "inj_on rank_of (set ps)"
    using listing_rank_inj [OF assms(1)] listing [OF assms(1)] lists(2) by simp
  moreover have "mset ps = mset qs" using lists(1,2,4,5) by (metis set_eq_iff_mset_eq_distinct)
  ultimately have "ps = qs"
    using sorted_rearrangement_unique [of qs ps] sorted_rearrangement_unique [of ps ps] lists(3,6)
      mset_eq_setD by metis
  with lists(7,8) show ?thesis by simp
qed (use assms(2,3) in \<open>simp_all add: bk_abs_def\<close>)

end

lemma run_calls_agree:
  assumes "backend b key good listing" and "backend b' key good' listing'"
    and "good s" and "good' s'" and "bk_abs b s = bk_abs b' s'" and "calls_ok key cs (bk_abs b s)"
  shows "run_calls b cs s = run_calls b' cs s'"
  using assms(3-6)
proof (induction cs arbitrary: s s')
  case (Cons c cs)
  obtain a s1 a' s1' where run: "run_call b c s = (a, s1)" "run_call b' c s' = (a', s1')"
    by (metis surj_pair)
  have ok: "call_ok key c (bk_abs b s)" "calls_ok key cs (call_effect key c (bk_abs b s))"
    using Cons.prems(4) by simp_all
  note step = backend.run_call_refines [OF assms(1) Cons.prems(1) ok(1) run(1)]
    and step' = backend.run_call_refines [OF assms(2) Cons.prems(2) _ run(2), folded Cons.prems(3), OF ok(1)]
  have "a = a'"
    using backend.answer_unique [OF assms(1) Cons.prems(1)] step step' by blast
  moreover have "run_calls b cs s1 = run_calls b' cs s1'"
    using step step' ok(2) by (intro Cons.IH) simp_all
  ultimately show ?case using run by simp
qed simp

text \<open>C16. The two stores can be exchanged: any sequence of calls of the kind the use cases make,
  errors included, is answered by the store over SQLite exactly as by the store in memory,
  reads, rankings and stored matches alike.\<close>

theorem stores_substitutable:
  assumes "sqlite_laws drv healthy tables" and "healthy d"
    and "tables d = Some \<lparr>t_players = [], t_matches = []\<rparr>"
    and "calls_ok (nameKey uni) calls (Map.empty, Map.empty)"
  shows "run_calls (sqlite_backend drv uni) calls d = run_calls (mem_backend uni) calls NewStores"
proof -
  note E = sqlite_suite [OF assms(1-3), of uni]
  have abs: "bk_abs (sqlite_backend drv uni) d = (Map.empty, Map.empty)"
    "bk_abs (mem_backend uni) NewStores = (Map.empty, Map.empty)"
    using empty_store.fresh [OF E] mem_suite.fresh by (simp_all add: bk_abs_def)
  show ?thesis
    by (rule run_calls_agree [OF empty_store.axioms(1) [OF E] mem_stores.backend_axioms
        empty_store.fresh(1) [OF E] mem_suite.fresh(1)]) (simp_all add: abs assms(4))
qed

text \<open>Two players, a name taken, a leaderboard, a match saved twice.\<close>

definition sample_calls :: "call list" where
  "sample_calls =
     [CallCreate ann, CallCreate (bob\<lparr>p_Name := ''ANN''\<rparr>), CallCreate bob, CallByName ''BOB'',
      CallSave (Player_Record bob OutcomeWin), CallTop 5,
      CallSaveMatch (test_record StatusInProgress []), CallSaveMatch (test_record StatusXWon won_moves),
      CallMatchByID ''m1'']"

theorem stores_substitutable_witness:
  "run_calls (sqlite_backend table_driver (\<lambda>s. s)) sample_calls (Some \<lparr>t_players = [], t_matches = []\<rparr>) =
   run_calls (mem_backend (\<lambda>s. s)) sample_calls NewStores"
proof -
  have keys: "nameKey (\<lambda>s. s) ''Ann'' = ''ann''" "nameKey (\<lambda>s. s) ''ANN'' = ''ann''"
    "nameKey (\<lambda>s. s) ''bob'' = ''bob''"
    by code_simp+
  have "storable_record (test_record StatusInProgress [])" "storable_record (test_record StatusXWon won_moves)"
    by (auto intro!: storable_test_record simp: won_moves_def int64_def)
  then have "calls_ok (nameKey (\<lambda>s. s)) sample_calls (Map.empty, Map.empty)"
    by (simp add: sample_calls_def has_key_def keys ann_def bob_def same_match_def)
  from stores_substitutable [OF table_sql.laws _ _ this] show ?thesis by simp
qed

section \<open>A database that fails\<close>










section \<open>Starting the program\<close>




end
