(* ===== verification/Client.thy ===== *)
theory Client
  imports Http_Model
begin

text \<open>
  The terminal client (\<open>cmd/client/main.go\<close>): logging in or registering, what a typed line sends,
  and what a frame of the server prints. The HTTP client and the socket are parameters: a function
  that posts credentials, and a function from the number of a write to its error. JSON objects are
  lists of fields; \<open>decode_command\<close> is what the decoder of the server's side makes of one.

  Reading the terminal and parsing the flags are I/O and left out; \<open>flag.Parse\<close> gives \<open>Flags\<close>, and
  dialling is a parameter like the post.
\<close>

section \<open>strings.Fields\<close>

text \<open>The bytes up to the next white space, and the rest.\<close>

fun next_word :: "string \<Rightarrow> string \<times> string" where
  "next_word [] = ([], [])"
| "next_word (c # s) =
     (if starts_with_any utf8_spaces (c # s) then ([], c # s)
      else (case next_word s of (w, rest) \<Rightarrow> (c # w, rest)))"

lemma next_word_append: "fst (next_word s) @ snd (next_word s) = s"
  by (induction s) (auto split: prod.split)

lemma next_word_nonempty:
  "s \<noteq> [] \<Longrightarrow> \<not> starts_with_any utf8_spaces s \<Longrightarrow> fst (next_word s) \<noteq> []"
  by (cases s) (auto split: prod.split)

lemma strip_length: "length (strip ps s) \<le> length s"
proof -
  obtain pre where "s = pre @ strip ps s" using strip_suffix by blast
  then show ?thesis by (metis le_add2 length_append)
qed

function Fields :: "string \<Rightarrow> string list" where
  "Fields s =
     (let t = strip utf8_spaces s
      in if t = [] then [] else fst (next_word t) # Fields (snd (next_word t)))"
  by pat_completeness auto
termination
proof (relation "measure length", goal_cases)
  case 1
  then show ?case by simp
next
  case (2 s t)
  then have t: "t \<noteq> []" "\<not> starts_with_any utf8_spaces t" using strip_stripped by auto
  have "length t = length (fst (next_word t)) + length (snd (next_word t))"
    by (metis length_append next_word_append)
  then have "length (snd (next_word t)) < length t"
    using next_word_nonempty [OF t] t by (cases "fst (next_word t)") auto
  then show ?case using strip_length [of utf8_spaces s] 2(1) by simp
qed

declare Fields.simps [simp del]

text \<open>A word: not empty, and no white space in it.\<close>

definition is_word :: "string \<Rightarrow> bool" where
  "is_word w \<longleftrightarrow> w \<noteq> [] \<and> (\<forall>c \<in> set w. (of_char c :: nat) \<in> {33 .. 126})"

section \<open>Logging in\<close>

text \<open>What the decoders make of a body: the fields of another object are ignored.\<close>

fun body_error :: "Body \<Rightarrow> errorResponse" where
  "body_error (ErrorBody e) = e"
| "body_error _ = \<lparr>er_Code = [], er_Message = []\<rparr>"

fun body_token :: "Body \<Rightarrow> goerr + string" where
  "body_token (TokenBody t) = Inr t"
| "body_token (TextBody t) = Inl (Opaque ''invalid character in JSON'')"
| "body_token NoBody = Inl (Opaque ''EOF'')"
| "body_token _ = Inr []"

definition authenticate ::
  "(string \<Rightarrow> credentials \<Rightarrow> 's \<Rightarrow> (goerr + Response) \<times> 's) \<Rightarrow> string \<Rightarrow> string \<Rightarrow> bool \<Rightarrow> 's \<Rightarrow>
   (goerr + string) \<times> 's" where
  "authenticate post name password register s =
     (let path = (if register then ''/register'' else ''/login'')
      in case post path \<lparr>cr_Name = name, cr_Password = password\<rparr> s of
           (Inl err, s1) \<Rightarrow> (Inl err, s1)
         | (Inr resp, s1) \<Rightarrow>
             if rs_Status resp \<ge> 400
             then (let e = body_error (rs_Body resp)
                   in (Inl (Opaque (er_Code e @ '': '' @ er_Message e)), s1))
             else (body_token (rs_Body resp), s1))"

section \<open>Commands\<close>

datatype json = JString string | JNumber int

type_synonym json_object = "(string \<times> json) list"

datatype line_result = Prompt string | Quit | WriteJSON json_object

definition newline :: string where
  "newline = [CHR 0x0A]"

text \<open>One line that was typed.\<close>

definition read_line :: "string \<Rightarrow> line_result" where
  "read_line line =
     (case Fields line of
        [] \<Rightarrow> Prompt ''> ''
      | w # ws \<Rightarrow>
          if w = ''quit'' then Quit
          else if w = ''move'' then
            (case ws of
               [] \<Rightarrow> Prompt (''move needs a cell number'' @ newline @ ''> '')
             | arg # _ \<Rightarrow>
                 (case Atoi arg of
                    Inl err \<Rightarrow> Prompt (''cell must be a number from 0 to 8'' @ newline @ ''> '')
                  | Inr cell \<Rightarrow> WriteJSON [(''type'', JString w), (''cell'', JNumber cell)]))
          else WriteJSON [(''type'', JString w)])"

text \<open>
  The loop over the lines: what was written to the socket, what was printed, and the error it
  ends with. \<open>write\<close> is the outcome of the writes by their number, \<open>scan_err\<close> the error of the
  scanner after the last line.
\<close>

fun command_loop ::
  "(nat \<Rightarrow> goerr option) \<Rightarrow> goerr option \<Rightarrow> nat \<Rightarrow> string list \<Rightarrow> json_object list \<times> string \<times> goerr option" where
  "command_loop write scan_err n [] = ([], [], scan_err)"
| "command_loop write scan_err n (line # lines) =
     (case read_line line of
        Quit \<Rightarrow> ([], [], None)
      | Prompt msg \<Rightarrow>
          (case command_loop write scan_err n lines of (js, out, e) \<Rightarrow> (js, msg @ out, e))
      | WriteJSON obj \<Rightarrow>
          (case write n of
             Some err \<Rightarrow> ([], [], Some err)
           | None \<Rightarrow>
               (case command_loop write scan_err (Suc n) lines of (js, out, e) \<Rightarrow> (obj # js, out, e))))"

definition readCommands ::
  "(nat \<Rightarrow> goerr option) \<Rightarrow> goerr option \<Rightarrow> string list \<Rightarrow> json_object list \<times> string \<times> goerr option" where
  "readCommands write scan_err lines =
     (case command_loop write scan_err 0 lines of (js, out, e) \<Rightarrow> (js, ''> '' @ out, e))"

text \<open>What \<open>ReadJSON\<close> on the other side makes of an object.\<close>

definition decode_command :: "json_object \<Rightarrow> command" where
  "decode_command obj =
     \<lparr>cmd_Type = (case map_of obj ''type'' of Some (JString t) \<Rightarrow> t | _ \<Rightarrow> []),
      cmd_Cell = (case map_of obj ''cell'' of Some (JNumber n) \<Rightarrow> n | _ \<Rightarrow> 0)\<rparr>"

section \<open>Frames\<close>

text \<open>One cell of the board as it is printed; an index out of range would be a panic (\<open>None\<close>).\<close>

definition cell_text :: "string list \<Rightarrow> nat \<Rightarrow> string option" where
  "cell_text cs i =
     (if i < length cs then Some (if cs ! i = [] then Itoa (int i) else cs ! i) else None)"

definition row_text :: "string list \<Rightarrow> nat \<Rightarrow> string option" where
  "row_text cs row =
     map_option (\<lambda>texts. ''  '' @ Go_Strings.Join texts '' | '' @ newline @ (if row < 2 then ''  ---------'' @ newline else []))
       (those (map (\<lambda>col. cell_text cs (row * 3 + col)) [0..<3]))"

definition printState :: "string \<Rightarrow> matchState option \<Rightarrow> string option" where
  "printState event st =
     (case st of
        None \<Rightarrow> Some []
      | Some s \<Rightarrow>
          (case those (map (row_text (w_Cells s)) [0..<3]) of
             None \<Rightarrow> None
           | Some rows \<Rightarrow>
               Some (newline @ ''['' @ event @ ''] you are '' @ w_YourMark s @ '' against '' @ w_Opponent s
                 @ newline @ newline @ concat rows
                 @ (if w_Finished s
                    then newline @ ''Match over: '' @ w_Status s @ '' ('' @ w_Outcome s @ '')'' @ newline @ ''> ''
                    else newline @ ''Turn: '' @ w_Turn s @ newline @ ''> ''))))"

text \<open>What one frame prints.\<close>

definition show_frame :: "frame \<Rightarrow> string option" where
  "show_frame f =
     (if f_Type f = ''error''
      then Some (newline @ ''! '' @ f_Message f @ '' ('' @ f_Code f @ '')'' @ newline @ ''> '')
      else if f_Type f = ''ack'' then Some (newline @ ''ok: '' @ f_Of f @ newline @ ''> '')
      else if f_Type f = ''opponent_left''
      then map_option (\<lambda>out. newline @ ''Your opponent left the match.'' @ newline @ out)
             (printState (f_Type f) (f_State f))
      else printState (f_Type f) (f_State f))"

text \<open>The frames until the connection ends.\<close>

fun readFrames :: "frame list \<Rightarrow> string option" where
  "readFrames [] = Some (newline @ ''Connection closed.'' @ newline)"
| "readFrames (f # fs) =
     (case show_frame f of
        None \<Rightarrow> None
      | Some out \<Rightarrow> map_option (\<lambda>rest. out @ rest) (readFrames fs))"

section \<open>The program\<close>

definition usage :: string where
  "usage = concat (map (\<lambda>l. l @ newline)
     [''Commands:'',
      ''  join            enter the matchmaking queue'',
      ''  leave           leave the queue'',
      ''  move <0-8>      play a cell'',
      ''  state           reprint the board'',
      ''  resign          give up the current match'',
      ''  quit            close the client''])"

text \<open>The flags, and what they are when the command line does not set them.\<close>

record Flags =
  fl_addr :: string
  fl_name :: string
  fl_password :: string
  fl_register :: bool

definition default_flags :: Flags where
  "default_flags = \<lparr>fl_addr = ''localhost:8080'', fl_name = [], fl_password = [], fl_register = False\<rparr>"

text \<open>
  What \<open>run\<close> returns: its error, what it printed, and what it wrote to the socket. The frames of
  the server are printed by another goroutine (\<open>readFrames\<close>).
\<close>

definition client_run ::
  "(string \<Rightarrow> credentials \<Rightarrow> 's \<Rightarrow> (goerr + Response) \<times> 's) \<Rightarrow>
   (string \<Rightarrow> string \<Rightarrow> 's \<Rightarrow> goerr option \<times> 's) \<Rightarrow> (nat \<Rightarrow> goerr option) \<Rightarrow> goerr option \<Rightarrow>
   string list \<Rightarrow> string \<Rightarrow> string \<Rightarrow> string \<Rightarrow> bool \<Rightarrow> 's \<Rightarrow>
   (goerr option \<times> string \<times> json_object list) \<times> 's" where
  "client_run post dial write scan_err lines addr name password register s =
     (case authenticate post name password register s of
        (Inl err, s1) \<Rightarrow> ((Some err, [], []), s1)
      | (Inr token, s1) \<Rightarrow>
          (let wsURL = ''ws://'' @ addr @ ''/ws'';
               header = ''Bearer '' @ token
           in case dial wsURL header s1 of
                (Some err, s2) \<Rightarrow> ((Some (Wrap (''connecting to '' @ wsURL) err), [], []), s2)
              | (None, s2) \<Rightarrow>
                  (case readCommands write scan_err lines of
                     (js, out, e) \<Rightarrow>
                       ((e, ''Connected as '' @ name @ ''.'' @ newline @ newline @ usage @ newline @ out, js), s2))))"

text \<open>The program: its exit code, what it says on the error stream, and the rest as above.\<close>

datatype complaint = Silent | Usage string | Failed goerr

definition client_main ::
  "(string \<Rightarrow> credentials \<Rightarrow> 's \<Rightarrow> (goerr + Response) \<times> 's) \<Rightarrow>
   (string \<Rightarrow> string \<Rightarrow> 's \<Rightarrow> goerr option \<times> 's) \<Rightarrow> (nat \<Rightarrow> goerr option) \<Rightarrow> goerr option \<Rightarrow>
   string list \<Rightarrow> Flags \<Rightarrow> 's \<Rightarrow> (nat \<times> complaint \<times> string \<times> json_object list) \<times> 's" where
  "client_main post dial write scan_err lines flags s =
     (if fl_name flags = [] \<or> fl_password flags = []
      then ((1, Usage ''both -name and -password are required'', [], []), s)
      else
        (case client_run post dial write scan_err lines (fl_addr flags) (fl_name flags)
                (fl_password flags) (fl_register flags) s of
           ((Some err, out, js), s1) \<Rightarrow> ((1, Failed err, out, js), s1)
         | ((None, out, js), s1) \<Rightarrow> ((0, Silent, out, js), s1)))"

section \<open>Facts\<close>

lemma word_no_space:
  assumes "\<forall>c \<in> set w. (of_char c :: nat) \<in> {33 .. 126}" and "w \<noteq> []"
  shows "\<not> starts_with_any utf8_spaces (w @ s)"
proof
  assume "starts_with_any utf8_spaces (w @ s)"
  then obtain p where p: "p \<in> set utf8_spaces" "take (length p) (w @ s) = p" "p \<noteq> []"
    by (auto simp: starts_with_any_def)
  have "hd (take (length p) (w @ s)) = hd w" using p(3) assms(2) by (cases w) (simp_all add: hd_take)
  with p(2) have "hd p = hd w" by simp
  moreover have "hd w \<in> set w" using assms(2) by simp
  ultimately have "(of_char (hd p) :: nat) \<in> {33 .. 126}" using assms(1) by metis
  moreover have "\<forall>p \<in> set utf8_spaces. (of_char (hd p) :: nat) \<notin> {33 .. 126}" by code_simp
  ultimately show False using p(1) by blast
qed

lemma next_word_append_space:
  assumes "\<forall>c \<in> set w. (of_char c :: nat) \<in> {33 .. 126}" and "s = [] \<or> starts_with_any utf8_spaces s"
  shows "next_word (w @ s) = (w, s)"
  using assms(1)
proof (induction w)
  case Nil
  then show ?case using assms(2) by (cases s) auto
next
  case (Cons c w)
  have "\<not> starts_with_any utf8_spaces ((c # w) @ s)" by (rule word_no_space [OF Cons.prems]) simp
  with Cons show ?case by simp
qed

lemma Fields_Nil [simp]: "Fields [] = []"
  by (subst Fields.simps) (simp add: Let_def strip_id starts_with_any_def)

lemma Fields_word:
  assumes "is_word w" and "s = [] \<or> starts_with_any utf8_spaces s"
  shows "Fields (w @ s) = w # Fields s"
proof -
  have "strip utf8_spaces (w @ s) = w @ s"
    using word_no_space assms(1) by (intro strip_id) (auto simp: is_word_def)
  with next_word_append_space [OF _ assms(2), of w] assms(1) show ?thesis
    by (subst Fields.simps) (auto simp: Let_def is_word_def)
qed

lemma strip_blank: "strip utf8_spaces (CHR '' '' # s) = strip utf8_spaces s"
proof -
  have "find (\<lambda>p. p \<noteq> [] \<and> take (length p) (CHR '' '' # s) = p) utf8_spaces = Some [CHR '' '']"
    by (simp add: utf8_spaces_def)
  from strip_step [OF this] show ?thesis by simp
qed

lemma Fields_blank: "Fields (CHR '' '' # s) = Fields s"
  by (subst (1 2) Fields.simps) (simp add: strip_blank)

text \<open>Words joined by blanks are the fields of the line.\<close>

lemma Fields_Join:
  assumes "list_all is_word ws"
  shows "Fields (Go_Strings.Join ws '' '') = ws"
  using assms
proof (induction ws "'' ''" rule: Go_Strings.Join.induct)
  case (2 w)
  then show ?case using Fields_word [of w "[]"] by simp
next
  case (3 w v ws)
  have "starts_with_any utf8_spaces (CHR '' '' # Go_Strings.Join (v # ws) '' '')"
    by (auto simp: starts_with_any_def utf8_spaces_def)
  with 3 Fields_word [of w "CHR '' '' # Go_Strings.Join (v # ws) '' ''"] show ?case by (simp add: Fields_blank)
qed simp

lemma is_word_Itoa: "is_word (Itoa i)"
proof -
  have "is_digit c \<Longrightarrow> (of_char c :: nat) \<in> {33 .. 126}" for c by (simp add: is_digit_def)
  then have "\<forall>c \<in> set (decimal n). (of_char c :: nat) \<in> {33 .. 126}" for n
    using decimal_digits [of n] by (simp add: list_all_iff)
  then show ?thesis by (simp add: is_word_def Itoa_def)
qed

lemma cells_length [simp]: "length (cells b) = 9"
  by (simp add: cells_def BoardSize_def Side_def)

text \<open>A state of the server has nine cells, so printing it does not fail.\<close>

lemma printState_newMatchState: "printState event (Some (newMatchState st)) \<noteq> None"
  by (simp add: printState_def newMatchState_def row_text_def cell_text_def upt_rec numeral_2_eq_2 numeral_3_eq_3)

lemma show_frame_total:
  assumes "\<And>st. f_State f = Some st \<Longrightarrow> length (w_Cells st) = 9"
  shows "show_frame f \<noteq> None"
proof -
  have "printState ev (f_State f) \<noteq> None" for ev
    using assms
    by (cases "f_State f")
      (simp_all add: printState_def row_text_def cell_text_def upt_rec numeral_2_eq_2 numeral_3_eq_3)
  then show ?thesis by (simp add: show_frame_def)
qed

end
