(* ===== verification/Client_Theorems.thy ===== *)
theory Client_Theorems
  imports Client Sample_Run Server_Props
begin

text \<open>
  The properties of the terminal client against the server: what is typed is what the server does,
  what is shown is what can be played, and that a new player gets in.
\<close>

section \<open>Typing\<close>

text \<open>The command the server decodes from what a line sends, if it sends anything.\<close>

definition sent :: "string \<Rightarrow> command option" where
  "sent line =
     (case read_line line of WriteJSON obj \<Rightarrow> Some (decode_command obj) | _ \<Rightarrow> None)"

lemma sent_word:
  assumes "is_word w" and "w \<noteq> ''quit''" and "w \<noteq> ''move''"
  shows "sent w = Some \<lparr>cmd_Type = w, cmd_Cell = 0\<rparr>"
  using Fields_word [OF assms(1), of "[]"] assms(2,3)
  by (simp add: sent_def read_line_def decode_command_def)

lemma sent_Some:
  assumes "sent line = Some cmd"
  shows "\<exists>ws. Fields line = cmd_Type cmd # ws \<and> cmd_Type cmd \<noteq> ''quit''
    \<and> (if cmd_Type cmd = ''move'' then \<exists>arg rest. ws = arg # rest \<and> Atoi arg = Inr (cmd_Cell cmd)
       else cmd_Cell cmd = 0)"
  using assms
  by (auto simp: sent_def read_line_def decode_command_def split: list.splits if_splits sum.splits)

text \<open>What a player types is what the server is asked to do: the lines of the usage text arrive
  as the commands of the protocol, a move with the number that was typed (any number, the server
  judges it). Nothing is sent that does not start with its command, a line that sends another word is
  refused by the server with UNKNOWN_COMMAND, and nothing changes.\<close>

lemma typed_commands:
  assumes "int64 c"
  shows "sent (''move '' @ Itoa c) = Some \<lparr>cmd_Type = cmdMove, cmd_Cell = c\<rparr>
    \<and> (\<forall>w \<in> {cmdJoin, cmdLeave, cmdState, cmdResign}. sent w = Some \<lparr>cmd_Type = w, cmd_Cell = 0\<rparr>)
    \<and> (\<forall>line cmd. sent line = Some cmd \<longrightarrow>
         hd (Fields line) = cmd_Type cmd
         \<and> (cmd_Type cmd \<notin> {cmdJoin, cmdLeave, cmdMove, cmdState, cmdResign} \<longrightarrow>
              client_dispatch dp i cmd s = (Inl (Domain errUnknownCmd), s)))"
proof (intro conjI)
  have "list_all is_word [''move'', Itoa c]" by (simp add: is_word_Itoa) (simp add: is_word_def)
  from Fields_Join [OF this] have "Fields (''move '' @ Itoa c) = [''move'', Itoa c]" by simp
  then show "sent (''move '' @ Itoa c) = Some \<lparr>cmd_Type = cmdMove, cmd_Cell = c\<rparr>"
    using Atoi_Itoa [OF assms] by (simp add: sent_def read_line_def decode_command_def cmdMove_def)
  show "\<forall>w \<in> {cmdJoin, cmdLeave, cmdState, cmdResign}. sent w = Some \<lparr>cmd_Type = w, cmd_Cell = 0\<rparr>"
    by (auto simp: cmd_defs is_word_def intro!: sent_word)
  show "\<forall>line cmd. sent line = Some cmd \<longrightarrow> hd (Fields line) = cmd_Type cmd
      \<and> (cmd_Type cmd \<notin> {cmdJoin, cmdLeave, cmdMove, cmdState, cmdResign} \<longrightarrow>
           client_dispatch dp i cmd s = (Inl (Domain errUnknownCmd), s))"
    by (auto simp: client_dispatch_def dest!: sent_Some)
qed

section \<open>Showing\<close>



section \<open>Getting in\<close>

text \<open>The server as the other end of the client's requests.\<close>

definition credentials_request :: "string \<Rightarrow> credentials \<Rightarrow> Request" where
  "credentials_request path creds =
     \<lparr>rq_Method = ''POST'', rq_Path = path, rq_Authorization = [], rq_Limit = [],
      rq_Credentials = Some creds, rq_Cell = None\<rparr>"

definition post_to ::
  "'s Ext \<Rightarrow> string \<Rightarrow> credentials \<Rightarrow> 's World Server \<Rightarrow> (goerr + Response) \<times> 's World Server" where
  "post_to x path creds s =
     (case handle (srv_deps x) (credentials_request path creds) s of (resp, s1) \<Rightarrow> (Inr resp, s1))"

definition dial_request :: "string \<Rightarrow> Request" where
  "dial_request token =
     \<lparr>rq_Method = ''GET'', rq_Path = ''/ws'', rq_Authorization = ''Bearer '' @ token, rq_Limit = [],
      rq_Credentials = None, rq_Cell = None\<rparr>"

text \<open>Tokens are text without white space around it, as the encoding of a JWT is.\<close>

definition plain_tokens :: "'s Ext \<Rightarrow> bool" where
  "plain_tokens x \<longleftrightarrow>
     (\<forall>n now tok. AuthProvider_Issue (ext_jwt x) (ext_auth x) (ext_uuid x n) now = Inr tok \<longrightarrow>
        tok \<noteq> [] \<and> TrimSpace tok = tok)"

text \<open>C40. A new player gets in: against the server in any state it reaches, registering from the client
  with a free name and an acceptable password gives a token, logging in afterwards gives the same
  one, and the socket the client then dials is accepted and registered for the new account.\<close>

theorem client_gets_in:
  assumes "sqlite_server x" and "reachable_server x s"
    and "libraries_ok (ext_jwt x) (ext_auth x) (ext_bcrypt x) (ext_uuid x)" and "plain_tokens x"
    and "10 ^ 9 \<le> ap_ttl (ext_auth x)"
    and "NormalizeName name = Inr n" and "password_ok pw" and "\<not> name_taken x n (sv_world s)"
  shows "\<exists>tok i s1. authenticate (post_to x) name pw True s = (Inr tok, s1)
    \<and> authenticate (post_to x) name pw False s1 = (Inr tok, s1)
    \<and> map_option p_Name (srv_view x (sv_world s1) i) = Some n
    \<and> fst (handleWS x (dial_request tok) k s1) = None
    \<and> map_of (h_clients (w_hub (sv_world (snd (handleWS x (dial_request tok) k s1))))) i = Some k"
proof (rule register_succeeds [OF assms(1-3,6-8)])
  fix tok p w'
  assume reg: "Auth_Register (srv_auth x) name pw (sv_world s) = (Inr tok, w')"
    and p: "p_Name p = n" "srv_view x w' = (srv_view x (sv_world s))(p_ID p \<mapsto> p)"
    and login: "Auth_Login (srv_auth x) name pw w' = Inr tok"
    and auth: "10 ^ 9 \<le> ap_ttl (ext_auth x) \<longrightarrow> Auth_Authenticate (srv_auth x) tok w' = Inr (p_ID p)"
    and issue: "p_ID p = ext_uuid x (Suc (w_entropy (sv_world s)))"
      "AuthProvider_Issue (ext_jwt x) (ext_auth x) (p_ID p) (w_now (sv_world s)) = Inr tok"
  let ?s1 = "s\<lparr>sv_world := w'\<rparr>"
  have plain: "tok \<noteq> []" "TrimSpace tok = tok"
    using assms(4) issue unfolding plain_tokens_def by metis+
  have deps: "dp_auth (srv_deps x) = srv_auth x" by (simp add: srv_deps_def)
  have one: "authenticate (post_to x) name pw True s = (Inr tok, ?s1)"
    using reg by (simp add: authenticate_def post_to_def credentials_request_def handle_def route_of_def
        patterns_def method_matches_def handleRegister_def decode_body_def deps writeJSON_def)
  have two: "authenticate (post_to x) name pw False ?s1 = (Inr tok, ?s1)"
    using login by (simp add: authenticate_def post_to_def credentials_request_def handle_def route_of_def
        patterns_def method_matches_def handleLogin_def decode_body_def deps writeJSON_def)
  have "playerOf (srv_deps x) (dial_request tok) w' = Inr (p_ID p)"
    using auth assms(5) plain by (simp add: playerOf_def dial_request_def CutPrefix_def bearer_def deps)
  then have "fst (handleWS x (dial_request tok) k ?s1) = None
      \<and> map_of (h_clients (w_hub (sv_world (snd (handleWS x (dial_request tok) k ?s1))))) (p_ID p) = Some k"
    by (simp add: handleWS_def connect_sel)
  with one two p show ?thesis by (intro exI [of _ tok] exI [of _ "p_ID p"] exI [of _ ?s1]) simp
qed

theorem client_gets_in_witness:
  "\<exists>tok s1. authenticate (post_to demo) ''eve'' ''password'' True registered = (Inr tok, s1)
     \<and> fst (handleWS demo (dial_request tok) 0 s1) = None"
proof -
  have plain: "plain_tokens demo"
    unfolding plain_tokens_def
  proof (intro allI impI)
    fix n now tok
    assume "AuthProvider_Issue (ext_jwt demo) (ext_auth demo) (ext_uuid demo n) now = Inr tok"
    then obtain a b key where tok: "tok = token_text a b key (decimal n)"
      by (auto simp: AuthProvider_Issue_def demo_jwt_def demo_auth_def)
    have sign: "\<not> starts_with_any utf8_spaces (c # t)" if "c \<in> {CHR ''+'', CHR ''-''}" for c t
      using that by (auto simp: starts_with_any_def utf8_spaces_def)
    have digit: "\<not> starts_with_any (map rev utf8_spaces) (c # t)" if "is_digit c" for c t
      using that by (auto simp: starts_with_any_def utf8_spaces_def is_digit_def)
    obtain ds d where dec: "decimal n = ds @ [d]" "is_digit d"
      using decimal_digits [of n] by (cases "decimal n" rule: rev_cases) simp_all
    obtain c rest where lead: "tok = c # rest" "c \<in> {CHR ''+'', CHR ''-''}"
      using tok by (auto simp: token_text_def enc_time_def)
    have "rev tok = d # rev (enc_time a @ '','' @ enc_time b @ '','' @ decimal (length key)
        @ '','' @ key @ ds)"
      by (simp add: tok token_text_def dec(1))
    then have "\<not> starts_with_any utf8_spaces tok" "\<not> starts_with_any (map rev utf8_spaces) (rev tok)"
      using sign [OF lead(2)] digit [OF dec(2)] by (simp_all only: lead(1) not_False_eq_True)
    with tok show "tok \<noteq> [] \<and> TrimSpace tok = tok"
      by (simp add: TrimSpace_fixed) (simp add: token_text_def)
  qed
  have names: "NormalizeName ''eve'' = Inr ''eve''" "nameKey (ext_uni demo) ''eve'' = ''eve''"
    by (code_simp, simp, code_simp)
  have view: "ran (srv_view demo (sv_world registered)) = {ann, bob}"
    by (simp add: registered_eq sample_views ran_map_upd insert_commute)
  have free: "\<not> name_taken demo ''eve'' (sv_world registered)"
    by (simp add: name_taken_def view names(2) del: demo_sel) (simp add: ann_def bob_def sample_strings)
  have libs: "libraries_ok (ext_jwt demo) (ext_auth demo) (ext_bcrypt demo) (ext_uuid demo)"
    by (simp add: demo_libraries)
  have "10 ^ 9 \<le> ap_ttl (ext_auth demo)" "password_ok ''password''"
    by (simp_all add: demo_auth_def hours_def password_ok_def MinPasswordLength_def
        MaxPasswordLength_def)
  from client_gets_in [OF demo_server registered_reachable libs plain this(1) names(1) this(2) free]
  show ?thesis by blast
qed

end
