(* ===== verification/Lobby_Theorems.thy ===== *)
theory Lobby_Theorems
  imports Lobby_Refinement Sample_Run
begin

text \<open>
  The server against its specification: every step is at most one event of the lobby, nobody acts
  for somebody else, every event the lobby allows can be requested, and so every game there is can
  be played to its end over HTTP.
\<close>

section \<open>The server implements the lobby\<close>

lemma inv_step_event:
  assumes W: "inj (ext_uuid x)" "wired x good listing"
    and keep: "\<And>d. good d \<Longrightarrow> bk_view (ext_store x) (ext_reopen x d) = bk_view (ext_store x) d
        \<and> bk_stored (ext_store x) (ext_reopen x d) = bk_stored (ext_store x) d"
    and inv: "server_inv x good s" and "server_step x s s'"
  shows "one_event x (\<lambda>ev. True) s s'"
proof -
  note any = wired.one_event_mono [OF W(2) _ TrueI]
  from assms(5) show ?thesis
  proof cases
    case (request r)
    from any [OF wired.request_event [OF W(2,1) inv]] show ?thesis by (simp add: request)
  next
    case (socket k r)
    then show ?thesis by (simp add: wired.handleWS_lobby [OF W(2)] one_event_def)
  next
    case (command k c cmd)
    from any [OF wired.command_event [OF W(2,1) inv]] show ?thesis by (simp add: command)
  next
    case (disconnect k c)
    from any [OF wired.exit_event [OF W(2) inv disconnect(2) refl]] show ?thesis by (simp add: disconnect)
  next
    case restart
    have "good (w_store (sv_world s))"
      using world_invD(2) [OF server_invD(2) [OF inv]] by (simp add: srv_good_def)
    with keep have "lobby_of x (restart x s) = (lobby_of x s)\<lparr>waiting := None, games_on := Map.empty\<rparr>"
      by (intro lobby_eqI) (simp_all add: restart_def NewMatchmaking_def NewGames_def srv_view_defs)
    with lobby_step.restarts [of "account_key x" "lobby_of x s"] restart show ?thesis
      by (auto simp: one_event_def)
  next
    case (tick t)
    have "lobby_of x s' = lobby_of x s"
      by (rule wired.lobby_of_cong [OF W(2)]) (simp_all add: tick srv_view_defs)
    then show ?thesis by (simp add: one_event_def)
  qed (simp_all add: wired.on_hub_lobby [OF W(2)] one_event_def)
qed

lemma step_event:
  assumes "sqlite_server x" and "reachable_server x s" and "server_step x s s'"
  shows "one_event x (\<lambda>ev. True) s s'"
proof (rule sqlite_server_wired [OF assms(1)])
  fix good listing
  assume W: "inj (ext_uuid x)" "wired x good listing"
    and keep: "\<And>d. good d \<Longrightarrow> bk_view (ext_store x) (ext_reopen x d) = bk_view (ext_store x) d
      \<and> bk_stored (ext_store x) (ext_reopen x d) = bk_stored (ext_store x) d"
  show ?thesis
    by (rule inv_step_event [OF W keep wired.reachable_server_inv [OF W(2,1) assms(2)] assms(3)])
qed

lemma accounts_kept:
  assumes "lobby_step key l ev l'" and "accounts l i = Some (n, st)"
  shows "\<exists>st'. accounts l' i = Some (n, st')"
  using assms by cases (auto simp: settled_def)

lemma name_kept:
  assumes "one_event x P s s'" and "srv_view x (sv_world s) i = Some q"
  shows "\<exists>q'. srv_view x (sv_world s') i = Some q' \<and> p_Name q' = p_Name q"
proof -
  from assms(2) have "accounts (lobby_of x s) i = Some (p_Name q, p_Stats q)" by (simp add: account_of_def)
  with assms(1) have "\<exists>st. accounts (lobby_of x s') i = Some (p_Name q, st)"
    unfolding one_event_def using accounts_kept by metis
  then show ?thesis by (auto simp: account_of_def)
qed

lemma boot_lobby:
  assumes "sqlite_server x"
  shows "lobby_of x (new_server x now) = empty_lobby"
proof -
  obtain good listing where W: "wired x good listing" using sqlite_server_wired [OF assms] by metis
  have "srv_view x (new_world x now) = Map.empty"
    using wired.start_empty [OF W] by (simp add: new_world_def srv_view_defs)
  then show ?thesis
    by (intro lobby_eqI) (simp_all add: new_server_def empty_lobby_def NewMatchmaking_def NewGames_def)
qed

lemma lobby_ok_run: "lobby_run key l evs l' \<Longrightarrow> lobby_ok l \<Longrightarrow> lobby_ok l'"
  by (induction rule: lobby_run.induct) (auto intro: lobby_ok_step)

lemma server_history:
  assumes "sqlite_server x" and "reachable_server x s"
  shows "\<exists>evs. lobby_run (account_key x) empty_lobby evs (lobby_of x s)"
  using assms(2)
proof induction
  case (boot now)
  show ?case by (intro exI [of _ "[]"]) (simp add: boot_lobby [OF assms(1)] lobby_run.idle)
next
  case (step s s')
  from step_event [OF assms(1) step(1,2)] step(3) show ?case
    unfolding one_event_def by (metis lobby_run_append lobby_run_one)
qed



section \<open>Who can do what\<close>

text \<open>C11. Nobody acts for somebody else. Whatever a request does to the queue, the games and the
  accounts is an event of the player its token names, or a new registration; what a command on a
  socket and the end of a socket do is an event of the player the socket was opened for; and
  opening one does nothing.\<close>

theorem nobody_acts_for_another:
  assumes "sqlite_server x" and "reachable_server x s"
  shows "one_event x (requested x r s) s (snd (handle (srv_deps x) r s))
    \<and> (\<forall>k c. h_heap (w_hub (sv_world s)) k = Some c \<longrightarrow>
         one_event x (\<lambda>ev. actor ev = Some (c_id c)) s (readPump_step x k (c_id c) cmd s)
         \<and> one_event x (\<lambda>ev. actor ev = Some (c_id c)) s (readPump_exit x k (c_id c) s))
    \<and> lobby_of x (snd (handleWS x r k s)) = lobby_of x s"
proof -
  obtain good listing where W: "inj (ext_uuid x)" "wired x good listing"
    using sqlite_server_wired [OF assms(1)] by metis
  have inv: "server_inv x good s" by (rule wired.reachable_server_inv [OF W(2,1) assms(2)])
  from wired.handleWS_lobby [OF W(2)] wired.request_event [OF W(2,1) inv]
    wired.command_event [OF W(2,1) inv] wired.exit_event [OF W(2) inv _ refl]
  show ?thesis by blast
qed

text \<open>Without a token a request to join does nothing.\<close>

theorem nobody_acts_for_another_witness:
  "lobby_of demo (snd (handle (srv_deps demo) (post ''/matchmaking/join'' [] None None) registered))
     = lobby_of demo registered"
proof -
  let ?r = "post ''/matchmaking/join'' [] None None"
  have "playerOf (srv_deps demo) ?r (sv_world registered) = Inl (Domain errMissingToken)"
    by (simp add: playerOf_def CutPrefix_def bearer_def)
  moreover have "route_of ?r = Inr Join" by (simp add: route_of_def patterns_def method_matches_def)
  ultimately show ?thesis
    using nobody_acts_for_another [OF demo_server registered_reachable, of ?r]
    by (simp add: one_event_def requested_def)
qed

text \<open>C12. Everything the lobby allows a player can be requested: a request with the player's token
  on the route of the event (joining for the three ways of joining) does exactly that event,
  and is answered with a success. Only the identifier of a new match is the server's choice, and
  a pairing with somebody who has no account is answered with the error.\<close>

theorem lobby_actions_offered:
  assumes "sqlite_server x" and "reachable_server x s"
    and "playerOf (srv_deps x) r (sv_world s) = Inr p" and "actor ev = Some p" and "asks_for ev r"
    and "lobby_step (nameKey (ext_uni x)) (lobby_of x s) ev l"
    and "handle (srv_deps x) r s = (resp, s')"
  shows "(lobby_of x s' = l
      \<or> (\<exists>q mid mid'. ev = Meets p q mid
           \<and> lobby_step (nameKey (ext_uni x)) (lobby_of x s) (Meets p q mid') (lobby_of x s')))
    \<and> ((\<forall>q. ev \<noteq> Misses p q) \<longrightarrow> rs_Status resp \<in> {200, 202, 204})"
proof -
  obtain good listing where W: "inj (ext_uuid x)" "wired x good listing"
    using sqlite_server_wired [OF assms(1)] by metis
  show ?thesis
    by (rule wired.offered [OF W(2,1) wired.reachable_server_inv [OF W(2,1) assms(2)] assms(3-7)])
qed

theorem lobby_actions_offered_witness:
  "\<exists>resp s'. handle (srv_deps demo) (post ''/match/resign'' (demo_bearer ''1'') None None) playing = (resp, s')
     \<and> games_on (lobby_of demo s') ''4'' = None \<and> rs_Status resp \<in> {200, 202, 204}"
proof -
  let ?r = "post ''/match/resign'' (demo_bearer ''1'') None None"
  obtain resp s' where run: "handle (srv_deps demo) ?r playing = (resp, s')" by fastforce
  have "games_on (lobby_of demo playing) ''4'' = Some (''1'', ''3'', [])"
    by (simp add: playing_eq playing_games_def game_of_def)
  then have step: "lobby_step (nameKey (ext_uni demo)) (lobby_of demo playing) (Resigns ''1'' ''4'')
      ((lobby_of demo playing)\<lparr>games_on := (games_on (lobby_of demo playing))(''4'' := None)\<rparr>)"
    by (rule lobby_step.resigns) simp
  have "playerOf (srv_deps demo) ?r (sv_world playing) = Inr ''1''"
    by (rule sample_tokens(1)) (simp add: playing_eq playing_world_def two_players_world_def)
  moreover have "asks_for (Resigns ''1'' ''4'') ?r"
    by (simp add: route_of_def patterns_def method_matches_def)
  ultimately show ?thesis
    using lobby_actions_offered [OF demo_server playing_reachable _ _ _ step run] run
    by (auto simp del: lobby_of_sel)
qed

section \<open>Whole games\<close>

lemma played_moves:
  assumes W: "inj (ext_uuid x)" "wired x good listing"
    and "server_inv x good s" and "games_on (lobby_of x s) mid = Some (px, po, hs)"
    and "\<not> decided hs" and "legal (hs @ cs)"
    and "token_of x (w_now (sv_world s)) tx px" and "token_of x (w_now (sv_world s)) to po"
    and "play_moves x tx to (length hs) cs s = (resps, s')"
  shows "map rs_Status resps = map (\<lambda>c. 200) cs
    \<and> lobby_of x s' =
       (if decided (hs @ cs)
        then (lobby_of x s)\<lparr>games_on := (games_on (lobby_of x s))(mid := None),
               accounts := settled px po (status_of (hs @ cs)) (accounts (lobby_of x s))\<rparr>
        else (lobby_of x s)\<lparr>games_on := (games_on (lobby_of x s))(mid \<mapsto> (px, po, hs @ cs))\<rparr>)"
  using assms(3-9)
proof (induction cs arbitrary: hs s resps)
  case Nil
  then show ?case by (auto intro!: lobby_eqI)
next
  case (Cons c cs)
  have legal: "legal (hs @ [c])" and more: "cs = [] \<or> \<not> decided (hs @ [c])"
    using legal_append [of "hs @ [c]" cs] Cons.prems(4) by simp_all
  let ?tok = "if even (length hs) then tx else to"
  have mover: "token_of x (w_now (sv_world s)) ?tok (mover_of px po hs)"
    using Cons.prems(3,5,6) by (simp add: mover_of_def turn_of_undecided player_at_def)
  obtain resp s1 where first: "handle (srv_deps x) (move_request ?tok c) s = (resp, s1)" by fastforce
  obtain resps1 where rest: "play_moves x tx to (Suc (length hs)) cs s1 = (resps1, s')"
    and resps: "resps = resp # resps1"
    using Cons.prems(7) first by (auto split: prod.splits)
  note one = wired.one_move [OF W(2,1) Cons.prems(1,2) legal mover first]
  show ?case
  proof (cases "decided (hs @ [c])")
    case True
    with more have "cs = []" by simp
    with rest one True resps show ?thesis by simp
  next
    case False
    have "games_on (lobby_of x s1) mid = Some (px, po, hs @ [c])"
      using one False by (simp del: lobby_of_sel)
    from Cons.IH [OF _ this False _ _ _, of resps1] one Cons.prems(4-6) rest False resps
    show ?thesis by (simp del: lobby_of_sel legal_snoc)
  qed
qed

text \<open>C3. Every game can be played to any end the rules allow, over HTTP. If \<open>cs\<close> continues a game
  that is on in some state the server reaches, the two players with their tokens make these moves
  by requests in turn, and each is answered with 200; at the end the game is on with these moves,
  or, if they decide it, it is gone, both players are free, and the result is in both accounts.\<close>

theorem any_game_can_be_played:
  assumes "sqlite_server x" and "reachable_server x s"
    and "games_on (lobby_of x s) mid = Some (px, po, hs)" and "legal (hs @ cs)"
    and "token_of x (w_now (sv_world s)) tx px" and "token_of x (w_now (sv_world s)) to po"
    and "play_moves x tx to (length hs) cs s = (resps, s')"
  shows "map rs_Status resps = map (\<lambda>c. 200) cs
    \<and> lobby_of x s' =
       (if decided (hs @ cs)
        then (lobby_of x s)\<lparr>games_on := (games_on (lobby_of x s))(mid := None),
               accounts := settled px po (status_of (hs @ cs)) (accounts (lobby_of x s))\<rparr>
        else (lobby_of x s)\<lparr>games_on := (games_on (lobby_of x s))(mid \<mapsto> (px, po, hs @ cs))\<rparr>)"
proof -
  obtain good listing where W: "inj (ext_uuid x)" "wired x good listing"
    using sqlite_server_wired [OF assms(1)] by metis
  obtain evs where "lobby_run (account_key x) empty_lobby evs (lobby_of x s)"
    using server_history [OF assms(1,2)] by blast
  then have "lobby_ok (lobby_of x s)" by (rule lobby_ok_run [OF _ lobby_ok_empty])
  from lobby_okD(2) [OF this assms(3)] have "\<not> decided hs" by simp
  from played_moves [OF W wired.reachable_server_inv [OF W(2,1) assms(2)] assms(3) this assms(4-7)]
  show ?thesis .
qed

text \<open>Ann wins the first row; five requests are answered with 200 and the result counts.\<close>

theorem any_game_can_be_played_witness:
  "\<exists>resps s'. play_moves demo (demo_token ''1'') (demo_token ''3'') 0 [0, 3, 1, 4, 2] playing = (resps, s')
     \<and> map rs_Status resps = [200, 200, 200, 200, 200]
     \<and> games_on (lobby_of demo s') ''4'' = None
     \<and> accounts (lobby_of demo s') ''1'' = Some (''Ann'', \<lparr>Wins = 1, Losses = 0, Draws = 0\<rparr>)
     \<and> accounts (lobby_of demo s') ''3'' = Some (''bob'', \<lparr>Wins = 0, Losses = 1, Draws = 0\<rparr>)"
proof -
  let ?cs = "[0, 3, 1, 4, 2] :: nat list"
  obtain resps s' where run: "play_moves demo (demo_token ''1'') (demo_token ''3'') 0 ?cs playing = (resps, s')"
    by fastforce
  have on: "games_on (lobby_of demo playing) ''4'' = Some (''1'', ''3'', [])"
    by (simp add: playing_eq playing_games_def game_of_def)
  have now: "w_now (sv_world playing) = 0"
    by (simp add: playing_eq playing_world_def two_players_world_def)
  have tokens: "token_of demo 0 (demo_token ''1'') ''1''" "token_of demo 0 (demo_token ''3'') ''3''"
    by (simp_all add: token_of_def demo_token_trimmed demo_verify ascii_def)
  have game: "legal ?cs" "decided ?cs" "status_of ?cs = StatusXWon" by code_simp+
  have people: "accounts (lobby_of demo playing) ''1'' = Some (''Ann'', zero_stats)"
    "accounts (lobby_of demo playing) ''3'' = Some (''bob'', zero_stats)"
    using sample_views(2) [of "[]"] by (simp_all add: account_of_def ann_def bob_def flip: mid_start)
  from any_game_can_be_played [OF demo_server playing_reachable on, of ?cs "demo_token ''1''" "demo_token ''3''"]
    run game tokens
  have "map rs_Status resps = [200, 200, 200, 200, 200]
    \<and> lobby_of demo s' = (lobby_of demo playing)\<lparr>games_on := (games_on (lobby_of demo playing))(''4'' := None),
        accounts := settled ''1'' ''3'' StatusXWon (accounts (lobby_of demo playing))\<rparr>"
    by (simp add: now del: lobby_of_sel)
  moreover have "wrap64 1 = 1" by code_simp
  ultimately show ?thesis
    using run people by (intro exI [of _ resps] exI [of _ s'])
      (simp add: settled_def counts_as_def zero_stats_def del: lobby_of_sel play_moves.simps)
qed

end
