(* ===== verification/Registrations.thy ===== *)
theory Registrations
  imports Lobby_Theorems
begin

text \<open>
  Registrations that overlap. \<open>Auth.Register\<close> takes no lock: between the look-up that finds the
  name free and the insertion of the account anything can happen, other registrations of the same
  name included. Here it is taken apart into the pieces between its calls (\<open>register_piece\<close>), the
  registrations under way run piece by piece in any order between the steps of the server, and the
  store's own check is shown to be enough.
\<close>

section \<open>The pieces of a registration\<close>

text \<open>
  What a registration has done: it was asked for, its name was found free, the password was hashed,
  it has a player to store, or it is done, with the account it stored, if any, and the answer.
\<close>

datatype registration =
  Asked string string
| Checked string string
| Hashed string string
| Made Player
| Stored Player
| Done "Player option" "goerr + string"

fun register_piece :: "'w AuthDeps \<Rightarrow> registration \<times> 'w \<Rightarrow> registration \<times> 'w" where
  "register_piece a (Asked name password, w) =
     (case NormalizeName name of
        Inl e \<Rightarrow> (Done None (Inl (Domain e)), w)
      | Inr name \<Rightarrow>
      if length password < MinPasswordLength then (Done None (Inl (Domain ErrPasswordTooShort)), w)
      else if length password > MaxPasswordLength then (Done None (Inl (Domain ErrPasswordTooLong)), w)
      else
      case reg_ByName (au_players a) name w of
        Inr taken \<Rightarrow> (Done None (Inl (Domain ErrNameTaken)), w)
      | Inl err \<Rightarrow>
      if \<not> errors_Is err ErrPlayerNotFound then (Done None (Inl err), w)
      else (Checked name password, w))"
| "register_piece a (Checked name password, w) =
     (case h_Hash (au_hasher a) password w of
        (Inl e, w1) \<Rightarrow> (Done None (Inl e), w1)
      | (Inr hash, w1) \<Rightarrow> (Hashed name hash, w1))"
| "register_piece a (Hashed name hash, w) =
     (case g_NewID (au_ids a) w of (pid, w1) \<Rightarrow>
      case NewPlayer pid name hash of
        Inl e \<Rightarrow> (Done None (Inl (Domain e)), w1)
      | Inr p \<Rightarrow> (Made p, w1))"
| "register_piece a (Made p, w) =
     (case reg_Create (au_players a) p w of
        (Some e, w1) \<Rightarrow> (Done None (Inl e), w1)
      | (None, w1) \<Rightarrow> (Stored p, w1))"
| "register_piece a (Stored p, w) = (Done (Some p) (t_Issue (au_tokens a) (p_ID p) w), w)"
| "register_piece a (Done acc r, w) = (Done acc r, w)"

text \<open>With nothing in between, the pieces are \<open>Auth.Register\<close>.\<close>

lemma register_pieces:
  "\<exists>acc. (register_piece a ^^ 5) (Asked name password, w) =
     (Done acc (fst (Auth_Register a name password w)), snd (Auth_Register a name password w))"
  by (simp add: eval_nat_numeral Auth_Register_def split: sum.split prod.split option.split)

section \<open>Registrations among the steps of the server\<close>

record 's Desk =
  dk_server :: "'s World Server"
  dk_forms :: "registration list"

text \<open>
  A registration begins, one of those under way does its next piece, or the server does something
  else. (Pieces of a process that was restarted cannot run any more; allowing them loses nothing.)
\<close>

inductive desk_step :: "'s Ext \<Rightarrow> 's Desk \<Rightarrow> 's Desk \<Rightarrow> bool" for x where
  begins: "desk_step x d (d\<lparr>dk_forms := dk_forms d @ [Asked name password]\<rparr>)"
| piece: "dk_forms d = before @ f # after \<Longrightarrow>
    register_piece (srv_auth x) (f, sv_world (dk_server d)) = (f', w) \<Longrightarrow>
    desk_step x d \<lparr>dk_server = (dk_server d)\<lparr>sv_world := w\<rparr>, dk_forms = before @ f' # after\<rparr>"
| other: "server_step x (dk_server d) s \<Longrightarrow> desk_step x d (d\<lparr>dk_server := s\<rparr>)"

inductive reachable_desk :: "'s Ext \<Rightarrow> 's Desk \<Rightarrow> bool" for x where
  open_desk: "reachable_desk x \<lparr>dk_server = new_server x now, dk_forms = []\<rparr>"
| step: "reachable_desk x d \<Longrightarrow> desk_step x d d' \<Longrightarrow> reachable_desk x d'"

section \<open>Identifiers stay apart\<close>

text \<open>No step of the server gives back entropy, and an account it makes has an identifier not drawn before.\<close>

lemma accounts_dom:
  assumes "lobby_step key l ev l'" and "\<And>i n. ev \<noteq> Registers i n"
  shows "dom (accounts l') = dom (accounts l)"
  using assms by cases (auto simp: settled_dom)

lemma accounts_of_dom: "dom (accounts (lobby_of x s)) = dom (srv_view x (sv_world s))"
  by auto

context wired
begin

lemma entropy_operations:
  assumes "server_inv x good s"
  shows "server_join (srv_deps x) p s = (e, s1) \<Longrightarrow> w_entropy (sv_world s) \<le> w_entropy (sv_world s1)"
    and "server_move (srv_deps x) p c s = (r, s2) \<Longrightarrow> w_entropy (sv_world s) \<le> w_entropy (sv_world s2)"
    and "w_entropy (sv_world s) \<le> w_entropy (sv_world (server_abandon (srv_deps x) p s))"
  using operations_keep [OF srv_keeps_entropy [where n = "w_entropy (sv_world s)"]
      world_invD(1) [OF server_invD(2) [OF assms]] order_refl] by blast+

lemma Register_entropy:
  assumes "srv_good good w" and "Auth_Register (srv_auth x) name pw w = (r, w')"
  shows "w_entropy w \<le> w_entropy w'"
  using assms(2)
proof (cases rule: Register_effect)
  case (2 p e)
  have "srv_good good (w\<lparr>w_entropy := Suc (Suc (w_entropy w))\<rparr>)" using assms(1) by (simp add: srv_view_defs)
  from Create_frame(3) [OF this 2(1)] show ?thesis by simp
qed simp

end

text \<open>
  Identifiers drawn and not used for an account stay so: a step gives back no entropy, and an account
  it makes has an identifier not drawn before.
\<close>

definition kept_apart :: "'s Ext \<Rightarrow> 's World Server \<Rightarrow> 's World Server \<Rightarrow> bool" where
  "kept_apart x s s' \<longleftrightarrow>
     w_entropy (sv_world s) \<le> w_entropy (sv_world s')
     \<and> dom (srv_view x (sv_world s')) \<inter> used_ids x (sv_world s) \<subseteq> dom (srv_view x (sv_world s))"

lemma kept_apartI:
  "w_entropy (sv_world s) \<le> w_entropy (sv_world s') \<Longrightarrow>
   dom (srv_view x (sv_world s')) \<subseteq> dom (srv_view x (sv_world s)) \<Longrightarrow> kept_apart x s s'"
  unfolding kept_apart_def by blast

context wired
begin

lemma kept_apart_event:
  assumes "w_entropy (sv_world s) \<le> w_entropy (sv_world s')" and "one_event x P s s'"
    and "\<And>i n. \<not> P (Registers i n)"
  shows "kept_apart x s s'"
proof (rule kept_apartI [OF assms(1)])
  from assms(2,3) have "dom (accounts (lobby_of x s')) = dom (accounts (lobby_of x s))"
    unfolding one_event_def using accounts_dom by metis
  then show "dom (srv_view x (sv_world s')) \<subseteq> dom (srv_view x (sv_world s))"
    by (simp only: accounts_of_dom order_refl)
qed

lemma Register_kept_apart:
  assumes "inj (ext_uuid x)" and inv: "server_inv x good s"
    and run: "Auth_Register (srv_auth x) name pw (sv_world s) = (r, w')"
  shows "kept_apart x s (s\<lparr>sv_world := w'\<rparr>)"
proof -
  note I = world_invD [OF server_invD(2) [OF inv]]
  have grows: "w_entropy (sv_world s) \<le> w_entropy w'" by (rule Register_entropy [OF I(2) run])
  show ?thesis
    using run
  proof (cases rule: Register_effect)
    case (1 n)
    then show ?thesis using grows by (intro kept_apartI) (simp_all add: srv_view_defs)
  next
    case (2 p e)
    let ?w1 = "(sv_world s)\<lparr>w_entropy := Suc (Suc (w_entropy (sv_world s)))\<rparr>"
    have view1: "srv_view x ?w1 = srv_view x (sv_world s)" by (simp add: srv_view_defs)
    have good1: "srv_good good ?w1" using I(2) by (simp add: srv_view_defs)
    have fresh: "p_ID p \<notin> used_ids x (sv_world s)"
      using assms(1) 2(2) by (auto simp: used_ids_def dest: injD)
    then have new: "srv_view x ?w1 (p_ID p) = None" using I(6) view1 by auto
    from Create_cases [OF good1 new 2(1)]
    have "dom (srv_view x w') \<subseteq> insert (p_ID p) (dom (srv_view x (sv_world s)))"
      by cases (auto simp: view1)
    with fresh grows show ?thesis by (auto simp: kept_apart_def)
  qed
qed

lemma dispatch_kept_apart:
  assumes "inj (ext_uuid x)" and "server_inv x good s"
  shows "kept_apart x s (readPump_step x k p cmd s)"
proof (rule kept_apart_event [OF _ command_event [OF assms]])
  show "\<not> by_player p (Registers i n)" for i n by simp
  note grows = entropy_operations [OF assms(2)]
  obtain e s1 where join: "server_join (srv_deps x) p s = (e, s1)" by fastforce
  obtain r s2 where move: "server_move (srv_deps x) p (cmd_Cell cmd) s = (r, s2)" by fastforce
  show "w_entropy (sv_world s) \<le> w_entropy (sv_world (readPump_step x k p cmd s))"
    using grows(1) [OF join] grows(2) [OF move] grows(3) [of p]
    by (simp add: readPump_step_def client_dispatch_def join move push_frame_def server_leave_def
        split: prod.split sum.split option.split)
qed

lemma request_kept_apart:
  assumes "inj (ext_uuid x)" and "server_inv x good s"
  shows "kept_apart x s (snd (handle (srv_deps x) r s))"
proof (cases "route_of r = Inr Register")
  case True
  then have h: "handle (srv_deps x) r s = handleRegister (srv_deps x) r s" by (simp add: handle_def)
  show ?thesis
  proof (cases "rq_Credentials r")
    case None
    then show ?thesis by (intro kept_apartI) (simp_all add: h handleRegister_def decode_body_def)
  next
    case (Some creds)
    obtain res w where run:
      "Auth_Register (srv_auth x) (cr_Name creds) (cr_Password creds) (sv_world s) = (res, w)"
      by fastforce
    then have "snd (handleRegister (srv_deps x) r s) = s\<lparr>sv_world := w\<rparr>"
      using Some by (simp add: handleRegister_def decode_body_def srv_deps_def split: sum.split)
    with Register_kept_apart [OF assms run] h show ?thesis by simp
  qed
next
  case False
  note grows = entropy_operations [OF assms(2)]
  have join: "w_entropy (sv_world s) \<le> w_entropy (sv_world (snd (handleJoin (srv_deps x) p s)))" for p
    using grows(1) [of p] by (auto simp: handleJoin_def split: prod.split option.split)
  have move: "w_entropy (sv_world s) \<le> w_entropy (sv_world (snd (handleMove (srv_deps x) r p s)))" for p
    using grows(2) [of p] by (auto simp: handleMove_def decode_body_def split: option.split prod.split sum.split)
  have "w_entropy (sv_world s) \<le> w_entropy (sv_world (snd (run_route (srv_deps x) rt r s)))"
    if "rt \<noteq> Register" for rt
    using that join move grows(3)
    by (cases rt) (simp_all add: authenticated_def handleHealth_def handleLogin_def handleLeaderboard_def
        handleState_def handleLeave_def server_leave_def handleResign_def Let_def split: option.split sum.split)
  with False have "w_entropy (sv_world s) \<le> w_entropy (sv_world (snd (handle (srv_deps x) r s)))"
    by (cases "route_of r") (simp_all add: handle_def)
  then show ?thesis
    by (rule kept_apart_event [OF _ request_event [OF assms]]) (simp add: requested_def False)
qed

lemma exit_kept_apart:
  assumes "server_inv x good s" and "h_heap (w_hub (sv_world s)) k = Some c"
  shows "kept_apart x s (readPump_exit x k (c_id c) s)"
proof (rule kept_apart_event [OF _ exit_event [OF assms refl]])
  let ?s1 = "on_hub (\<lambda>h. heap_close k (Hub_unregister k (c_id c) h)) s"
  have "server_inv x good (server_leave (c_id c) ?s1)"
    by (rule server_leave_inv, rule on_hub_inv [OF assms(1), where f = "\<lambda>h. heap_close k (Hub_unregister k (c_id c) h)"])
      (rule unregister_close_inv [OF server_inv_hub [OF assms(1)] assms(2) refl])
  from entropy_operations(3) [OF this, of "c_id c"]
  show "w_entropy (sv_world s) \<le> w_entropy (sv_world (readPump_exit x k (c_id c) s))"
    by (simp add: readPump_exit_eq [OF server_inv_hub [OF assms(1)] assms(2) refl] server_leave_def on_hub_def)
qed simp

lemma step_kept_apart:
  assumes "inj (ext_uuid x)" and "server_inv x good s" and "server_step x s s'"
  shows "kept_apart x s s'"
  using assms(3)
proof cases
  case (request r)
  with request_kept_apart [OF assms(1,2)] show ?thesis by simp
next
  case (socket k r)
  then show ?thesis by (intro kept_apartI) (auto simp: handleWS_def srv_view_defs split: sum.split)
next
  case (command k c cmd)
  with dispatch_kept_apart [OF assms(1,2)] show ?thesis by simp
next
  case (disconnect k c)
  with exit_kept_apart [OF assms(2)] show ?thesis by simp
next
  case restart
  have "good (w_store (sv_world s))"
    using world_invD(2) [OF server_invD(2) [OF assms(2)]] by (simp add: srv_good_def)
  from reopen_view [OF this] show ?thesis
    by (intro kept_apartI) (auto simp: restart restart_def srv_view_defs)
qed (auto intro!: kept_apartI simp: on_hub_def srv_view_defs)

end
section \<open>What holds between the pieces\<close>

fun drawn :: "registration \<Rightarrow> PlayerID list" where
  "drawn (Made p) = [p_ID p]"
| "drawn _ = []"

fun stored :: "registration \<Rightarrow> Player list" where
  "stored (Stored p) = [p]"
| "stored (Done (Some p) r) = [p]"
| "stored _ = []"

fun form_ok :: "registration \<Rightarrow> bool" where
  "form_ok (Checked n pw) \<longleftrightarrow> NormalizeName n = Inr n"
| "form_ok (Hashed n h) \<longleftrightarrow> NormalizeName n = Inr n"
| "form_ok (Made p) \<longleftrightarrow> NormalizeName (p_Name p) = Inr (p_Name p) \<and> p_Stats p = zero_stats"
| "form_ok _ \<longleftrightarrow> True"

definition drawn_all :: "registration list \<Rightarrow> PlayerID list" where
  "drawn_all fs = concat (map drawn fs)"

definition stored_all :: "registration list \<Rightarrow> Player list" where
  "stored_all fs = concat (map stored fs)"

lemma all_simps [simp]:
  "drawn_all [] = []" "drawn_all (f # fs) = drawn f @ drawn_all fs"
  "drawn_all (fs @ gs) = drawn_all fs @ drawn_all gs"
  "stored_all [] = []" "stored_all (f # fs) = stored f @ stored_all fs"
  "stored_all (fs @ gs) = stored_all fs @ stored_all gs"
  by (simp_all add: drawn_all_def stored_all_def)

definition has_account :: "'s Ext \<Rightarrow> 's World \<Rightarrow> Player \<Rightarrow> bool" where
  "has_account x w p \<longleftrightarrow> (\<exists>q. srv_view x w (p_ID p) = Some q \<and> p_Name q = p_Name p)"

text \<open>
  Identifiers drawn are different and of no account; players stored have accounts of their own.
\<close>

definition desk_inv :: "'s Ext \<Rightarrow> ('s \<Rightarrow> bool) \<Rightarrow> 's Desk \<Rightarrow> bool" where
  "desk_inv x good d \<longleftrightarrow>
     server_inv x good (dk_server d) \<and> list_all form_ok (dk_forms d)
     \<and> distinct (drawn_all (dk_forms d))
     \<and> set (drawn_all (dk_forms d)) \<subseteq> used_ids x (sv_world (dk_server d))
     \<and> set (drawn_all (dk_forms d)) \<inter> dom (srv_view x (sv_world (dk_server d))) = {}
     \<and> distinct (map p_ID (stored_all (dk_forms d)))
     \<and> list_all (has_account x (sv_world (dk_server d))) (stored_all (dk_forms d))"

lemma desk_invI:
  assumes "server_inv x good (dk_server d)" and "list_all form_ok (dk_forms d)"
    and "distinct (drawn_all (dk_forms d))"
    and "set (drawn_all (dk_forms d)) \<subseteq> used_ids x (sv_world (dk_server d))"
    and "set (drawn_all (dk_forms d)) \<inter> dom (srv_view x (sv_world (dk_server d))) = {}"
    and "distinct (map p_ID (stored_all (dk_forms d)))"
    and "list_all (has_account x (sv_world (dk_server d))) (stored_all (dk_forms d))"
  shows "desk_inv x good d"
  unfolding desk_inv_def using assms by blast

lemma desk_invD:
  assumes "desk_inv x good d"
  shows "server_inv x good (dk_server d)" "list_all form_ok (dk_forms d)"
    "distinct (drawn_all (dk_forms d))"
    "set (drawn_all (dk_forms d)) \<subseteq> used_ids x (sv_world (dk_server d))"
    "set (drawn_all (dk_forms d)) \<inter> dom (srv_view x (sv_world (dk_server d))) = {}"
    "distinct (map p_ID (stored_all (dk_forms d)))"
    "list_all (has_account x (sv_world (dk_server d))) (stored_all (dk_forms d))"
  using assms unfolding desk_inv_def by blast+

context wired
begin

text \<open>A piece that only draws entropy, and stores nothing.\<close>

lemma desk_inv_draw:
  assumes inv: "desk_inv x good d" and forms: "dk_forms d = before @ f # after"
    and "w_entropy (sv_world (dk_server d)) \<le> n"
    and "form_ok f'" and "stored f' = []" and "stored f = []" and "drawn f = []"
    and "set (drawn f') \<subseteq> used_ids x ((sv_world (dk_server d))\<lparr>w_entropy := n\<rparr>)"
    and "set (drawn f') \<inter> used_ids x (sv_world (dk_server d)) = {}" and "distinct (drawn f')"
  shows "desk_inv x good \<lparr>dk_server = (dk_server d)\<lparr>sv_world := (sv_world (dk_server d))\<lparr>w_entropy := n\<rparr>\<rparr>,
    dk_forms = before @ f' # after\<rparr>"
proof -
  note I = desk_invD [OF inv]
  let ?w = "sv_world (dk_server d)"
  let ?w' = "?w\<lparr>w_entropy := n\<rparr>"
  have view: "srv_view x ?w' = srv_view x ?w" by (simp add: srv_view_defs)
  have used: "used_ids x ?w \<subseteq> used_ids x ?w'" using assms(3) by (intro used_ids_mono) simp
  have known: "dom (srv_view x ?w) \<subseteq> used_ids x ?w" by (rule world_invD(6) [OF server_invD(2) [OF I(1)]])
  have "world_inv x good (sv_games (dk_server d)) ?w'"
    using world_invD(3) [OF server_invD(2) [OF I(1)]] assms(3)
    by (intro world_inv_frame [OF server_invD(2) [OF I(1)]]) simp_all
  with server_invD(1) [OF I(1)] have srv: "server_inv x good ((dk_server d)\<lparr>sv_world := ?w'\<rparr>)"
    by (simp add: server_inv_def)
  have "has_account x ?w' = has_account x ?w" by (simp add: has_account_def fun_eq_iff view)
  moreover have "set (drawn f') \<inter> set (drawn_all before @ drawn_all after) = {}"
    using I(4) assms(7,9) by (auto simp: forms)
  moreover have "set (drawn f') \<inter> dom (srv_view x ?w) = {}" using known assms(9) by blast
  ultimately show ?thesis
    using I(2-7) assms(4-8,10) used srv view
    by (intro desk_invI) (auto simp: forms)
qed

lemma desk_inv_quiet:
  assumes "desk_inv x good d" and "dk_forms d = before @ f # after"
    and "form_ok f'" and "stored f' = []" and "stored f = []" and "drawn f = []" and "drawn f' = []"
  shows "desk_inv x good \<lparr>dk_server = dk_server d, dk_forms = before @ f' # after\<rparr>"
  using desk_inv_draw [OF assms(1,2) order_refl assms(3-6)] assms(7) by simp

text \<open>The store settles who gets the name.\<close>

lemma desk_inv_create:
  assumes inv: "desk_inv x good d" and forms: "dk_forms d = before @ Made p # after"
    and create: "reg_Create (srv_registry x) p (sv_world (dk_server d)) = (e, w)"
  shows "desk_inv x good \<lparr>dk_server = (dk_server d)\<lparr>sv_world := w\<rparr>,
    dk_forms = before @ (case e of None \<Rightarrow> Stored p | Some er \<Rightarrow> Done None (Inl er)) # after\<rparr>"
proof -
  note I = desk_invD [OF inv]
  note W = world_invD [OF server_invD(2) [OF I(1)]]
  let ?w = "sv_world (dk_server d)"
  have new: "srv_view x ?w (p_ID p) = None" using I(5) by (auto simp: forms)
  have ok: "NormalizeName (p_Name p) = Inr (p_Name p)" "p_Stats p = zero_stats" using I(2) by (simp_all add: forms)
  note frame = Create_frame [OF W(2) create]
  have used: "used_ids x w = used_ids x ?w" by (simp add: used_ids_def frame(3))
  have id: "p_ID p \<in> used_ids x ?w" using I(4) by (simp add: forms)
  from W(2) new create show ?thesis
  proof (cases rule: Create_cases)
    case 1
    then have "world_inv x good (sv_games (dk_server d)) w" using W frame used by (intro world_invI) simp_all
    moreover have "has_account x w = has_account x ?w" by (simp add: has_account_def 1(2) fun_eq_iff)
    ultimately show ?thesis
      using server_invD(1) [OF I(1)] I(2-7) 1 used
      by (intro desk_invI) (auto simp: forms server_inv_def)
  next
    case 2
    have "world_inv x good (sv_games (dk_server d)) w"
      using W frame used id accounts_new_player [OF W(8) new ok(2,1)] 2 by (intro world_invI) auto
    with server_invD(1) [OF I(1)] have srv: "server_inv x good ((dk_server d)\<lparr>sv_world := w\<rparr>)"
      by (simp add: server_inv_def)
    have old: "p_ID q \<noteq> p_ID p \<and> has_account x w q"
      if "q \<in> set (stored_all before) \<union> set (stored_all after)" for q
    proof -
      from I(7) that have "has_account x ?w q" by (auto simp: forms list_all_iff)
      with new have "p_ID q \<noteq> p_ID p" by (auto simp: has_account_def)
      with \<open>has_account x ?w q\<close> show ?thesis by (simp add: has_account_def 2(2))
    qed
    have apart: "p_ID p \<notin> p_ID ` set (stored_all before) \<union> p_ID ` set (stored_all after)"
      using old by (metis UnE UnI1 UnI2 imageE)
    have mine: "has_account x w p" by (simp add: has_account_def 2(2))
    show ?thesis
      using I(2-6) srv old apart mine used 2 by (intro desk_invI) (auto simp: forms list_all_iff)
  qed
qed

lemma piece_inv:
  assumes "inj (ext_uuid x)" and inv: "desk_inv x good d" and forms: "dk_forms d = before @ f # after"
    and run: "register_piece (srv_auth x) (f, sv_world (dk_server d)) = (f', w)"
  shows "desk_inv x good \<lparr>dk_server = (dk_server d)\<lparr>sv_world := w\<rparr>, dk_forms = before @ f' # after\<rparr>"
proof (cases f)
  case (Asked name pw)
  then have "w = sv_world (dk_server d)" and "form_ok f' \<and> stored f' = [] \<and> drawn f' = []"
    using run by (auto split: sum.splits if_splits intro: NormalizeName_idem)
  with desk_inv_quiet [OF inv forms, of f'] Asked show ?thesis by simp
next
  case (Checked n pw)
  then have "w = (sv_world (dk_server d))\<lparr>w_entropy := Suc (w_entropy (sv_world (dk_server d)))\<rparr>"
    and "form_ok f' \<and> stored f' = [] \<and> drawn f' = []"
    using run desk_invD(2) [OF inv] by (auto simp: forms srv_auth_def srv_hasher_def split: sum.splits)
  with desk_inv_draw [OF inv forms le_SucI [OF order_refl], of f'] Checked show ?thesis by simp
next
  case (Hashed n hash)
  let ?id = "ext_uuid x (w_entropy (sv_world (dk_server d)))"
  let ?p = "\<lparr>p_ID = ?id, p_Name = n, p_PasswordHash = hash, p_Stats = zero_stats\<rparr>"
  have n: "NormalizeName n = Inr n" using desk_invD(2) [OF inv] by (simp add: forms Hashed)
  have "w = (sv_world (dk_server d))\<lparr>w_entropy := Suc (w_entropy (sv_world (dk_server d)))\<rparr>"
    and "f' = Made ?p"
    using run Hashed NewPlayer_normalized [OF n]
    by (simp_all add: srv_auth_def srv_ids_def UUID_NewID_def)
  with desk_inv_draw [OF inv forms le_SucI [OF order_refl], of f'] Hashed n
    fresh_uuid [OF assms(1), of "sv_world (dk_server d)"]
  show ?thesis by (simp add: used_ids_def)
next
  case (Made p)
  obtain e w' where create: "reg_Create (srv_registry x) p (sv_world (dk_server d)) = (e, w')" by fastforce
  have "w' = w" "f' = (case e of None \<Rightarrow> Stored p | Some er \<Rightarrow> Done None (Inl er))"
    using run create Made by (auto simp: srv_auth_def split: option.splits)
  with desk_inv_create [OF inv forms [unfolded Made] create] show ?thesis by simp
next
  case (Stored p)
  then have "w = sv_world (dk_server d)" "f' = Done (Some p) (t_Issue (au_tokens (srv_auth x)) (p_ID p) w)"
    using run by auto
  with desk_invD [OF inv] Stored show ?thesis by (intro desk_invI) (simp_all add: forms)
next
  case (Done acc r)
  then have "w = sv_world (dk_server d)" "f' = f" using run by auto
  with desk_invD [OF inv] show ?thesis by (intro desk_invI) (simp_all add: forms)
qed

end
lemma has_account_event:
  "one_event x P s s' \<Longrightarrow> has_account x (sv_world s) p \<Longrightarrow> has_account x (sv_world s') p"
  unfolding has_account_def using name_kept by metis

lemma reachable_desk_inv:
  assumes "reachable_desk x d" and "inj (ext_uuid x)" and "wired x good listing"
    and "\<And>s. good s \<Longrightarrow> bk_view (ext_store x) (ext_reopen x s) = bk_view (ext_store x) s
      \<and> bk_stored (ext_store x) (ext_reopen x s) = bk_stored (ext_store x) s"
  shows "desk_inv x good d"
  using assms(1)
proof induction
  case (open_desk now)
  show ?case
    by (rule desk_invI) (simp_all add: wired.server_inv_boot [OF assms(3)])
next
  case (step d d')
  from step(2) show ?case
  proof cases
    case (begins name pw)
    with desk_invD [OF step(3)] show ?thesis by (intro desk_invI) simp_all
  next
    case (piece before f after f' w)
    with wired.piece_inv [OF assms(3,2) step(3) piece(2,3)] show ?thesis by simp
  next
    case (other s)
    note I = desk_invD [OF step(3)]
    have apart: "kept_apart x (dk_server d) s" by (rule wired.step_kept_apart [OF assms(3,2) I(1) other(2)])
    then have used: "used_ids x (sv_world (dk_server d)) \<subseteq> used_ids x (sv_world s)"
      by (intro used_ids_mono) (simp add: kept_apart_def)
    have "set (drawn_all (dk_forms d)) \<inter> dom (srv_view x (sv_world s)) = {}"
      using apart I(4,5) unfolding kept_apart_def by blast
    moreover have "list_all (has_account x (sv_world s)) (stored_all (dk_forms d))"
      using I(7) has_account_event [OF inv_step_event [OF assms(2-4) I(1) other(2)]]
      by (simp add: list_all_iff)
    ultimately show ?thesis
      using I used wired.server_step_inv [OF assms(3,2) other(2) I(1)]
      by (intro desk_invI) (auto simp: other(1))
  qed
qed
text \<open>Every state the server reaches is one with no registration under way.\<close>

lemma reachable_desk_server: "reachable_server x s \<Longrightarrow> reachable_desk x \<lparr>dk_server = s, dk_forms = []\<rparr>"
proof (induction rule: reachable_server.induct)
  case (step s s')
  from reachable_desk.step [OF step(3) desk_step.other] step(2) show ?case by simp
qed (rule reachable_desk.open_desk)

lemma desk_begins:
  "reachable_desk x \<lparr>dk_server = s, dk_forms = fs\<rparr> \<Longrightarrow>
   reachable_desk x \<lparr>dk_server = s, dk_forms = fs @ [Asked name pw]\<rparr>"
  using reachable_desk.step [OF _ desk_step.begins] by fastforce

lemma desk_piece:
  assumes "reachable_desk x \<lparr>dk_server = s, dk_forms = before @ f # after\<rparr>"
    and "register_piece (srv_auth x) (f, sv_world s) = (f', w)"
  shows "reachable_desk x \<lparr>dk_server = s\<lparr>sv_world := w\<rparr>, dk_forms = before @ f' # after\<rparr>"
  using reachable_desk.step [OF assms(1) desk_step.piece, of before f after f' w] assms(2) by simp

lemma stored_apart:
  assumes "distinct (map p_ID (stored_all fs))" and "a < b" and "b < length fs"
    and "p \<in> set (stored (fs ! a))" and "q \<in> set (stored (fs ! b))"
  shows "p_ID p \<noteq> p_ID q"
proof -
  have fs: "fs = take a fs @ fs ! a # drop (Suc a) fs" by (rule id_take_nth_drop) (use assms(2,3) in simp)
  have "fs ! b \<in> set (drop (Suc a) fs)"
    using assms(2,3) by (auto simp: in_set_conv_nth intro!: exI [of _ "b - Suc a"])
  then have "q \<in> set (stored_all (drop (Suc a) fs))" using assms(5) by (auto simp: stored_all_def)
  moreover have "distinct (map p_ID (stored_all (take a fs @ fs ! a # drop (Suc a) fs)))"
    using assms(1) fs by metis
  ultimately show ?thesis using assms(4) by (auto dest: imageI [of q _ p_ID])
qed

lemma stored_has_account:
  assumes "sqlite_server x" and "reachable_desk x d" and "p \<in> set (stored_all (dk_forms d))"
  shows "has_account x (sv_world (dk_server d)) p"
proof (rule sqlite_server_wired [OF assms(1)])
  fix good listing
  assume W: "inj (ext_uuid x)" "wired x good listing"
    and keep: "\<And>d. good d \<Longrightarrow> bk_view (ext_store x) (ext_reopen x d) = bk_view (ext_store x) d
      \<and> bk_stored (ext_store x) (ext_reopen x d) = bk_stored (ext_store x) d"
  from desk_invD(7) [OF reachable_desk_inv [OF assms(2) W keep]] assms(3)
  show ?thesis by (simp add: list_all_iff)
qed

context wired
begin

lemma Create_taken_answer:
  assumes "srv_good good w" and "srv_view x w i = Some q"
    and "nameKey (ext_uni x) (p_Name q) = nameKey (ext_uni x) (p_Name p)"
  shows "fst (reg_Create (srv_registry x) p w) = Some (Domain ErrNameTaken)"
  using server_names.Create_taken [OF assms] by auto

lemma Create_free_answer:
  assumes "srv_good good w"
    and "\<And>i q. srv_view x w i = Some q \<Longrightarrow> nameKey (ext_uni x) (p_Name q) \<noteq> nameKey (ext_uni x) (p_Name p)"
    and "srv_view x w (p_ID p) = None"
  shows "fst (reg_Create (srv_registry x) p w) = None"
proof -
  obtain w' where "reg_Create (srv_registry x) p w = (None, w')"
    using server_names.Create_free [OF assms(1) _ assms(3)] assms(2) by blast
  then show ?thesis by simp
qed

end

section \<open>One account for a name\<close>

text \<open>C13. However registrations overlap, with each other and with everything else the server does,
  no two accounts have names that differ in case only. Of the registrations that are done, no two
  that stored an account did so under such names, and looking up the name of one finds its account.
  A registration that found its name free and comes to store it is refused as \<open>NAME_TAKEN\<close>
  exactly when somebody else has taken it meanwhile.\<close>

theorem registrations_overlap:
  assumes "sqlite_server x" and "reachable_desk x d"
  shows "(\<forall>i j p q. srv_view x (sv_world (dk_server d)) i = Some p \<longrightarrow>
       srv_view x (sv_world (dk_server d)) j = Some q \<longrightarrow>
       nameKey (ext_uni x) (p_Name p) = nameKey (ext_uni x) (p_Name q) \<longrightarrow> i = j)
    \<and> (\<forall>a b p q r r'. a < b \<longrightarrow> b < length (dk_forms d) \<longrightarrow>
       dk_forms d ! a = Done (Some p) r \<longrightarrow> dk_forms d ! b = Done (Some q) r' \<longrightarrow>
       nameKey (ext_uni x) (p_Name p) \<noteq> nameKey (ext_uni x) (p_Name q))
    \<and> (\<forall>p r. Done (Some p) r \<in> set (dk_forms d) \<longrightarrow>
       (\<exists>q. reg_ByName (srv_registry x) (p_Name p) (sv_world (dk_server d)) = Inr q
          \<and> p_ID q = p_ID p \<and> p_Name q = p_Name p))
    \<and> (\<forall>p. Made p \<in> set (dk_forms d) \<longrightarrow>
       fst (register_piece (srv_auth x) (Made p, sv_world (dk_server d))) =
         (if name_taken x (p_Name p) (sv_world (dk_server d))
          then Done None (Inl (Domain ErrNameTaken)) else Stored p))"
proof (rule sqlite_server_wired [OF assms(1)])
  fix good listing
  assume W: "inj (ext_uuid x)" "wired x good listing"
    and keep: "\<And>d. good d \<Longrightarrow> bk_view (ext_store x) (ext_reopen x d) = bk_view (ext_store x) d
      \<and> bk_stored (ext_store x) (ext_reopen x d) = bk_stored (ext_store x) d"
  let ?w = "sv_world (dk_server d)"
  note I = desk_invD [OF reachable_desk_inv [OF assms(2) W keep]]
  have good: "srv_good good ?w" by (rule world_invD(2) [OF server_invD(2) [OF I(1)]])
  note same = wired.same_account [OF W(2) good]
  have account: "has_account x ?w p" if "Done (Some p) r \<in> set (dk_forms d)" for p r
    using that by (intro stored_has_account [OF assms]) (force simp: stored_all_def)
  have apart: "nameKey (ext_uni x) (p_Name p) \<noteq> nameKey (ext_uni x) (p_Name q)"
    if ab: "a < b" "b < length (dk_forms d)" "dk_forms d ! a = Done (Some p) r" "dk_forms d ! b = Done (Some q) r'"
    for a b p q r r'
  proof -
    have "p_ID p \<noteq> p_ID q" by (rule stored_apart [OF I(6) ab(1,2)]) (simp_all add: ab)
    moreover have "has_account x ?w p" "has_account x ?w q"
      using account [of p r] account [of q r'] ab by (metis less_trans nth_mem)+
    then obtain p1 q1 where "srv_view x ?w (p_ID p) = Some p1" "p_Name p1 = p_Name p"
      "srv_view x ?w (p_ID q) = Some q1" "p_Name q1 = p_Name q"
      by (auto simp: has_account_def)
    ultimately show ?thesis using same [of "p_ID p" p1 "p_ID q" q1] by auto
  qed
  have found: "\<exists>q. reg_ByName (srv_registry x) (p_Name p) ?w = Inr q \<and> p_ID q = p_ID p \<and> p_Name q = p_Name p"
    if "Done (Some p) r \<in> set (dk_forms d)" for p r
  proof -
    from account [OF that] obtain q where q: "srv_view x ?w (p_ID p) = Some q" "p_Name q = p_Name p"
      by (auto simp: has_account_def)
    from same [OF q(1) q(1) refl] q(2) show ?thesis by auto
  qed
  have last: "fst (register_piece (srv_auth x) (Made p, ?w)) =
      (if name_taken x (p_Name p) ?w then Done None (Inl (Domain ErrNameTaken)) else Stored p)"
    if "Made p \<in> set (dk_forms d)" for p
  proof -
    have "p_ID p \<in> set (drawn_all (dk_forms d))" using that by (force simp: drawn_all_def)
    then have new: "srv_view x ?w (p_ID p) = None" using I(5) by blast
    show ?thesis
    proof (cases "name_taken x (p_Name p) ?w")
      case True
      then obtain i q where "srv_view x ?w i = Some q" "nameKey (ext_uni x) (p_Name q) = nameKey (ext_uni x) (p_Name p)"
        by (auto simp: name_taken_def ran_def)
      from wired.Create_taken_answer [OF W(2) good this] True show ?thesis
        by (auto simp: srv_auth_def split: prod.split)
    next
      case False
      then have "nameKey (ext_uni x) (p_Name q) \<noteq> nameKey (ext_uni x) (p_Name p)" if "srv_view x ?w i = Some q" for i q
        using that by (auto simp: name_taken_def ran_def)
      from wired.Create_free_answer [OF W(2) good this new] False show ?thesis
        by (auto simp: srv_auth_def split: prod.split)
    qed
  qed
  show ?thesis
    by (intro conjI allI impI)
      ((rule same [THEN conjunct1] apart found last; assumption))+
qed
text \<open>Eve and eve register at once, and both find the name free; the one who comes second to store
  it is refused.\<close>

definition eve :: "string \<Rightarrow> string \<Rightarrow> Player" where
  "eve i n = \<lparr>p_ID = i, p_Name = n, p_PasswordHash = ''#password'', p_Stats = zero_stats\<rparr>"

lemma eve_strings:
  "NormalizeName ''Eve'' = Inr ''Eve''" "NormalizeName ''eve'' = Inr ''eve''"
  "nameKey u ''Eve'' = ''eve''" "nameKey u ''eve'' = ''eve''" "decimal 6 = ''6''" "decimal 7 = ''7''"
  by code_simp+

lemma eve_pieces:
  assumes "w_store w = Some two_players"
  shows "register_piece (srv_auth demo) (Asked ''Eve'' ''password'', w) = (Checked ''Eve'' ''password'', w)"
    "register_piece (srv_auth demo) (Asked ''eve'' ''password'', w) = (Checked ''eve'' ''password'', w)"
    "register_piece (srv_auth demo) (Checked n ''password'', w) =
       (Hashed n ''#password'', w\<lparr>w_entropy := Suc (w_entropy w)\<rparr>)"
    "w_entropy w = 6 \<Longrightarrow> register_piece (srv_auth demo) (Hashed ''Eve'' ''#password'', w) =
       (Made (eve ''6'' ''Eve''), w\<lparr>w_entropy := 7\<rparr>)"
    "w_entropy w = 7 \<Longrightarrow> register_piece (srv_auth demo) (Hashed ''eve'' ''#password'', w) =
       (Made (eve ''7'' ''eve''), w\<lparr>w_entropy := 8\<rparr>)"
    "fst (register_piece (srv_auth demo) (Made (eve ''6'' ''Eve''), w)) = Stored (eve ''6'' ''Eve'')"
  using assms
  by (simp_all add: eve_strings srv_defs table_ops two_players_def ann_def bob_def player_row_def
      sample_strings sample_bcrypt errors_Is.simps MinPasswordLength_def MaxPasswordLength_def
      NewPlayer_normalized [OF eve_strings(1)] NewPlayer_normalized [OF eve_strings(2)] eve_def)

theorem registrations_overlap_witness:
  "\<exists>d. reachable_desk demo d \<and> dk_forms d = [Stored (eve ''6'' ''Eve''), Made (eve ''7'' ''eve'')]
     \<and> fst (register_piece (srv_auth demo) (Made (eve ''7'' ''eve''), sv_world (dk_server d))) =
         Done None (Inl (Domain ErrNameTaken))"
proof -
  let ?w = "\<lambda>n. two_players_world\<lparr>w_entropy := n\<rparr>"
  let ?desk = "\<lambda>n fs. reachable_desk demo \<lparr>dk_server = registered\<lparr>sv_world := ?w n\<rparr>, dk_forms = fs\<rparr>"
  have store: "w_store (?w n) = Some two_players" for n by (simp add: two_players_world_def)
  note pieces = eve_pieces [OF store]
  have "registered = registered\<lparr>sv_world := ?w 4\<rparr>"
    by (simp add: registered_eq two_players_world_def)
  with reachable_desk_server [OF registered_reachable] have "?desk 4 []" by metis
  from desk_begins [OF desk_begins [OF this, of "''Eve''" "''password''"], of "''eve''" "''password''"]
  have "?desk 4 ([] @ Asked ''Eve'' ''password'' # [Asked ''eve'' ''password''])" by simp
  from desk_piece [OF this, of "Checked ''Eve'' ''password''" "?w 4"] pieces(1) [of 4]
  have "?desk 4 ([Checked ''Eve'' ''password''] @ Asked ''eve'' ''password'' # [])" by simp
  from desk_piece [OF this, of "Checked ''eve'' ''password''" "?w 4"] pieces(2) [of 4]
  have "?desk 4 ([] @ Checked ''Eve'' ''password'' # [Checked ''eve'' ''password''])" by simp
  from desk_piece [OF this, of "Hashed ''Eve'' ''#password''" "?w 5"] pieces(3) [of "''Eve''" 4]
  have "?desk 5 ([Hashed ''Eve'' ''#password''] @ Checked ''eve'' ''password'' # [])" by simp
  from desk_piece [OF this, of "Hashed ''eve'' ''#password''" "?w 6"] pieces(3) [of "''eve''" 5]
  have "?desk 6 ([] @ Hashed ''Eve'' ''#password'' # [Hashed ''eve'' ''#password''])" by simp
  from desk_piece [OF this, of "Made (eve ''6'' ''Eve'')" "?w 7"] pieces(4) [of 6]
  have "?desk 7 ([Made (eve ''6'' ''Eve'')] @ Hashed ''eve'' ''#password'' # [])" by simp
  from desk_piece [OF this, of "Made (eve ''7'' ''eve'')" "?w 8"] pieces(5) [of 7]
  have made: "?desk 8 ([] @ Made (eve ''6'' ''Eve'') # [Made (eve ''7'' ''eve'')])" by simp
  obtain w where last: "register_piece (srv_auth demo) (Made (eve ''6'' ''Eve''), ?w 8) = (Stored (eve ''6'' ''Eve''), w)"
    using pieces(6) [of 8] by (metis prod.collapse)
  let ?d = "\<lparr>dk_server = registered\<lparr>sv_world := w\<rparr>, dk_forms = [Stored (eve ''6'' ''Eve''), Made (eve ''7'' ''eve'')]\<rparr>"
  have d: "reachable_desk demo ?d" using desk_piece [OF made, of "Stored (eve ''6'' ''Eve'')" w] last by simp
  have "has_account demo w (eve ''6'' ''Eve'')"
    using stored_has_account [OF demo_server d, of "eve ''6'' ''Eve''"] by (simp add: stored_all_def)
  then have "name_taken demo (p_Name (eve ''7'' ''eve'')) w"
    by (auto simp: has_account_def name_taken_def ran_def eve_def eve_strings)
  with registrations_overlap [OF demo_server d]
  have "fst (register_piece (srv_auth demo) (Made (eve ''7'' ''eve''), w)) = Done None (Inl (Domain ErrNameTaken))"
    by simp
  with d show ?thesis by (intro exI [of _ ?d]) simp
qed

end
