(* ===== verification/Session.thy ===== *)
theory Session
  imports Lobby_Theorems Client_Theorems
begin

text \<open>
  A session: the terminal client against the server, from the command line to the end of its socket.
  What the client posts, dials and writes is what the server's handlers get, and the server reads
  the commands of the socket in the order they were written. The client writes without waiting
  for answers, so its side of a session does not depend on the server after the dial.
\<close>




section \<open>The socket of a session stays\<close>







section \<open>What a session does\<close>







section \<open>A session is one player's\<close>



end
