(* ===== verification/Event_Theorems.thy ===== *)
theory Event_Theorems
  imports Lobby_Theorems Transport_Theorems
begin

text \<open>
  What the players of a game are told of a move: from the cells played to the frame that is put in
  the buffer of their sockets, through the services, the hub and the protocol.
\<close>

text \<open>The frame that tells the player \<open>q\<close> of a game of \<open>px\<close> and \<open>po\<close> what was played.\<close>

definition told :: "MatchID \<Rightarrow> PlayerID \<Rightarrow> nat list \<Rightarrow> PlayerID \<Rightarrow> string \<Rightarrow> frame" where
  "told mid px hs q opponent =
     empty_frame\<lparr>f_Type := (if decided hs then ''match_ended'' else ''state_changed''), f_MatchID := mid,
       f_State := Some
         \<lparr>w_MatchID = mid, w_Cells = map (\<lambda>i. markString (board_of hs ! i)) [0..<9],
          w_YourMark = (if q = px then ''X'' else ''O''), w_Turn = markString (turn_of hs),
          w_Status = Status_String (status_of hs),
          w_Outcome = outcomeString (counts_as (if q = px then X else Mark.O) (status_of hs)),
          w_Opponent = opponent, w_Finished = decided hs\<rparr>\<rparr>"

text \<open>What a frame does to a socket: closed sockets stay, full ones are closed.\<close>

definition delivered :: "frame \<Rightarrow> client \<Rightarrow> client" where
  "delivered f c =
     (if c_done c then c
      else if length (c_send c) < 16 then c\<lparr>c_send := c_send c @ [f]\<rparr>
      else c\<lparr>c_done := True\<rparr>)"

lemma delivered_id [simp]: "c_id (delivered f c) = c_id c"
  by (simp add: delivered_def)

lemma event_told:
  assumes "px \<noteq> po" and "am_match am = match_of mid px po hs" and "q = px \<or> q = po"
    and "ev_Type ev = (if decided hs then EventMatchEnded else EventStateChanged)"
    and "ev_MatchID ev = mid" and "ev_State ev = am_stateFor am q"
  shows "eventFrame ev = told mid px hs q (am_name am (if q = px then po else px))"
proof -
  have fin: "Status_IsFinished (status_of hs) = decided hs" by (simp add: status_of_decided)
  have outcome: "Match_OutcomeFor (match_of mid px po hs) q = counts_as (if q = px then X else Mark.O) (status_of hs)"
    using assms(1,3) status_of_decided [of hs]
    by (auto simp: OutcomeFor_match_of counts_as_def Status_IsFinished_def)
  have cells: "cells (board_of hs) = map (\<lambda>i. markString (board_of hs ! i)) [0..<9]"
    by (simp add: cells_def BoardSize_def Side_def Board_Cell_def)
  note two = two_players_match_of [OF assms(1), of mid hs]
  show ?thesis
    using assms MarkOf_two_players [OF two] Opponent_two_players [OF two]
    by (auto simp: eventFrame_def told_def newMatchState_def am_stateFor_def Let_def match_simps outcome cells fin)
qed
section \<open>Delivery\<close>

lemma Notify_delivers:
  assumes "hub_inv h" and "h_heap h k = Some c"
  shows "h_heap (Hub_Notify i ev h) k =
    Some (if c_id c = i \<and> map_of (h_clients h) i = Some k then delivered (eventFrame ev) c else c)"
    and "h_clients (Hub_Notify i ev h) = h_clients h"
  using notify_effect [OF assms(1), of i ev] hub_invD(2) [OF assms(1), of i] assms(2)
  by (auto simp: delivered_def split: option.splits)

text \<open>Saving and recording touch no socket.\<close>

lemma persist_hub: "w_hub (Games_persist (srv_games x) r w) = w_hub w"
  by (simp add: Games_persist_def srv_defs split: prod.split option.split)

lemma record_hub: "w_hub (Games_record (srv_games x) r w) = w_hub w"
  by (simp add: Games_record_def srv_defs split: prod.split option.split sum.split)

lemma records_hub: "w_hub (fold (Games_record (srv_games x)) rs w) = w_hub w"
  by (induction rs arbitrary: w) (simp_all add: record_hub)

lemma move_effect_hub:
  "w_hub (move_effect (srv_games x) am t rs w) =
     fold (\<lambda>a. Hub_Notify (a_to a) (a_ev a)) (am_events am t) (w_hub w)"
proof -
  have "w_hub (Games_dispatch (srv_games x) evs w) = fold (\<lambda>a. Hub_Notify (a_to a) (a_ev a)) evs (w_hub w)" for evs w
    unfolding Games_dispatch_def by (induction evs arbitrary: w) (simp_all add: srv_defs)
  then show ?thesis by (simp add: move_effect_def records_hub persist_hub)
qed

text \<open>Every socket after the events of a match.\<close>

lemma events_delivered:
  assumes "hub_inv h" and "h_heap h k = Some c" and "px \<noteq> po"
    and "am_match am = match_of mid px po hs"
    and "t = (if decided hs then EventMatchEnded else EventStateChanged)"
  shows "h_heap (fold (\<lambda>a. Hub_Notify (a_to a) (a_ev a)) (am_events am t) h) k =
    Some (if (c_id c = px \<or> c_id c = po) \<and> map_of (h_clients h) (c_id c) = Some k
          then delivered (told mid px hs (c_id c) (am_name am (if c_id c = px then po else px))) c else c)"
proof -
  note two = two_players_match_of [OF assms(3), of mid hs]
  let ?ev = "\<lambda>q. \<lparr>ev_Type = t, ev_MatchID = mid, ev_State = am_stateFor am q\<rparr>"
  have evs: "am_events am t = [\<lparr>a_to = px, a_ev = ?ev px\<rparr>, \<lparr>a_to = po, a_ev = ?ev po\<rparr>]"
    using PlayerOf_two_players [OF two] by (simp add: am_events_def Let_def assms(4) match_simps)
  have frames: "eventFrame (?ev q) = told mid px hs q (am_name am (if q = px then po else px))"
    if "q = px \<or> q = po" for q
    by (rule event_told [OF assms(3,4) that]) (simp_all add: assms(5))
  note one = Notify_delivers [OF assms(1,2), of px "?ev px"]
  note inv1 = Notify_inv [OF assms(1), of px "?ev px"]
  show ?thesis
    using assms(3) Notify_delivers(1) [OF inv1 one(1), of po "?ev po"] one(2) frames
    by (auto simp: evs)
qed
section \<open>The names shown\<close>

context wired
begin

text \<open>What starting, moving and abandoning keep of the games, every step of the server keeps.\<close>

lemma step_games:
  assumes "server_inv x good s" and "server_step x s s'" and "Q (sv_games s)" and "Q NewGames"
    and start: "\<And>px po e g w. Games_Start (srv_games x) px po (sv_games s, sv_world s) = (e, g, w) \<Longrightarrow> Q g"
    and move: "\<And>p c r g w. Games_Move (srv_games x) p c (sv_games s, sv_world s) = (r, g, w) \<Longrightarrow> Q g"
    and abandon: "\<And>p g w w'. Games_Abandon (srv_games x) p (sv_games s, w) = (g, w') \<Longrightarrow> Q g"
  shows "Q (sv_games s')"
proof -
  have join: "Q (sv_games s1)" if run: "server_join (srv_deps x) p s = (e, s1)" for p e s1
  proof -
    obtain m g w where join:
      "Matchmaking_Join (games_matches (srv_games x)) p (sv_mm s, sv_games s, sv_world s) = (e, m, g, w)"
      and s1: "s1 = s\<lparr>sv_mm := m, sv_games := g, sv_world := w\<rparr>"
      using run by (auto simp: server_join_def srv_deps_def split: prod.splits)
    from join have "Q g" using assms(3) start by (cases rule: Join_effect) auto
    then show ?thesis by (simp add: s1)
  qed
  have moved: "Q (sv_games s1)" if "server_move (srv_deps x) p c s = (r, s1)" for p c r s1
    using that move [of p c] by (auto simp: server_move_def srv_deps_def split: prod.splits)
  have abandoned: "Q (sv_games (server_abandon (srv_deps x) p s1))" if "sv_games s1 = sv_games s" for p s1
    using abandon [of p "sv_world s1"] that by (simp add: server_abandon_def srv_deps_def split: prod.split)
  from assms(2) show ?thesis
  proof cases
    case (request r)
    have "Q (sv_games (snd (run_route (srv_deps x) rt r s)))" for rt
      using assms(3) abandoned
      by (cases rt) (auto intro: join moved simp: authenticated_def handleHealth_def handleLogin_def handleLeaderboard_def
          handleState_def handleLeave_def server_leave_def handleResign_def handleRegister_def handleJoin_def
          handleMove_def decode_body_def Let_def split: option.split sum.split prod.split)
    then show ?thesis using assms(3) by (simp add: request handle_def split: sum.split)
  next
    case (socket k r)
    then show ?thesis using assms(3) by (simp add: handleWS_def split: sum.split)
  next
    case (command k c cmd)
    obtain e s1 where j: "server_join (srv_deps x) (c_id c) s = (e, s1)" by fastforce
    obtain r s2 where m: "server_move (srv_deps x) (c_id c) (cmd_Cell cmd) s = (r, s2)" by fastforce
    show ?thesis
      using assms(3) join [OF j] moved [OF m] abandoned [OF refl, of "c_id c"]
      by (simp add: command(1) readPump_step_def client_dispatch_def j m push_frame_def server_leave_def
          split: option.split sum.split prod.split)
  next
    case (disconnect k c)
    have "sv_games (readPump_exit x k (c_id c) s) = sv_games (server_abandon (srv_deps x) (c_id c)
        (server_leave (c_id c) (on_hub (\<lambda>h. heap_close k (Hub_unregister k (c_id c) h)) s)))"
      by (simp add: readPump_exit_eq [OF server_inv_hub [OF assms(1)] disconnect(2) refl])
    with abandoned show ?thesis by (simp add: disconnect(1) server_leave_def on_hub_def)
  next
    case restart
    with assms(4) show ?thesis by (simp add: restart_def)
  qed (use assms(3) in \<open>simp_all add: on_hub_def\<close>)
qed

end

text \<open>The match shows its players under the names of their accounts.\<close>

definition named :: "(PlayerID \<Rightarrow> Player option) \<Rightarrow> Games \<Rightarrow> bool" where
  "named v g \<longleftrightarrow>
     (\<forall>mid am q. active g mid = Some am \<longrightarrow> q = am_X am \<or> q = am_O am \<longrightarrow>
        (\<exists>pl. v q = Some pl \<and> am_name am q = p_Name pl))"

lemma namedD:
  "named v g \<Longrightarrow> active g mid = Some am \<Longrightarrow> q = am_X am \<or> q = am_O am \<Longrightarrow>
   \<exists>pl. v q = Some pl \<and> am_name am q = p_Name pl"
  unfolding named_def by blast

lemma named_fewer:
  assumes "named v g" and "active g' \<subseteq>\<^sub>m active g"
  shows "named v g'"
  unfolding named_def
proof (intro allI impI)
  fix mid am q
  assume "active g' mid = Some am" and q: "q = am_X am \<or> q = am_O am"
  then have "active g mid = Some am" using assms(2) unfolding map_le_def by (metis domI)
  then show "\<exists>pl. v q = Some pl \<and> am_name am q = p_Name pl" by (rule namedD [OF assms(1) _ q])
qed

lemma named_update:
  assumes "named v g" and "active g' = (active g)(mid \<mapsto> am')"
    and "\<And>q. q = am_X am' \<or> q = am_O am' \<Longrightarrow> \<exists>pl. v q = Some pl \<and> am_name am' q = p_Name pl"
  shows "named v g'"
  unfolding named_def using assms(3) namedD [OF assms(1)] by (auto simp: assms(2))

context wired
begin

lemma step_named:
  assumes "server_inv x good s" and "server_step x s s'" and "named (srv_view x (sv_world s)) (sv_games s)"
  shows "named (srv_view x (sv_world s)) (sv_games s')"
proof (rule step_games [where Q = "named (srv_view x (sv_world s))", OF assms])
  note I = world_invD [OF server_invD(2) [OF assms(1)]]
  show "named (srv_view x (sv_world s)) NewGames" by (simp add: named_def NewGames_def)
  fix p g w w'
  assume "Games_Abandon (srv_games x) p (sv_games s, w) = (g, w')"
  then have "active g \<subseteq>\<^sub>m active (sv_games s)"
    by (cases "Games_lookup (sv_games s) p")
      (auto simp: Abandon_None Abandon_Some forget_unfold map_le_def split: if_splits)
  then show "named (srv_view x (sv_world s)) g" by (rule named_fewer [OF assms(3)])
next
  note I = world_invD [OF server_invD(2) [OF assms(1)]]
  fix p c r g w
  assume run: "Games_Move (srv_games x) p c (sv_games s, sv_world s) = (r, g, w)"
  from I(1) run show "named (srv_view x (sv_world s)) g"
  proof (cases rule: Move_cases)
    case (Running am m1 mid)
    note players = after_move_players [OF Running(5)]
    have names: "am_name (after_move am m1) q = am_name am q" for q by (simp add: am_name_def)
    show ?thesis
      by (rule named_update [OF assms(3), of _ mid "after_move am m1"])
        (use namedD [OF assms(3) Running(3)] in \<open>simp_all add: Running(8) players names\<close>)
  next
    case (Finishing am m1 mid)
    show ?thesis
      by (rule named_fewer [OF assms(3)]) (auto simp: Finishing(8) forget_unfold map_le_def)
  qed (use assms(3) in simp_all)
next
  note I = world_invD [OF server_invD(2) [OF assms(1)]]
  fix px po e g w
  assume run: "Games_Start (srv_games x) px po (sv_games s, sv_world s) = (e, g, w)"
  show "named (srv_view x (sv_world s)) g"
  proof (cases e)
    case None
    with run obtain xp op mid w1 where ok: "rec_ByID (d_players (srv_games x)) px (sv_world s) = Inr xp"
      "rec_ByID (d_players (srv_games x)) po (sv_world s) = Inr op"
      "g_NewID (d_ids (srv_games x)) (sv_world s) = (mid, w1)" "px \<noteq> po"
      "\<not> Games_InMatch px (sv_games s)" "\<not> Games_InMatch po (sv_games s)"
      by (auto elim: Start_success)
    have "srv_view x (sv_world s) px = Some xp" "srv_view x (sv_world s) po = Some op"
      using ok(1,2) by (simp_all add: srv_view_def bk_view_def srv_defs)
    moreover have "am_name (started mid xp op px po) px = p_Name xp" "am_name (started mid xp op px po) po = p_Name op"
      using ok(4) by (simp_all add: started_def am_name_def)
    moreover have "active g = (active (sv_games s))(mid \<mapsto> started mid xp op px po)"
      using Start_ok [OF ok] run by simp
    ultimately show ?thesis
      by (intro named_update [OF assms(3), of _ mid "started mid xp op px po"]) auto
  next
    case (Some e')
    with run assms(3) show ?thesis by (auto dest: Start_error_frame)
  qed
qed

end

lemma reachable_named:
  assumes "sqlite_server x" and "reachable_server x s"
  shows "named (srv_view x (sv_world s)) (sv_games s)"
  using assms(2)
proof induction
  case (boot now)
  show ?case by (simp add: named_def new_server_def NewGames_def)
next
  case (step s s')
  obtain good listing where W: "inj (ext_uuid x)" "wired x good listing"
    using sqlite_server_wired [OF assms(1)] by metis
  have old: "named (srv_view x (sv_world s)) (sv_games s')"
    by (rule wired.step_named [OF W(2) wired.reachable_server_inv [OF W(2,1) step(1)] step(2,3)])
  note ev = step_event [OF assms(1) step(1,2)]
  show ?case
    unfolding named_def
  proof (intro allI impI)
    fix mid am q
    assume "active (sv_games s') mid = Some am" and q: "q = am_X am \<or> q = am_O am"
    from namedD [OF old this] obtain pl where pl: "srv_view x (sv_world s) q = Some pl" "am_name am q = p_Name pl"
      by blast
    from name_kept [OF ev pl(1)] pl(2) show "\<exists>pl. srv_view x (sv_world s') q = Some pl \<and> am_name am q = p_Name pl"
      by auto
  qed
qed
section \<open>Moves are told\<close>

text \<open>C10. An accepted move is told to the two players of the game and to nobody else: every open socket
  of one of them, if it is the registered one, is given one frame (or is closed, when sixteen wait
  already) that shows the cells played up to this move, the turn, the player's own mark and outcome,
  and the name of the other player's account; every other socket is as before. A move that is refused
  sends nothing.\<close>

theorem moves_are_told:
  assumes "sqlite_server x" and "reachable_server x s" and "server_move (srv_deps x) p c s = (r, s')"
  shows "case r of
      Inl e \<Rightarrow> w_hub (sv_world s') = w_hub (sv_world s)
    | Inr st \<Rightarrow> \<exists>mid px po hs nx no. games_on (lobby_of x s) mid = Some (px, po, hs)
        \<and> p = mover_of px po hs \<and> legal (hs @ [nat c])
        \<and> map_option fst (accounts (lobby_of x s) px) = Some nx
        \<and> map_option fst (accounts (lobby_of x s) po) = Some no
        \<and> (\<forall>k cl. h_heap (w_hub (sv_world s)) k = Some cl \<longrightarrow>
             h_heap (w_hub (sv_world s')) k = Some
               (if (c_id cl = px \<or> c_id cl = po) \<and> map_of (h_clients (w_hub (sv_world s))) (c_id cl) = Some k
                then delivered (told mid px (hs @ [nat c]) (c_id cl) (if c_id cl = px then no else nx)) cl
                else cl))"
proof (rule reachable_sqlite [OF assms(1,2)])
  fix good listing
  assume W: "wired x good listing" and inv: "world_inv x good (sv_games s) (sv_world s)"
  note I = world_invD [OF inv]
  obtain g w where run: "Games_Move (srv_games x) p c (sv_games s, sv_world s) = (r, g, w)"
    and s': "s' = s\<lparr>sv_games := g, sv_world := w\<rparr>"
    using assms(3) by (auto simp: server_move_def srv_deps_def split: prod.splits)
  have accepted: ?thesis
    if am: "active (sv_games s) mid = Some am" "live mid am" "Match_ApplyMove (am_match am) p c = (None, m1)"
      and w: "w = move_effect (srv_games x) (after_move am m1) t rs (sv_world s)"
      and t: "t = (if Status_IsFinished (m_status m1) then EventMatchEnded else EventStateChanged)"
      and r: "r = Inr st" for mid am m1 t rs st
  proof -
    obtain hs where hs: "game_of am = (am_X am, am_O am, hs)" "am_X am \<noteq> am_O am" "legal hs"
      "am_match am = match_of mid (am_X am) (am_O am) hs"
      using am(2) by (rule live_game)
    note move = mover_unique [OF am(3) [unfolded hs(4)] hs(2,3)]
    have t': "t = (if decided (hs @ [nat c]) then EventMatchEnded else EventStateChanged)"
      using t move by (simp add: status_of_decided)
    note N = namedD [OF reachable_named [OF assms(1,2)] am(1)]
    obtain xp op where names: "srv_view x (sv_world s) (am_X am) = Some xp" "am_name am (am_X am) = p_Name xp"
      "srv_view x (sv_world s) (am_O am) = Some op" "am_name am (am_O am) = p_Name op"
      using N [of "am_X am"] N [of "am_O am"] by auto
    have same: "am_name (after_move am m1) q = am_name am q" for q by (simp add: am_name_def)
    have match: "am_match (after_move am m1) = match_of mid (am_X am) (am_O am) (hs @ [nat c])"
      using move by simp
    have sockets: "\<forall>k cl. h_heap (w_hub (sv_world s)) k = Some cl \<longrightarrow> h_heap (w_hub (sv_world s')) k = Some
        (if (c_id cl = am_X am \<or> c_id cl = am_O am) \<and> map_of (h_clients (w_hub (sv_world s))) (c_id cl) = Some k
         then delivered (told mid (am_X am) (hs @ [nat c]) (c_id cl)
           (if c_id cl = am_X am then p_Name op else p_Name xp)) cl else cl)"
    proof (intro allI impI)
      fix k cl
      assume "h_heap (w_hub (sv_world s)) k = Some cl"
      from events_delivered [OF I(3) this hs(2) match t'] names
      show "h_heap (w_hub (sv_world s')) k = Some
        (if (c_id cl = am_X am \<or> c_id cl = am_O am) \<and> map_of (h_clients (w_hub (sv_world s))) (c_id cl) = Some k
         then delivered (told mid (am_X am) (hs @ [nat c]) (c_id cl)
           (if c_id cl = am_X am then p_Name op else p_Name xp)) cl else cl)"
        by (simp add: s' w move_effect_hub same)
    qed
    have on: "games_on (lobby_of x s) mid = Some (am_X am, am_O am, hs)" using am(1) hs(1) by simp
    have accs: "map_option fst (accounts (lobby_of x s) (am_X am)) = Some (p_Name xp)"
      "map_option fst (accounts (lobby_of x s) (am_O am)) = Some (p_Name op)"
      using names by (simp_all add: account_of_def)
    show ?thesis
      unfolding r sum.case
      by (intro exI conjI, rule on, rule conjunct1 [OF move], rule conjunct1 [OF conjunct2 [OF move]],
          rule accs(1), rule accs(2), rule sockets)
  qed
  from I(1) run show ?thesis
  proof (cases rule: Move_cases)
    case (Running am m1 mid)
    show ?thesis by (rule accepted [OF Running(3-5,9) _ Running(7)]) (simp add: Running(6))
  next
    case (Finishing am m1 mid)
    show ?thesis by (rule accepted [OF Finishing(3-5,9) _ Finishing(7)]) (simp add: Finishing(6))
  qed (simp_all add: s')
qed
text \<open>Ann, who has a socket, plays the centre and is shown the board with her mark there.\<close>

theorem moves_are_told_witness:
  "\<exists>st s' cl. server_move (srv_deps demo) ''1'' 4 one_socket = (Inr st, s')
     \<and> h_heap (w_hub (sv_world s')) 0 = Some cl \<and> c_send cl = [told ''4'' ''1'' [4] ''1'' ''bob'']"
proof -
  have ok: "Match_ApplyMove (am_match first_match) ''1'' 4 = (None, match_of ''4'' ''1'' ''3'' [4])"
    "\<not> Status_IsFinished (m_status (match_of ''4'' ''1'' ''3'' [4]))"
    by (simp, code_simp)+
  obtain st s' where run: "server_move (srv_deps demo) ''1'' 4 one_socket = (Inr st, s')"
    using Move_running [OF playing_lookup(1,3) ok, of "srv_games demo" "sv_world one_socket"]
    by (auto simp: server_move_def srv_deps_def one_socket_sel)
  have sock: "h_heap (w_hub (sv_world one_socket)) 0 = Some (new_client ''1'')"
    "map_of (h_clients (w_hub (sv_world one_socket))) ''1'' = Some 0"
    by (simp_all add: one_socket_sel connect_sel Let_def NewHub_def)
  have "w_store (sv_world one_socket) = Some (two_players\<lparr>t_matches := [match_row (am_record first_match)]\<rparr>)"
    by (simp add: one_socket_def handleWS_def ws_token playing_eq playing_world_def two_players_world_def)
  then have view: "srv_view demo (sv_world one_socket) = [''1'' \<mapsto> ann, ''3'' \<mapsto> bob]" by (rule sample_view)
  have game: "games_on (lobby_of demo one_socket) mid = (if mid = ''4'' then Some (''1'', ''3'', []) else None)" for mid
    by (simp add: one_socket_sel playing_games_def game_of_def)
  obtain mid px po hs nx no where told: "games_on (lobby_of demo one_socket) mid = Some (px, po, hs)"
    "map_option fst (accounts (lobby_of demo one_socket) po) = Some no"
    "\<And>k cl. h_heap (w_hub (sv_world one_socket)) k = Some cl \<Longrightarrow> h_heap (w_hub (sv_world s')) k = Some
       (if (c_id cl = px \<or> c_id cl = po) \<and> map_of (h_clients (w_hub (sv_world one_socket))) (c_id cl) = Some k
        then delivered (told mid px (hs @ [nat 4]) (c_id cl) (if c_id cl = px then no else nx)) cl else cl)"
    using moves_are_told [OF demo_server one_socket_reachable run] unfolding sum.case by blast
  have g: "mid = ''4''" "px = ''1''" "po = ''3''" "hs = []"
    using told(1) by (simp_all only: game split: if_splits) simp_all
  have "no = ''bob''" using told(2) by (simp add: g(3) view account_of_def bob_def)
  with told(3) [OF sock(1)] sock(2) g
  have "h_heap (w_hub (sv_world s')) 0 = Some (delivered (told ''4'' ''1'' [4] ''1'' ''bob'') (new_client ''1''))"
    by (simp add: new_client_def)
  with run show ?thesis by (auto simp: delivered_def new_client_def)
qed

end
