(* ===== verification/Spec2Isabelle.thy ===== *)
theory Spec2Isabelle
  imports Match_Theorems Service_Theorems Account_Theorems Transport_Theorems Race_Theorems
    Store_Theorems Client_Theorems Registrations Session
    Event_Theorems
begin

text \<open>
  A model of gotic_tac, a server on which players are paired and play tic-tac-toe over HTTP and
  sockets, and of its terminal client; with the theorems that make it correct.

  \<^bold>\<open>The program.\<close> \<open>internal/domain\<close> has the rules of the game.
  \<open>internal/usecase\<close> has four services: accounts (\<open>Auth\<close>), the queue of
  players waiting (\<open>Matchmaking\<close>), the matches in progress (\<open>Games\<close>) and
  the \<open>Leaderboard\<close>. They talk to the outside through the interfaces of
  \<open>ports.go\<close>, which \<open>internal/adapter\<close> implements: two pairs of stores
  (\<open>memory\<close>, \<open>sqlite\<close>), tokens, password hashes and identifiers
  (\<open>auth\<close>, \<open>id\<close>), and the transport (\<open>transport\<close>: HTTP
  handlers, sockets, and the hub that delivers events). \<open>cmd/server\<close> wires them up
  over SQLite; \<open>cmd/client\<close> is the client.

  \<^bold>\<open>Which theory models which part.\<close>

  \<^item> Prelude and Go_Strings: Go's integers, slices, \<open>strings\<close> and
    \<open>strconv\<close>, as far as they are used.
  \<^item> Errors: the sentinels of \<open>domain/errors.go\<close>,
    \<open>usecase/errors.go\<close> and \<open>transport/errors.go\<close>; wrapping,
    \<open>errors.Is\<close>, \<open>errors.As\<close>.
  \<^item> Board, Match_Model, Player_Model: \<open>board.go\<close>, \<open>mark.go\<close>,
    \<open>match.go\<close>, \<open>player.go\<close>. Game_Spec has the abstract game (the list
    of cells played) and the refinement, Match_Props what follows for the entity.
  \<^item> Ports, Ranking, Leaderboard: the interfaces and the events as records, their contracts
    as locales (\<open>player_recorder\<close>, \<open>player_registry\<close>,
    \<open>match_store\<close>, \<open>standings_reader\<close>), and the leaderboard.
  \<^item> Encoding: \<open>sqlite/encoding.go\<close>. Backend: what any store has to provide, as
    one contract, the locale \<open>backend\<close>. Memory_Stores: \<open>memory/*.go\<close>.
    Sql_Tables: the schema, the meaning of each SQL statement of the source, and the driver as a
    parameter with laws; Sqlite_Stores: \<open>db.go\<close>, \<open>player_store.go\<close>,
    \<open>match_store.go\<close> over any driver; Sqlite_Props: they keep the contract.
    Conformance: the suite of \<open>storetest.go\<close>, subtest by subtest, proved for every
    store that keeps the contract.
  \<^item> Games_Model, Games_Props: \<open>games.go\<close>, its two maps and their invariant.
    Matchmaking_Model: \<open>matchmaking.go\<close>, which sees the games through the locale
    \<open>matches_port\<close>. Games_Services: what a move writes, over the contracts of the
    stores. Auth_Model: \<open>auth.go\<close>. Auth_Adapters: \<open>auth/jwt.go\<close>,
    \<open>auth/hash.go\<close>, \<open>id/uuid.go\<close>.
  \<^item> Protocol, Hub_Model, Pumps, Http_Model: \<open>protocol.go\<close>, the rest of
    \<open>transport/errors.go\<close>, \<open>hub.go\<close>, \<open>conn.go\<close>,
    \<open>http.go\<close>, \<open>router.go\<close>.
  \<^item> Server: the wiring of \<open>cmd/server/main.go\<close> over any
    \<open>backend\<close>, the locale \<open>wired\<close>. Server_Inv: the server as a state
    machine (\<open>server_step\<close>, \<open>reachable_server\<close>) and its invariant.
    Server_Program: \<open>config.go\<close>, and \<open>run\<close> and \<open>main\<close> of the
    program; \<open>sqlite_server x\<close> says that \<open>x\<close> is what it set up on
    a driver that works. Server_Props: the use cases on the wired server.
  \<^item> Interleavings, Schedules: operations taken apart at the locks, under every
    interleaving. Linearization: each piece of them is one event of the games, or none.
  \<^item> Lobby: the specification of the whole server, which knows nothing but who waits, which games
    are on and what the accounts are worth; \<open>lobby_step\<close> are the events it allows.
    Lobby_Refinement: \<open>lobby_of\<close> is the abstraction, every operation an event, and every
    event an operation. Registrations: \<open>auth.go\<close>'s \<open>Register\<close> taken apart between
    its calls, in any order with the rest of the server.
  \<^item> Client: \<open>cmd/client/main.go\<close>. Session: the client against the server, from the
    command line to the end of its socket. Sample_Run: a concrete server and runs of
    it, on which the witnesses evaluate.

  \<^bold>\<open>How state corresponds.\<close> A struct is a record, a pointer receiver a
  function that returns the changed record, an interface value a record of functions over the
  state behind it, an \<open>error\<close> the left side of a sum or an option.
  \<open>Server\<close> is the queue, the games, and a \<open>World\<close>: the store, the hub
  with its sockets, the clock, and the entropy drawn. Maps whose order Go leaves open are
  functions, or lists the result is shown not to depend on. Counters wrap around at 64 bits.

  \<^bold>\<open>What the groups of properties show.\<close> Lobby_Theorems: the server implements the
  lobby, nobody acts for somebody else, whatever the lobby allows can be requested, and every game
  can be played to any end over HTTP. Event_Theorems: what each socket is told of a move,
  through services, hub and protocol. Registrations: one account for a name, however
  registrations overlap. Session: whatever is typed into the client is one player's doing. Match_Theorems: the entity implements
  the game, every line is found, histories restore to exactly the reachable matches.
  Service_Theorems: joining, starting, moving, resigning and the leaderboard on every branch, on
  the server in every state it reaches. Account_Theorems: registering on every branch, logins, how
  long tokens live, accounts apart and well typed. Store_Theorems: both stores pass the suite and
  cannot be told apart, what a database that fails looks like, when the program starts.
  Transport_Theorems: errors on the wire, protected routes, HTTP against sockets, notification,
  order of frames, life of a socket. Race_Theorems: what holds under every interleaving, that the
  games change by one allowed event at a time, that
  pending operations end, and two races by a run. Client_Theorems: what is typed is done and what
  is shown can be played. The properties below span the whole server.

  \<^bold>\<open>Bounds and termination.\<close> No definition needs fuel: loops of the source run
  over slices or maps and are structural recursions, except \<open>rows_loop\<close>,
  \<open>strip\<close> and \<open>Fields\<close>, which have a measure. A schedule (\<open>run_turns\<close>) is a list of
  turns; a property of Race_Theorems computes from the pending operations how many are enough.

  \<^bold>\<open>What is assumed.\<close> The libraries are parameters: the Unicode tables of
  \<open>ToLower\<close> (arbitrary), \<open>time.ParseDuration\<close> (arbitrary), golang-jwt
  (\<open>jwt_laws\<close>), bcrypt (\<open>bcrypt_laws\<close>), google/uuid (identifiers do not
  repeat), and the SQLite driver (\<open>sqlite_laws\<close>: in a healthy state it runs a
  statement as SQL says; a property of Store_Theorems is about one that does not).

  \<^bold>\<open>Not modelled.\<close> JSON text, HTTP and socket bytes (so also the read limit of
  512 bytes and the upgrade), the request log, contexts and their cancellation (an error of a
  port), the parsing of flags, the listening, the signals and the work of a shutdown: they are calls
  of the standard library or of gorilla/websocket. What else is not covered by a definition are
  package clauses, imports, and constructors that only fill a struct.
  The Go tests other than the conformance suite.
\<close>

section \<open>The server as a whole\<close>







text \<open>C29. In every state the server reaches, a player has at most one open socket, an open socket is
  the one events for its player go to, and no socket buffers more than sixteen frames.\<close>

theorem one_live_socket:
  assumes "sqlite_server x" and "reachable_server x s"
    and "h_heap (w_hub (sv_world s)) k = Some c" and "\<not> c_done c"
  shows "map_of (h_clients (w_hub (sv_world s))) (c_id c) = Some k
    \<and> length (c_send c) \<le> 16
    \<and> (\<forall>k' c'. h_heap (w_hub (sv_world s)) k' = Some c' \<longrightarrow> c_id c' = c_id c \<longrightarrow> k' = k \<or> c_done c')"
proof (rule reachable_sqlite [OF assms(1,2)])
  fix good listing
  assume W: "world_inv x good (sv_games s) (sv_world s)"
  note hub = world_invD(3) [OF W]
  have "map_of (h_clients (w_hub (sv_world s))) (c_id c) = Some k"
    by (rule hub_invD(4) [OF hub assms(3,4)])
  then show ?thesis
    using hub_invD(3) [OF hub assms(3)] hub_invD(4) [OF hub] by (fastforce simp: sendBuffer_def)
qed

theorem one_live_socket_witness:
  "map_of (h_clients (w_hub (sv_world one_socket))) ''1'' = Some 0"
proof -
  have "h_heap (w_hub (sv_world one_socket)) 0 = Some (new_client ''1'')"
    by (simp add: one_socket_sel connect_sel Let_def NewHub_def)
  from one_live_socket [OF demo_server one_socket_reachable this] show ?thesis
    by (auto simp: new_client_def)
qed

text \<open>No match gets stuck on the server: in every state it reaches, for every match in progress
  the player who has the turn can play a free cell, the move is accepted, and a match has at
  most nine of them.\<close>

lemma live_match_progress:
  assumes "sqlite_server x" and "reachable_server x s" and "Games_lookup (sv_games s) p = Some am"
  shows "\<exists>q c st. q \<in> {am_X am, am_O am} \<and> fst (server_move (srv_deps x) q c s) = Inr st
    \<and> length (m_moves (am_match am)) < 9"
proof (rule reachable_sqlite [OF assms(1,2)])
  fix good listing
  assume W: "world_inv x good (sv_games s) (sv_world s)"
  note I = world_invD [OF W]
  obtain mid where mid: "active (sv_games s) mid = Some am" "live mid am"
    using lookup_Some [OF I(1) assms(3)] .
  obtain hs where hs: "legal hs" "\<not> decided hs" "am_X am \<noteq> am_O am"
    "am_match am = match_of mid (am_X am) (am_O am) hs"
    using live_legal [OF mid(2)] .
  let ?q = "mover_of (am_X am) (am_O am) hs"
  have short: "length hs < 9"
    using legal_length [OF hs(1)] hs(2) decided_9 by (metis le_neq_implies_less)
  obtain i where "i < 9" "i \<notin> set hs"
    using free_cell [OF hs(1,2)] by blast
  then have "move_error (am_X am) (am_O am) hs ?q (int i) = None"
    using hs(2) by (simp add: move_error_None)
  then obtain m1 where ok: "Match_ApplyMove (am_match am) ?q (int i) = (None, m1)"
    using hs by (simp add: ApplyMove_match_of)
  have "?q \<in> {am_X am, am_O am}" by (simp add: mover_of_def)
  with games_inv_active(2,3) [OF I(1) mid(1)] have lookup: "Games_lookup (sv_games s) ?q = Some am"
    using mid(1) by (auto simp: Games_lookup_def)
  obtain r g w where run: "Games_Move (srv_games x) ?q (int i) (sv_games s, sv_world s) = (r, g, w)"
    by (metis surj_pair)
  have "\<exists>st. r = Inr st"
    using I(1) run
  proof (cases rule: Move_cases)
    case (Rejected am' e)
    with lookup ok show ?thesis by simp
  qed (use lookup in simp_all)
  with run have "\<exists>st. fst (server_move (srv_deps x) ?q (int i) s) = Inr st"
    by (auto simp: server_move_def srv_deps_def)
  with \<open>?q \<in> {am_X am, am_O am}\<close> short show ?thesis by (auto simp: hs(4))
qed

end
